(* ===== verification/Chisel_Prelude.thy ===== *)
theory Chisel_Prelude
  imports Main "HOL-Library.AList" "HOL-Library.Sublist"
begin

text \<open>
  The shared base of the development: names for the types every component uses, the
  collections of facts the proofs are driven by, and the generic lemmas on lists and
  association lists.

  A Go string is a sequence of bytes, and so is a HOL \<open>string\<close> (a list of 8-bit \<open>char\<close>):
  lengths and indices agree. A Go map is an association list with distinct keys, updated by
  \<^const>\<open>AList.update\<close> and \<^const>\<open>AList.delete\<close>; the order of the list stands for the
  (unspecified) order of a \<^verbatim>\<open>range\<close> loop over the map. A \<^verbatim>\<open>time.Time\<close> is a natural number of
  nanoseconds, with 0 for the zero time (\<^verbatim>\<open>IsZero\<close>).
\<close>

type_synonym time = nat

type_synonym 'v go_map = "(string \<times> 'v) list"

named_theorems go_str \<open>facts about the string operations of the Go standard library\<close>
named_theorems model_defs \<open>definitions of a component that its proofs unfold\<close>

subsection \<open>Go maps as association lists\<close>

abbreviation map_get :: "'v go_map \<Rightarrow> string \<Rightarrow> 'v option" where
  "map_get m k \<equiv> map_of m k"

abbreviation map_set :: "string \<Rightarrow> 'v \<Rightarrow> 'v go_map \<Rightarrow> 'v go_map" where
  "map_set k v m \<equiv> AList.update k v m"

abbreviation map_del :: "string \<Rightarrow> 'v go_map \<Rightarrow> 'v go_map" where
  "map_del k m \<equiv> AList.delete k m"

abbreviation wf_map :: "'v go_map \<Rightarrow> bool" where
  "wf_map m \<equiv> distinct (map fst m)"

lemma map_get_set [simp]: "map_get (map_set k v m) = (map_get m)(k \<mapsto> v)"
  by (rule ext) (simp add: update_conv)

lemma map_get_del [simp]: "map_get (map_del k m) = (map_get m)(k := None)"
  by (rule ext) (simp add: delete_conv)

lemma wf_map_set [intro, simp]: "wf_map m \<Longrightarrow> wf_map (map_set k v m)"
  by (rule distinct_update)

lemma wf_map_del [intro, simp]: "wf_map m \<Longrightarrow> wf_map (map_del k m)"
  by (rule distinct_delete)

lemma length_map_set:
  "length (map_set k v m) = (if map_get m k = None then Suc (length m) else length m)"
  by (induction m) auto

lemma map_get_none_iff: "map_get m k = None \<longleftrightarrow> k \<notin> set (map fst m)"
  by (simp add: map_of_eq_None_iff)

lemma map_del_absent: "map_get m k = None \<Longrightarrow> map_del k m = m"
  by (simp add: delete_id map_get_none_iff)

lemma length_map_del_present:
  assumes "wf_map m" and "map_get m k = Some v"
  shows "Suc (length (map_del k m)) = length m"
proof -
  have "k \<in> set (map fst m)" using assms(2) map_get_none_iff [of m k] by auto
  with assms(1) have "length (map fst (map_del k m)) = length (map fst m) - 1"
    by (simp only: delete_keys length_remove1 flip: distinct_remove1_removeAll) simp
  then show ?thesis using assms(2) by (cases m) auto
qed

lemma length_pos_of_get: "map_get m k = Some v \<Longrightarrow> 0 < length m"
  by (cases m) auto

subsection \<open>Lists\<close>

lemma takeWhile_append_stop:
  assumes "\<forall>x \<in> set xs. P x" and "\<not> P y"
  shows "takeWhile P (xs @ y # ys) = xs" and "dropWhile P (xs @ y # ys) = y # ys"
  using assms by (induction xs) auto

lemma takeWhile_all: "\<forall>x \<in> set xs. P x \<Longrightarrow> takeWhile P xs = xs \<and> dropWhile P xs = []"
  by (induction xs) auto

lemma suffix_drop_iff: "suffix p s \<longleftrightarrow> length p \<le> length s \<and> drop (length s - length p) s = p"
  by (metis append_take_drop_id diff_diff_cancel length_drop suffixE suffixI suffix_length_le
      append_eq_conv_conj length_append add_diff_cancel_right')

end
