(* ===== verification/Go_Strings.thy ===== *)
theory Go_Strings
  imports Chisel_Prelude "HOL-Library.Char_ord"
begin

text \<open>
  The operations of the Go standard library on strings and numbers that the program uses:
  \<^verbatim>\<open>strings.TrimPrefix\<close>, \<^verbatim>\<open>strings.Index\<close>, \<^verbatim>\<open>strings.TrimSpace\<close>, \<^verbatim>\<open>strings.ToLower\<close>,
  \<^verbatim>\<open>strconv.Atoi\<close>, \<^verbatim>\<open>strconv.Itoa\<close>, \<^verbatim>\<open>net.SplitHostPort\<close> and \<^verbatim>\<open>filepath.Dir\<close>.
  Two of its services are fields of the record \<open>golib\<close>, a parameter of the model: the
  Unicode case tables behind \<^verbatim>\<open>strings.ToLower\<close> (they decide only strings with a byte
  above 127) and whether \<^verbatim>\<open>url.Parse\<close> accepts a string.
\<close>

record golib =
  uni_lower :: "string \<Rightarrow> string"
  url_parse_ok :: "string \<Rightarrow> bool"

subsection \<open>Prefixes and positions\<close>

definition trim_prefix :: "string \<Rightarrow> string \<Rightarrow> string" where
  "trim_prefix s p = (if prefix p s then drop (length p) s else s)"

fun index_byte :: "char \<Rightarrow> string \<Rightarrow> nat option" where
  "index_byte c [] = None"
| "index_byte c (x # xs) = (if x = c then Some 0 else map_option Suc (index_byte c xs))"

fun last_index_byte :: "char \<Rightarrow> string \<Rightarrow> nat option" where
  "last_index_byte c [] = None"
| "last_index_byte c (x # xs) =
     (case last_index_byte c xs of
        Some i \<Rightarrow> Some (Suc i)
      | None \<Rightarrow> if x = c then Some 0 else None)"

lemma trim_prefix_append [simp]: "trim_prefix (p @ s) p = s"
  by (simp add: trim_prefix_def)

lemma index_byte_None_iff [go_str]: "index_byte c s = None \<longleftrightarrow> c \<notin> set s"
  by (induction s) auto

lemma index_byte_append [go_str]:
  "c \<notin> set xs \<Longrightarrow> index_byte c (xs @ c # ys) = Some (length xs)"
  by (induction xs) auto

lemma index_byte_SomeD:
  "index_byte c s = Some i \<Longrightarrow> i < length s \<and> s ! i = c \<and> c \<notin> set (take i s)"
proof (induction s arbitrary: i)
  case Nil
  then show ?case by simp
next
  case (Cons x s)
  then show ?case by (cases i) (auto split: if_splits)
qed

lemma last_index_byte_None_iff [go_str]: "last_index_byte c s = None \<longleftrightarrow> c \<notin> set s"
  by (induction s) (auto split: option.splits)

lemma last_index_byte_append [go_str]:
  "c \<notin> set ys \<Longrightarrow> last_index_byte c (xs @ c # ys) = Some (length xs)"
proof (induction xs)
  case Nil
  then show ?case using last_index_byte_None_iff [of c ys] by simp
next
  case (Cons x xs)
  then show ?case by simp
qed

lemma last_index_byte_SomeD:
  "last_index_byte c s = Some i \<Longrightarrow> i < length s \<and> s ! i = c \<and> c \<notin> set (drop (Suc i) s)"
proof (induction s arbitrary: i)
  case Nil
  then show ?case by simp
next
  case (Cons x s)
  then show ?case
    using last_index_byte_None_iff [of c s] by (auto split: option.splits if_splits)
qed

subsection \<open>Case and white space\<close>

definition ascii_byte :: "char \<Rightarrow> bool" where
  "ascii_byte c \<longleftrightarrow> of_char c < (128 :: nat)"

definition lower_byte :: "char \<Rightarrow> char" where
  "lower_byte c =
     (if CHR ''A'' \<le> c \<and> c \<le> CHR ''Z'' then char_of (of_char c + 32 :: nat) else c)"

definition to_lower :: "golib \<Rightarrow> string \<Rightarrow> string" where
  "to_lower lib s = (if list_all ascii_byte s then map lower_byte s else uni_lower lib s)"

text \<open>
  The UTF-8 encodings of the white space of \<^verbatim>\<open>unicode.IsSpace\<close>: the ASCII ones, U+0085,
  U+00A0, U+1680, U+2000 to U+200A, U+2028, U+2029, U+202F, U+205F and U+3000.
\<close>

definition space_runes :: "string list" where
  "space_runes =
     [[CHR 0x09], [CHR 0x0A], [CHR 0x0B], [CHR 0x0C], [CHR 0x0D], [CHR 0x20],
      [CHR 0xC2, CHR 0x85], [CHR 0xC2, CHR 0xA0], [CHR 0xE1, CHR 0x9A, CHR 0x80],
      [CHR 0xE2, CHR 0x80, CHR 0x80], [CHR 0xE2, CHR 0x80, CHR 0x81],
      [CHR 0xE2, CHR 0x80, CHR 0x82], [CHR 0xE2, CHR 0x80, CHR 0x83],
      [CHR 0xE2, CHR 0x80, CHR 0x84], [CHR 0xE2, CHR 0x80, CHR 0x85],
      [CHR 0xE2, CHR 0x80, CHR 0x86], [CHR 0xE2, CHR 0x80, CHR 0x87],
      [CHR 0xE2, CHR 0x80, CHR 0x88], [CHR 0xE2, CHR 0x80, CHR 0x89],
      [CHR 0xE2, CHR 0x80, CHR 0x8A], [CHR 0xE2, CHR 0x80, CHR 0xA8],
      [CHR 0xE2, CHR 0x80, CHR 0xA9], [CHR 0xE2, CHR 0x80, CHR 0xAF],
      [CHR 0xE2, CHR 0x81, CHR 0x9F], [CHR 0xE3, CHR 0x80, CHR 0x80]]"

definition leading_space :: "string \<Rightarrow> string option" where
  "leading_space s = find (\<lambda>w. prefix w s) space_runes"

definition trailing_space :: "string \<Rightarrow> string option" where
  "trailing_space s = find (\<lambda>w. suffix w s) space_runes"

lemma space_runes_not_Nil: "w \<in> set space_runes \<Longrightarrow> w \<noteq> []"
  by (auto simp: space_runes_def)

lemma leading_space_SomeD:
  "leading_space s = Some w \<Longrightarrow> w \<in> set space_runes \<and> w \<noteq> [] \<and> prefix w s"
  by (auto simp: leading_space_def find_Some_iff dest: space_runes_not_Nil nth_mem)

lemma trailing_space_SomeD:
  "trailing_space s = Some w \<Longrightarrow> w \<in> set space_runes \<and> w \<noteq> [] \<and> suffix w s"
  by (auto simp: trailing_space_def find_Some_iff dest: space_runes_not_Nil nth_mem)

lemma leading_space_None_iff: "leading_space s = None \<longleftrightarrow> (\<forall>w \<in> set space_runes. \<not> prefix w s)"
  by (auto simp: leading_space_def find_None_iff)

lemma trailing_space_None_iff: "trailing_space s = None \<longleftrightarrow> (\<forall>w \<in> set space_runes. \<not> suffix w s)"
  by (auto simp: trailing_space_def find_None_iff)

function trim_left :: "string \<Rightarrow> string" where
  "trim_left s = (case leading_space s of None \<Rightarrow> s | Some w \<Rightarrow> trim_left (drop (length w) s))"
  by pat_completeness auto
termination
  by (relation "measure length") (auto dest!: leading_space_SomeD simp: prefix_def)

function trim_right :: "string \<Rightarrow> string" where
  "trim_right s =
     (case trailing_space s of None \<Rightarrow> s | Some w \<Rightarrow> trim_right (take (length s - length w) s))"
  by pat_completeness auto
termination
  by (relation "measure length") (auto dest!: trailing_space_SomeD simp: suffix_def)

declare trim_left.simps [simp del] trim_right.simps [simp del]

definition trim_space :: "string \<Rightarrow> string" where
  "trim_space s = trim_right (trim_left s)"

lemma trim_left_None: "leading_space (trim_left s) = None"
  by (induction s rule: trim_left.induct) (subst trim_left.simps, auto split: option.splits)

lemma trim_right_None: "trailing_space (trim_right s) = None"
  by (induction s rule: trim_right.induct) (subst trim_right.simps, auto split: option.splits)

lemma trim_left_id: "leading_space s = None \<Longrightarrow> trim_left s = s"
  by (subst trim_left.simps) simp

lemma trim_right_id: "trailing_space s = None \<Longrightarrow> trim_right s = s"
  by (subst trim_right.simps) simp

lemma trim_left_suffix: "suffix (trim_left s) s"
proof (induction s rule: trim_left.induct)
  case (1 s)
  then show ?case
    by (subst trim_left.simps)
      (auto split: option.splits intro: suffix_order.trans suffix_drop)
qed

lemma trim_right_prefix: "prefix (trim_right s) s"
proof (induction s rule: trim_right.induct)
  case (1 s)
  then show ?case
    by (subst trim_right.simps)
      (auto split: option.splits intro: prefix_order.trans take_is_prefix)
qed

lemma leading_space_prefix:
  "prefix t s \<Longrightarrow> leading_space s = None \<Longrightarrow> leading_space t = None"
  by (auto simp: leading_space_None_iff dest: prefix_order.trans)

lemma trim_space_clean:
  "leading_space (trim_space s) = None \<and> trailing_space (trim_space s) = None"
  unfolding trim_space_def
  using leading_space_prefix [OF trim_right_prefix trim_left_None] trim_right_None by blast

lemma trim_space_id:
  "leading_space s = None \<Longrightarrow> trailing_space s = None \<Longrightarrow> trim_space s = s"
  by (simp add: trim_space_def trim_left_id trim_right_id)

lemma trim_space_idem [simp]: "trim_space (trim_space s) = trim_space s"
  by (rule trim_space_id) (simp_all add: trim_space_clean)

lemma set_trim_space: "set (trim_space s) \<subseteq> set s"
  unfolding trim_space_def
  using set_mono_prefix [OF trim_right_prefix] set_mono_suffix [OF trim_left_suffix]
  by (rule subset_trans)

subsection \<open>Numbers\<close>

definition digit_value :: "char \<Rightarrow> int option" where
  "digit_value c = (if CHR ''0'' \<le> c \<and> c \<le> CHR ''9'' then Some (int (of_char c) - 48) else None)"

fun digits_value :: "int \<Rightarrow> string \<Rightarrow> int option" where
  "digits_value n [] = Some n"
| "digits_value n (c # cs) =
     (case digit_value c of None \<Rightarrow> None | Some d \<Rightarrow> digits_value (10 * n + d) cs)"

text \<open>
  \<^verbatim>\<open>strconv.Atoi\<close>: an optional sign, at least one decimal digit and nothing else, in the
  range of a 64-bit \<^verbatim>\<open>int\<close>; None is the error.
\<close>

fun split_sign :: "string \<Rightarrow> bool \<times> string" where
  "split_sign [] = (False, [])"
| "split_sign (c # cs) =
     (if c = CHR ''-'' then (True, cs) else if c = CHR ''+'' then (False, cs) else (False, c # cs))"

definition atoi :: "string \<Rightarrow> int option" where
  "atoi s =
     (let (neg, ds) = split_sign s
      in if ds = [] then None
         else case digits_value 0 ds of
             None \<Rightarrow> None
           | Some n \<Rightarrow>
               if neg then (if n \<le> 2 ^ 63 then Some (- n) else None)
               else (if n < 2 ^ 63 then Some n else None))"

text \<open>\<^verbatim>\<open>strconv.Itoa\<close>.\<close>

fun show_nat :: "nat \<Rightarrow> string" where
  "show_nat n =
     (if n < 10 then [char_of (48 + n)] else show_nat (n div 10) @ [char_of (48 + n mod 10)])"

declare show_nat.simps [simp del]

definition itoa :: "int \<Rightarrow> string" where
  "itoa i = (if i < 0 then CHR ''-'' # show_nat (nat (- i)) else show_nat (nat i))"

lemma digit_value_show: "d < 10 \<Longrightarrow> digit_value (char_of (48 + d)) = Some (int d)"
proof -
  assume "d < (10 :: nat)"
  then have "d \<in> {0, 1, 2, 3, 4, 5, 6, 7, 8, 9}" by auto
  then show ?thesis by (auto simp: digit_value_def less_eq_char_def)
qed

lemma digits_value_append:
  "digits_value n (xs @ ys) =
     (case digits_value n xs of None \<Rightarrow> None | Some m \<Rightarrow> digits_value m ys)"
  by (induction xs arbitrary: n) (auto split: option.splits)

lemma digits_value_show: "digits_value 0 (show_nat n) = Some (int n)"
proof (induction n rule: less_induct)
  case (less n)
  have small: "show_nat n = [char_of (48 + n)]" if "n < 10" using that by (simp add: show_nat.simps)
  have large: "show_nat n = show_nat (n div 10) @ [char_of (48 + n mod 10)]" if "\<not> n < 10"
    using that by (subst show_nat.simps) simp
  show ?case
    using less.IH [of "n div 10"]
    by (cases "10 \<le> n") (simp_all add: small large digits_value_append digit_value_show zdiv_int zmod_int)
qed

lemma show_nat_not_Nil: "show_nat n \<noteq> []"
  by (subst show_nat.simps) simp

lemma show_nat_inj: "show_nat m = show_nat n \<Longrightarrow> m = n"
  by (metis digits_value_show option.inject of_nat_eq_iff)

lemma digits_value_chars:
  "digits_value n ds = Some m \<Longrightarrow> c \<in> set ds \<Longrightarrow> CHR ''0'' \<le> c \<and> c \<le> CHR ''9''"
  by (induction ds arbitrary: n) (auto simp: digit_value_def split: option.splits if_splits)

lemma show_nat_digits: "c \<in> set (show_nat n) \<Longrightarrow> CHR ''0'' \<le> c \<and> c \<le> CHR ''9''"
  using digits_value_show digits_value_chars by blast

lemma itoa_inj: "itoa i = itoa j \<Longrightarrow> i = j"
proof -
  have neg: "CHR ''-'' # xs \<noteq> show_nat n" for xs n
  proof
    assume "CHR ''-'' # xs = show_nat n"
    then have "CHR ''-'' \<in> set (show_nat n)" by (metis list.set_intros(1))
    then have "CHR ''0'' \<le> CHR ''-''" using show_nat_digits by blast
    then show False by (simp add: less_eq_char_def)
  qed
  assume eq: "itoa i = itoa j"
  show "i = j"
    using eq neg neg [symmetric]
    by (cases "i < 0"; cases "j < 0") (auto simp: itoa_def dest: show_nat_inj)
qed

lemma digits_value_Cons_chars:
  "digit_value c = Some d \<Longrightarrow> digits_value d cs = Some m \<Longrightarrow> x \<in> set (c # cs) \<Longrightarrow>
    CHR ''0'' \<le> x \<and> x \<le> CHR ''9''"
  by (auto simp: digit_value_def split: if_splits dest: digits_value_chars)

lemma atoi_SomeD: "atoi s = Some n \<Longrightarrow> s \<noteq> [] \<and>
    (\<forall>c \<in> set s. c = CHR ''+'' \<or> c = CHR ''-'' \<or> CHR ''0'' \<le> c \<and> c \<le> CHR ''9'')"
  by (cases s)
    (auto simp: atoi_def Let_def dest: digits_value_chars digits_value_Cons_chars
      split: if_splits option.splits)

subsection \<open>Network addresses\<close>

text \<open>
  \<^verbatim>\<open>net.SplitHostPort\<close>: the host and the port of \<open>host:port\<close> or \<open>[host]:port\<close>; None is its
  error (a missing port, too many colons or a stray bracket).
\<close>

definition split_host_port :: "string \<Rightarrow> (string \<times> string) option" where
  "split_host_port hp =
     (case last_index_byte CHR '':'' hp of
        None \<Rightarrow> None
      | Some i \<Rightarrow>
          if hp ! 0 = CHR ''['' then
            (case index_byte CHR '']'' hp of
               None \<Rightarrow> None
             | Some e \<Rightarrow>
                 if e + 1 \<noteq> i then None
                 else if CHR ''['' \<in> set (drop 1 hp) then None
                 else if CHR '']'' \<in> set (drop (e + 1) hp) then None
                 else Some (take (e - 1) (drop 1 hp), drop (i + 1) hp))
          else if CHR '':'' \<in> set (take i hp) then None
          else if CHR ''['' \<in> set hp then None
          else if CHR '']'' \<in> set hp then None
          else Some (take i hp, drop (i + 1) hp))"

lemma split_host_port_plain [go_str]:
  assumes "set h \<inter> {CHR '':'', CHR ''['', CHR '']''} = {}"
    and "set p \<inter> {CHR '':'', CHR ''['', CHR '']''} = {}"
  shows "split_host_port (h @ CHR '':'' # p) = Some (h, p)"
proof -
  have "(h @ CHR '':'' # p) ! 0 \<noteq> CHR ''[''"
    using assms(1) by (cases h) auto
  then show ?thesis
    using assms by (auto simp: split_host_port_def last_index_byte_append)
qed

lemma split_host_port_bracket [go_str]:
  assumes "set h \<inter> {CHR ''['', CHR '']''} = {}"
    and "set p \<inter> {CHR '':'', CHR ''['', CHR '']''} = {}"
  shows "split_host_port (CHR ''['' # h @ CHR '']'' # CHR '':'' # p) = Some (h, p)"
proof -
  have last: "last_index_byte CHR '':'' (CHR ''['' # h @ CHR '']'' # CHR '':'' # p) = Some (length h + 2)"
    using last_index_byte_append [of "CHR '':''" p "CHR ''['' # h @ [CHR '']'']"] assms(2) by simp
  have first: "index_byte CHR '']'' (CHR ''['' # h @ CHR '']'' # CHR '':'' # p) = Some (length h + 1)"
    using index_byte_append [of "CHR '']''" "CHR ''['' # h" "CHR '':'' # p"] assms(1) by simp
  show ?thesis
    using assms by (auto simp: split_host_port_def last first simp del: last_index_byte.simps index_byte.simps)
qed

lemma split_host_port_SomeD:
  assumes "split_host_port hp = Some (h, p)"
  shows "set h \<inter> {CHR ''['', CHR '']''} = {} \<and> set h \<union> set p \<subseteq> set hp
    \<and> (hp = h @ CHR '':'' # p \<and> CHR '':'' \<notin> set h \<or> hp = CHR ''['' # h @ CHR '']'' # CHR '':'' # p)"
proof -
  from assms obtain i where i: "last_index_byte CHR '':'' hp = Some i"
    by (auto simp: split_host_port_def split: option.splits)
  note iD = last_index_byte_SomeD [OF i]
  from iD have hp: "hp = take i hp @ CHR '':'' # drop (Suc i) hp"
    by (metis id_take_nth_drop)
  show ?thesis
  proof (cases "hp ! 0 = CHR ''[''")
    case False
    with assms i have f: "h = take i hp" "p = drop (Suc i) hp" "CHR '':'' \<notin> set h"
      "CHR ''['' \<notin> set hp" "CHR '']'' \<notin> set hp"
      by (auto simp: split_host_port_def split: if_splits)
    have "hp = h @ CHR '':'' # p" using hp f(1,2) iD by simp
    moreover have "set h \<subseteq> set hp" "set p \<subseteq> set hp"
      unfolding f(1,2) by (rule set_take_subset, rule set_drop_subset)
    ultimately show ?thesis using f(3-5) by blast
  next
    case True
    with assms i obtain e where e: "index_byte CHR '']'' hp = Some e" and ei: "i = Suc e"
      and h: "h = take (e - 1) (drop 1 hp)" and p: "p = drop (Suc i) hp"
      and nb: "CHR ''['' \<notin> set (drop 1 hp)"
      by (auto simp: split_host_port_def split: option.splits if_splits)
    note eD = index_byte_SomeD [OF e]
    have "e \<noteq> 0"
    proof
      assume "e = 0"
      then show False using True eD by simp
    qed
    then obtain k where k: "e = Suc k" by (cases e) auto
    from True iD obtain t where t: "hp = CHR ''['' # t" by (cases hp) auto
    have at: "t ! k = CHR '']''" "t ! Suc k = CHR '':''" "Suc k < length t"
      using eD iD t k ei by auto
    have "drop k t = t ! k # t ! Suc k # drop (Suc (Suc k)) t"
      using at(3) by (simp add: Cons_nth_drop_Suc)
    moreover have "p = drop (Suc (Suc k)) t" using p t ei k by simp
    ultimately have t2: "t = take k t @ CHR '']'' # CHR '':'' # p"
      using at(1,2) append_take_drop_id [of k t] by simp
    have hk: "h = take k t" using h t k by simp
    have "CHR '']'' \<notin> set h" using eD t k hk by simp
    moreover have "CHR ''['' \<notin> set h" using nb t set_take_subset [of k t] unfolding hk by auto
    moreover have whole: "hp = CHR ''['' # h @ CHR '']'' # CHR '':'' # p" using t t2 hk by simp
    moreover have "set h \<union> set p \<subseteq> set hp" unfolding whole by auto
    ultimately show ?thesis by blast
  qed
qed

subsection \<open>File paths\<close>

text \<open>\<^verbatim>\<open>filepath.Clean\<close> and \<^verbatim>\<open>filepath.Dir\<close> with the separator of Unix.\<close>

fun split_byte :: "char \<Rightarrow> string \<Rightarrow> string list" where
  "split_byte c [] = [[]]"
| "split_byte c (x # xs) =
     (if x = c then [] # split_byte c xs
      else case split_byte c xs of [] \<Rightarrow> [[x]] | p # ps \<Rightarrow> (x # p) # ps)"

fun join_byte :: "char \<Rightarrow> string list \<Rightarrow> string" where
  "join_byte c [] = []"
| "join_byte c [p] = p"
| "join_byte c (p # ps) = p @ c # join_byte c ps"

fun clean_parts :: "bool \<Rightarrow> string list \<Rightarrow> string list \<Rightarrow> string list" where
  "clean_parts rooted st [] = rev st"
| "clean_parts rooted st (p # ps) =
     (if p = [] \<or> p = ''.'' then clean_parts rooted st ps
      else if p = ''..'' then
        (case st of
           [] \<Rightarrow> clean_parts rooted (if rooted then [] else [''..'']) ps
         | q # qs \<Rightarrow> clean_parts rooted (if q = ''..'' then ''..'' # st else qs) ps)
      else clean_parts rooted (p # st) ps)"

definition path_clean :: "string \<Rightarrow> string" where
  "path_clean s =
     (if s = [] then ''.''
      else let rooted = (hd s = CHR ''/'');
               body = join_byte CHR ''/'' (clean_parts rooted [] (split_byte CHR ''/'' s))
           in if rooted then CHR ''/'' # body else if body = [] then ''.'' else body)"

definition path_dir :: "string \<Rightarrow> string" where
  "path_dir s =
     (case last_index_byte CHR ''/'' s of
        None \<Rightarrow> path_clean []
      | Some i \<Rightarrow> path_clean (take (i + 1) s))"

lemma path_dir_bare [go_str]: "CHR ''/'' \<notin> set s \<Longrightarrow> path_dir s = ''.''"
  using last_index_byte_None_iff [of "CHR ''/''" s] by (simp add: path_dir_def path_clean_def)

end
