(* ===== verification/Remotes.thy ===== *)
theory Remotes
  imports Go_Strings
begin

text \<open>
  \<^verbatim>\<open>share/settings/remote.go\<close>: the remote, the parser \<^verbatim>\<open>DecodeRemote\<close> of its textual form,
  the printers \<^verbatim>\<open>Encode\<close> and \<^verbatim>\<open>String\<close>, the address checked against a user's access list
  and the check that a remote can be listened on. An error value of the source is a value of
  \<open>remote_error\<close>. The parser's regular expression is a tokenizer (\<open>find_parts\<close>).
\<close>

subsection \<open>The remote\<close>

record remote =
  local_host :: string
  local_port :: string
  local_proto :: string
  remote_host :: string
  remote_port :: string
  remote_proto :: string
  socks :: bool
  reversed :: bool
  stdio :: bool
  uds_mode :: string
  uds_socket_path :: string

definition zero_remote :: remote where
  "zero_remote =
     \<lparr>local_host = '''', local_port = '''', local_proto = '''',
      remote_host = '''', remote_port = '''', remote_proto = '''',
      socks = False, reversed = False, stdio = False,
      uds_mode = '''', uds_socket_path = ''''\<rparr>"

datatype remote_error =
    Invalid_unix_mode | Invalid_remote | Missing_ports | Invalid_host
  | Cross_protocol | Only_tcp_socks | Stdio_reversed
  | Unix_needs_reverse | Invalid_target | Missing_socket_path

definition rev_prefix :: string where "rev_prefix = ''R:''"
definition uds_mode_none :: string where "uds_mode_none = ''''"
definition uds_mode_listen :: string where "uds_mode_listen = ''uds-listen''"
definition uds_mode_pair :: string where "uds_mode_pair = ''uds-pair''"

lemmas remote_consts = rev_prefix_def uds_mode_none_def uds_mode_listen_def uds_mode_pair_def

definition is_uds :: "remote \<Rightarrow> bool" where
  "is_uds r \<longleftrightarrow> uds_mode r = uds_mode_listen \<or> uds_mode r = uds_mode_pair"

subsection \<open>The pieces of the parser\<close>

text \<open>
  The matches of \<^verbatim>\<open>(\[[^\[\]]+\]|[^\[\]:]+):?\<close> in a string, from left to right: a bracketed
  part without inner brackets, or a longest run without brackets and colons, each with the
  colon that may follow it; other bytes are skipped. Each result is the first group.
\<close>

definition part_byte :: "char \<Rightarrow> bool" where
  "part_byte c \<longleftrightarrow> c \<noteq> CHR ''['' \<and> c \<noteq> CHR '']'' \<and> c \<noteq> CHR '':''"

definition bracket_byte :: "char \<Rightarrow> bool" where
  "bracket_byte c \<longleftrightarrow> c \<noteq> CHR ''['' \<and> c \<noteq> CHR '']''"

definition drop_colon :: "string \<Rightarrow> string" where
  "drop_colon s = (case s of [] \<Rightarrow> [] | c # cs \<Rightarrow> if c = CHR '':'' then cs else s)"

lemma length_drop_colon: "length (drop_colon s) \<le> length s"
  by (cases s) (auto simp: drop_colon_def)

function find_parts :: "string \<Rightarrow> string list" where
  "find_parts [] = []"
| "find_parts (c # cs) =
     (if c = CHR ''['' then
        (let body = takeWhile bracket_byte cs; rest = dropWhile bracket_byte cs
         in if body \<noteq> [] \<and> rest \<noteq> [] \<and> hd rest = CHR '']''
            then (CHR ''['' # body @ [CHR '']'']) # find_parts (drop_colon (tl rest))
            else find_parts cs)
      else if part_byte c then
        (c # takeWhile part_byte cs) # find_parts (drop_colon (dropWhile part_byte cs))
      else find_parts cs)"
  by pat_completeness auto
termination
proof (relation "measure length", goal_cases)
  case 1
  show ?case by simp
next
  case (2 c cs body rest)
  have "length (drop_colon (tl rest)) \<le> length rest"
    using length_drop_colon [of "tl rest"] by simp
  also have "\<dots> \<le> length cs" using 2 by (simp add: length_dropWhile_le)
  finally show ?case by simp
next
  case (4 c cs)
  have "length (drop_colon (dropWhile part_byte cs)) \<le> length cs"
    using length_drop_colon length_dropWhile_le order_trans by blast
  then show ?case by simp
qed auto

definition l4_protos :: "string list" where
  "l4_protos = [''tcp'', ''udp'']"

definition l4_match :: "string \<Rightarrow> bool" where
  "l4_match s \<longleftrightarrow> 4 \<le> length s \<and> s ! (length s - 4) = CHR ''/''
     \<and> map lower_byte (drop (length s - 3) s) \<in> set l4_protos"

definition l4_proto :: "golib \<Rightarrow> string \<Rightarrow> string \<times> string" where
  "l4_proto lib s =
     (if l4_match s
      then let l = length s in (to_lower lib (take (l - 4) s), drop (l - 3) s)
      else (s, ''''))"

definition is_port :: "string \<Rightarrow> bool" where
  "is_port s =
     (case atoi s of None \<Rightarrow> False | Some n \<Rightarrow> if n \<le> 0 \<or> n > 65535 then False else True)"

definition is_host :: "golib \<Rightarrow> string \<Rightarrow> bool" where
  "is_host lib s = url_parse_ok lib (''//'' @ s)"

subsection \<open>The parser\<close>

text \<open>
  One turn of the loop of \<^verbatim>\<open>DecodeRemote\<close>: part \<open>p\<close> at index \<open>i\<close> of \<open>n\<close> parts, from the
  back to the front. A part sets the protocol it carries, then a port or a host; the remote
  side is filled first.
\<close>

definition note_proto :: "string \<Rightarrow> remote \<Rightarrow> remote" where
  "note_proto proto r =
     (if proto \<noteq> [] then
        if remote_port r = [] then r\<lparr>remote_proto := proto\<rparr>
        else if local_proto r = [] then r\<lparr>local_proto := proto\<rparr>
        else r
      else r)"

definition note_port :: "string \<Rightarrow> remote \<Rightarrow> remote" where
  "note_port p r =
     (let r = (if \<not> socks r \<and> remote_port r = [] then r\<lparr>remote_port := p\<rparr> else r)
      in r\<lparr>local_port := p\<rparr>)"

definition note_host :: "string \<Rightarrow> remote \<Rightarrow> remote" where
  "note_host p r =
     (if \<not> socks r \<and> remote_host r = [] then r\<lparr>remote_host := p\<rparr> else r\<lparr>local_host := p\<rparr>)"

definition scan_part :: "golib \<Rightarrow> nat \<Rightarrow> nat \<Rightarrow> string \<Rightarrow> remote \<Rightarrow> remote_error + remote" where
  "scan_part lib n i p r =
     (if i = n - 1 \<and> p = ''socks'' then Inr (r\<lparr>socks := True\<rparr>)
      else if i = 0 \<and> p = ''stdio'' then Inr (r\<lparr>stdio := True\<rparr>)
      else
        (let (p, proto) = l4_proto lib p;
             r = note_proto proto r
         in if is_port p then Inr (note_port p r)
            else if \<not> socks r \<and> (remote_port r = [] \<and> local_port r = []) then Inl Missing_ports
            else if \<not> is_host lib p then Inl Invalid_host
            else Inr (note_host p r)))"

text \<open>The loop \<^verbatim>\<open>for i := len(parts) - 1; i >= 0; i--\<close>: \<open>Suc i\<close> parts are left.\<close>

fun scan_parts :: "golib \<Rightarrow> string list \<Rightarrow> nat \<Rightarrow> remote \<Rightarrow> remote_error + remote" where
  "scan_parts lib ps 0 r = Inr r"
| "scan_parts lib ps (Suc i) r =
     (case scan_part lib (length ps) i (ps ! i) r of
        Inl e \<Rightarrow> Inl e
      | Inr r' \<Rightarrow> scan_parts lib ps i r')"

definition default_str :: "string \<Rightarrow> string \<Rightarrow> string" where
  "default_str d s = (if s = [] then d else s)"

definition apply_defaults :: "remote \<Rightarrow> remote" where
  "apply_defaults r =
     (let r = (if socks r
               then r\<lparr>local_host := default_str ''127.0.0.1'' (local_host r),
                      local_port := default_str ''1080'' (local_port r)\<rparr>
               else r\<lparr>local_host := default_str ''0.0.0.0'' (local_host r),
                      remote_host := default_str ''127.0.0.1'' (remote_host r)\<rparr>);
          r = r\<lparr>remote_proto := default_str ''tcp'' (remote_proto r)\<rparr>
      in r\<lparr>local_proto := default_str (remote_proto r) (local_proto r)\<rparr>)"

definition check_remote :: "remote \<Rightarrow> remote_error + remote" where
  "check_remote r =
     (if local_proto r \<noteq> remote_proto r then Inl Cross_protocol
      else if socks r \<and> remote_proto r \<noteq> ''tcp'' then Inl Only_tcp_socks
      else if stdio r \<and> reversed r then Inl Stdio_reversed
      else Inr r)"

definition decode_plain_remote :: "golib \<Rightarrow> string \<Rightarrow> bool \<Rightarrow> remote_error + remote" where
  "decode_plain_remote lib s rv =
     (let parts = find_parts s
      in if length parts \<le> 0 \<or> length parts \<ge> 5 then Inl Invalid_remote
         else case scan_parts lib parts (length parts) (zero_remote\<lparr>reversed := rv\<rparr>) of
             Inl e \<Rightarrow> Inl e
           | Inr r \<Rightarrow> check_remote (apply_defaults r))"

definition uds_target_host :: "string \<Rightarrow> string" where
  "uds_target_host host =
     (if CHR '':'' \<in> set host \<and> \<not> prefix ''['' host then ''['' @ host @ '']'' else host)"

definition decode_uds_remote :: "golib \<Rightarrow> string \<Rightarrow> bool \<Rightarrow> remote_error + remote" where
  "decode_uds_remote lib s rv =
     (if \<not> rv then Inl Unix_needs_reverse
      else
        (let mode = (if prefix (uds_mode_listen @ '':'') s then uds_mode_listen
                     else if prefix (uds_mode_pair @ '':'') s then uds_mode_pair
                     else uds_mode_none)
         in if mode \<noteq> uds_mode_listen \<and> mode \<noteq> uds_mode_pair then Inl Invalid_unix_mode
            else
              (let rest = trim_prefix s (mode @ '':'')
               in case index_byte CHR '':'' rest of
                    None \<Rightarrow> Inl Invalid_remote
                  | Some sep \<Rightarrow>
                      if sep = 0 \<or> sep \<ge> length rest - 1 then Inl Invalid_remote
                      else
                        (let socket_path = trim_space (take sep rest);
                             target = trim_space (drop (sep + 1) rest)
                         in case split_host_port target of
                              None \<Rightarrow> Inl Invalid_target
                            | Some (h, port) \<Rightarrow>
                                (let host = uds_target_host h
                                 in if socket_path = [] then Inl Missing_socket_path
                                    else if host = [] \<or> \<not> is_host lib host then Inl Invalid_host
                                    else if \<not> is_port port then Inl Missing_ports
                                    else Inr (zero_remote
                                      \<lparr>reversed := True, uds_mode := mode,
                                       uds_socket_path := socket_path, local_proto := ''unix'',
                                       remote_host := host, remote_port := port,
                                       remote_proto := ''tcp''\<rparr>))))))"

definition decode_remote :: "golib \<Rightarrow> string \<Rightarrow> remote_error + remote" where
  "decode_remote lib s0 =
     (let rv = prefix rev_prefix s0;
          s = (if rv then trim_prefix s0 rev_prefix else s0)
      in if prefix (uds_mode_listen @ '':'') s \<or> prefix (uds_mode_pair @ '':'') s
         then decode_uds_remote lib s rv
         else if rv \<and> prefix ''uds-'' s then Inl Invalid_unix_mode
         else decode_plain_remote lib s rv)"

subsection \<open>The printers\<close>

definition local_addr :: "remote \<Rightarrow> string" where
  "local_addr r =
     (if is_uds r then uds_socket_path r
      else if stdio r then ''stdio''
      else default_str ''0.0.0.0'' (local_host r) @ '':'' @ local_port r)"

definition remote_addr :: "remote \<Rightarrow> string" where
  "remote_addr r =
     (if socks r then ''socks''
      else default_str ''127.0.0.1'' (remote_host r) @ '':'' @ remote_port r)"

definition remote_string :: "remote \<Rightarrow> string" where
  "remote_string r =
     (if is_uds r
      then rev_prefix @ uds_mode r @ '':'' @ uds_socket_path r @ ''=>''
             @ trim_prefix (remote_addr r) ''127.0.0.1:''
      else (if reversed r then rev_prefix else [])
             @ trim_prefix (local_addr r) ''0.0.0.0:'' @ ''=>''
             @ trim_prefix (remote_addr r) ''127.0.0.1:''
             @ (if remote_proto r = ''udp'' then ''/udp'' else []))"

definition encode_remote :: "remote \<Rightarrow> string" where
  "encode_remote r =
     (if is_uds r
      then rev_prefix @ uds_mode r @ '':'' @ uds_socket_path r @ '':'' @ remote_addr r
      else
        (let r = r\<lparr>local_port := default_str (remote_port r) (local_port r)\<rparr>;
             local = local_addr r;
             remote = remote_addr r @ (if remote_proto r = ''udp'' then ''/udp'' else [])
         in if reversed r then ''R:'' @ local @ '':'' @ remote else local @ '':'' @ remote))"

definition user_addr :: "remote \<Rightarrow> string" where
  "user_addr r =
     (if is_uds r then ''R:'' @ uds_mode r @ '':'' @ uds_socket_path r
      else if reversed r then ''R:'' @ local_host r @ '':'' @ local_port r
      else remote_host r @ '':'' @ remote_port r)"

subsection \<open>What the parser accepts\<close>

definition proto_ok :: "string \<Rightarrow> bool" where
  "proto_ok p \<longleftrightarrow> p = [] \<or> map lower_byte p \<in> set l4_protos"

text \<open>What every turn of the parser's loop keeps.\<close>

definition scan_ok :: "remote \<Rightarrow> bool" where
  "scan_ok r \<longleftrightarrow>
     (remote_port r = [] \<or> is_port (remote_port r)) \<and>
     (local_port r = [] \<or> is_port (local_port r)) \<and>
     (socks r \<or> (remote_port r = [] \<longleftrightarrow> local_port r = [])) \<and>
     proto_ok (remote_proto r) \<and> proto_ok (local_proto r) \<and>
     uds_mode r = [] \<and> uds_socket_path r = []"

lemma is_port_not_Nil: "is_port p \<Longrightarrow> p \<noteq> []"
  by (auto simp: is_port_def split: option.splits dest: atoi_SomeD)

lemma l4_proto_ok: "l4_proto lib p = (h, q) \<Longrightarrow> proto_ok q"
  by (auto simp: l4_proto_def l4_match_def proto_ok_def Let_def split: if_splits)

lemma note_proto_simps [simp]:
  "remote_port (note_proto q r) = remote_port r" "local_port (note_proto q r) = local_port r"
  "remote_host (note_proto q r) = remote_host r" "local_host (note_proto q r) = local_host r"
  "socks (note_proto q r) = socks r" "stdio (note_proto q r) = stdio r"
  "reversed (note_proto q r) = reversed r" "uds_mode (note_proto q r) = uds_mode r"
  "uds_socket_path (note_proto q r) = uds_socket_path r" "note_proto [] r = r"
  by (simp_all add: note_proto_def)

lemma note_host_simps [simp]:
  "remote_port (note_host p r) = remote_port r" "local_port (note_host p r) = local_port r"
  "remote_proto (note_host p r) = remote_proto r" "local_proto (note_host p r) = local_proto r"
  "socks (note_host p r) = socks r" "stdio (note_host p r) = stdio r"
  "reversed (note_host p r) = reversed r" "uds_mode (note_host p r) = uds_mode r"
  "uds_socket_path (note_host p r) = uds_socket_path r"
  by (simp_all add: note_host_def)

lemma note_port_simps [simp]:
  "local_port (note_port p r) = p"
  "remote_port (note_port p r) = (if \<not> socks r \<and> remote_port r = [] then p else remote_port r)"
  "remote_host (note_port p r) = remote_host r" "local_host (note_port p r) = local_host r"
  "remote_proto (note_port p r) = remote_proto r" "local_proto (note_port p r) = local_proto r"
  "socks (note_port p r) = socks r" "stdio (note_port p r) = stdio r"
  "reversed (note_port p r) = reversed r" "uds_mode (note_port p r) = uds_mode r"
  "uds_socket_path (note_port p r) = uds_socket_path r"
  by (simp_all add: note_port_def)

lemma scan_partE:
  assumes "scan_part lib n i p r = Inr r'"
  obtains (is_socks) "i = n - 1" "r' = r\<lparr>socks := True\<rparr>"
  | (is_stdio) "i = 0" "r' = r\<lparr>stdio := True\<rparr>"
  | (port) h q where "proto_ok q" "is_port h" "r' = note_port h (note_proto q r)"
  | (host) h q where "proto_ok q" "is_host lib h" "r' = note_host h (note_proto q r)"
      "socks r \<or> remote_port r \<noteq> [] \<or> local_port r \<noteq> []"
proof -
  obtain h q where hq: "l4_proto lib p = (h, q)" by fastforce
  note q = l4_proto_ok [OF hq]
  show thesis
    using assms that q by (simp add: scan_part_def hq Let_def split: if_splits)
qed

lemma note_proto_ok:
  "proto_ok q \<Longrightarrow> scan_ok r \<Longrightarrow> scan_ok (note_proto q r)"
  by (simp add: scan_ok_def) (simp add: note_proto_def)

lemma scan_part_ok:
  assumes "scan_part lib n i p r = Inr r'" and "scan_ok r"
  shows "scan_ok r' \<and> reversed r' = reversed r"
  using assms(1)
proof (cases rule: scan_partE)
  case (port h q)
  with note_proto_ok [OF port(1) assms(2)] show ?thesis
    by (auto simp: scan_ok_def is_port_not_Nil)
next
  case (host h q)
  with note_proto_ok [OF host(1) assms(2)] show ?thesis by (simp add: scan_ok_def)
qed (use assms(2) in \<open>auto simp: scan_ok_def\<close>)

lemma scan_parts_ok:
  "scan_parts lib ps k r = Inr r' \<Longrightarrow> scan_ok r \<Longrightarrow> scan_ok r' \<and> reversed r' = reversed r"
proof (induction k arbitrary: r)
  case 0
  then show ?case by simp
next
  case (Suc k)
  then show ?case by (auto split: sum.splits dest: scan_part_ok)
qed

text \<open>Ports, once set, and the flags stay.\<close>

lemma scan_part_mono:
  assumes "scan_part lib n i p r = Inr r'"
  shows "(remote_port r \<noteq> [] \<longrightarrow> remote_port r' = remote_port r) \<and> (socks r \<longrightarrow> socks r')
    \<and> (stdio r \<longrightarrow> stdio r')"
  using assms by (cases rule: scan_partE) auto

lemma scan_parts_mono:
  "scan_parts lib ps k r = Inr r' \<Longrightarrow> (remote_port r \<noteq> [] \<longrightarrow> remote_port r' = remote_port r)
    \<and> (socks r \<longrightarrow> socks r') \<and> (stdio r \<longrightarrow> stdio r')"
proof (induction k arbitrary: r)
  case 0
  then show ?case by simp
next
  case (Suc k)
  from Suc.prems obtain r1 where r1: "scan_part lib (length ps) k (ps ! k) r = Inr r1"
    and rest: "scan_parts lib ps k r1 = Inr r'" by (auto split: sum.splits)
  show ?case using Suc.IH [OF rest] scan_part_mono [OF r1] by auto
qed

text \<open>The last part is the word socks, a lone stdio, or the remote port.\<close>

lemma scan_part_last:
  assumes "scan_part lib n (n - 1) p r = Inr r'" and "remote_port r = []" and "local_port r = []"
  shows "socks r' \<or> stdio r' \<and> n - 1 = 0 \<or> remote_port r' \<noteq> [] \<or> socks r"
  using assms(1) by (cases rule: scan_partE) (use assms(2,3) in \<open>auto dest: is_port_not_Nil\<close>)

lemma scan_parts_SucE:
  assumes "scan_parts lib ps (Suc i) r = Inr r'"
  obtains r1 where "scan_part lib (length ps) i (ps ! i) r = Inr r1"
    and "scan_parts lib ps i r1 = Inr r'"
  using assms by (cases "scan_part lib (length ps) i (ps ! i) r") simp_all

lemma scan_parts_last:
  assumes "scan_parts lib ps (length ps) r = Inr r'" and "ps \<noteq> []"
    and "remote_port r = []" and "local_port r = []" and "\<not> socks r"
  shows "socks r' \<or> stdio r' \<and> length ps = 1 \<or> remote_port r' \<noteq> []"
proof -
  obtain n where n: "length ps = Suc n" using assms(2) by (cases ps) auto
  have "scan_parts lib ps (Suc n) r = Inr r'" using assms(1) unfolding n .
  then obtain r1 where r1: "scan_part lib (length ps) n (ps ! n) r = Inr r1"
    and rest: "scan_parts lib ps n r1 = Inr r'" by (rule scan_parts_SucE)
  have "n = length ps - 1" using n by simp
  with scan_part_last r1 assms(3-5)
  have "socks r1 \<or> stdio r1 \<and> length ps - 1 = 0 \<or> remote_port r1 \<noteq> []" by blast
  then show ?thesis using scan_parts_mono [OF rest] n by auto
qed

text \<open>The remotes that \<^verbatim>\<open>DecodeRemote\<close> can return.\<close>

definition target_host_ok :: "string \<Rightarrow> bool" where
  "target_host_ok h \<longleftrightarrow>
     (if prefix ''['' h
      then h = ''['' @ butlast (tl h) @ '']'' \<and> CHR '':'' \<in> set (butlast (tl h))
        \<and> list_all bracket_byte (butlast (tl h))
      else h \<noteq> [] \<and> list_all part_byte h)"

definition uds_remote_ok :: "golib \<Rightarrow> remote \<Rightarrow> bool" where
  "uds_remote_ok lib r \<longleftrightarrow>
     is_uds r \<and> reversed r \<and> \<not> socks r \<and> \<not> stdio r \<and>
     local_proto r = ''unix'' \<and> remote_proto r = ''tcp'' \<and>
     local_host r = [] \<and> local_port r = [] \<and>
     uds_socket_path r \<noteq> [] \<and> CHR '':'' \<notin> set (uds_socket_path r) \<and>
     trim_space (uds_socket_path r) = uds_socket_path r \<and>
     is_host lib (remote_host r) \<and> is_port (remote_port r) \<and>
     target_host_ok (remote_host r)"

definition plain_remote_ok :: "remote \<Rightarrow> bool" where
  "plain_remote_ok r \<longleftrightarrow>
     \<not> is_uds r \<and> local_proto r = remote_proto r \<and>
     map lower_byte (remote_proto r) \<in> set l4_protos \<and>
     \<not> (stdio r \<and> reversed r) \<and>
     (if socks r then remote_proto r = ''tcp'' \<and> is_port (local_port r)
      else is_port (remote_port r) \<and> is_port (local_port r)
        \<or> stdio r \<and> remote_port r = [] \<and> local_port r = [])"

lemma uds_target_host_Nil [simp]: "uds_target_host h = [] \<longleftrightarrow> h = []"
  by (auto simp: uds_target_host_def)

lemma target_host_okI:
  assumes "h \<noteq> []" and "set h \<inter> {CHR ''['', CHR '']''} = {}"
  shows "target_host_ok (uds_target_host h)"
proof -
  have "\<not> prefix ''['' h" using assms(2) by (auto simp: prefix_def)
  then show ?thesis
    using assms by (auto simp: target_host_ok_def uds_target_host_def list_all_iff
        bracket_byte_def part_byte_def butlast_append)
qed

lemma target_host_okE:
  assumes "target_host_ok h"
  obtains (bare) "h \<noteq> []" "set h \<inter> {CHR '':'', CHR ''['', CHR '']''} = {}"
  | (bracket) b where "h = CHR ''['' # b @ '']''" "CHR '':'' \<in> set b" "set b \<inter> {CHR ''['', CHR '']''} = {}"
  using assms
  by (fastforce simp: target_host_ok_def list_all_iff bracket_byte_def part_byte_def split: if_splits)

lemma decode_uds_ok:
  assumes "decode_uds_remote lib s rv = Inr r"
  shows "uds_remote_ok lib r"
proof -
  let ?mode = "if prefix (uds_mode_listen @ '':'') s then uds_mode_listen
    else if prefix (uds_mode_pair @ '':'') s then uds_mode_pair else uds_mode_none"
  let ?rest = "trim_prefix s (?mode @ '':'')"
  from assms obtain sep h port where sep: "index_byte CHR '':'' ?rest = Some sep"
    and split: "split_host_port (trim_space (drop (sep + 1) ?rest)) = Some (h, port)"
    and mode: "?mode = uds_mode_listen \<or> ?mode = uds_mode_pair"
    and path: "trim_space (take sep ?rest) \<noteq> []"
    and host: "uds_target_host h \<noteq> []" "is_host lib (uds_target_host h)" "is_port port"
    and r: "r = zero_remote\<lparr>reversed := True, uds_mode := ?mode,
       uds_socket_path := trim_space (take sep ?rest), local_proto := ''unix'',
       remote_host := uds_target_host h, remote_port := port, remote_proto := ''tcp''\<rparr>"
    unfolding decode_uds_remote_def Let_def
    by (auto split: if_splits option.splits prod.splits)
  have "CHR '':'' \<notin> set (trim_space (take sep ?rest))"
    using index_byte_SomeD [OF sep] set_trim_space by blast
  then show ?thesis
    using path host mode split_host_port_SomeD [OF split]
    by (auto simp: uds_remote_ok_def r is_uds_def zero_remote_def intro!: target_host_okI)
qed

lemma apply_defaults_simps [simp]:
  "remote_proto (apply_defaults r) = default_str ''tcp'' (remote_proto r)"
  "local_proto (apply_defaults r) = default_str (default_str ''tcp'' (remote_proto r)) (local_proto r)"
  "socks (apply_defaults r) = socks r" "stdio (apply_defaults r) = stdio r"
  "reversed (apply_defaults r) = reversed r" "uds_mode (apply_defaults r) = uds_mode r"
  "uds_socket_path (apply_defaults r) = uds_socket_path r"
  "remote_port (apply_defaults r) = remote_port r"
  "local_port (apply_defaults r) =
     (if socks r then default_str ''1080'' (local_port r) else local_port r)"
  "local_host (apply_defaults r) =
     default_str (if socks r then ''127.0.0.1'' else ''0.0.0.0'') (local_host r)"
  "remote_host (apply_defaults r) =
     (if socks r then remote_host r else default_str ''127.0.0.1'' (remote_host r))"
  by (simp_all add: apply_defaults_def Let_def)

lemma is_port_1080: "is_port ''1080''"
  by code_simp

lemma decode_plain_ok:
  assumes "decode_plain_remote lib s rv = Inr r"
  shows "plain_remote_ok r"
proof -
  let ?ps = "find_parts s" and ?z = "zero_remote\<lparr>reversed := rv\<rparr>"
  from assms obtain r0 where scan: "scan_parts lib ?ps (length ?ps) ?z = Inr r0"
    and ps: "?ps \<noteq> []" and check: "check_remote (apply_defaults r0) = Inr r"
    by (auto simp: decode_plain_remote_def Let_def split: if_splits sum.splits)
  have z: "scan_ok ?z" "remote_port ?z = []" "local_port ?z = []" "\<not> socks ?z"
    by (simp_all add: scan_ok_def zero_remote_def proto_ok_def)
  have ok: "scan_ok r0" using scan_parts_ok [OF scan z(1)] by blast
  have last: "socks r0 \<or> stdio r0 \<or> remote_port r0 \<noteq> []"
    using scan_parts_last [OF scan ps z(2-4)] by blast
  have r: "r = apply_defaults r0" using check by (auto simp: check_remote_def split: if_splits)
  have tcp: "map lower_byte ''tcp'' \<in> set l4_protos" by code_simp
  show ?thesis
    using ok last check tcp is_port_1080 unfolding r
    by (auto simp: plain_remote_ok_def scan_ok_def is_uds_def remote_consts check_remote_def
        default_str_def proto_ok_def split: if_splits)
qed

lemma decode_remote_cases:
  assumes "decode_remote lib s = Inr r"
  shows "uds_remote_ok lib r \<or> plain_remote_ok r"
  using assms by (auto simp: decode_remote_def Let_def split: if_splits
      dest: decode_uds_ok decode_plain_ok)

lemma decode_uds_remote_ok: "decode_remote lib s = Inr r \<Longrightarrow> is_uds r \<Longrightarrow> uds_remote_ok lib r"
  using decode_remote_cases by (auto simp: plain_remote_ok_def)

lemma decode_plain_remote_ok: "decode_remote lib s = Inr r \<Longrightarrow> \<not> is_uds r \<Longrightarrow> plain_remote_ok r"
  using decode_remote_cases by (auto simp: uds_remote_ok_def)

text \<open>
  C12. What \<^verbatim>\<open>DecodeRemote\<close> accepts is well formed. A Unix socket remote is reversed, is
  neither socks nor stdio, carries a non-empty path without a colon and without outer white
  space, and a valid target. Any other remote has the same protocol on both sides, tcp or udp
  in some letter case; it is not stdio and reversed at once; a socks remote is tcp and has a
  local port in 1 to 65535; one that is not socks has both ports in that range, except that a
  lone stdio part gives one without ports.
\<close>

theorem decode_remote_sound:
  assumes "decode_remote lib s = Inr r"
  shows "if is_uds r then uds_remote_ok lib r else plain_remote_ok r"
  using decode_uds_remote_ok [OF assms] decode_plain_remote_ok [OF assms] by simp

theorem decode_remote_sound_witness:
  "let lib = \<lparr>uni_lower = id, url_parse_ok = \<lambda>_. True\<rparr>;
       r = zero_remote\<lparr>local_host := ''0.0.0.0'', local_port := ''3000'', local_proto := ''tcp'',
         remote_host := ''google.com'', remote_port := ''80'', remote_proto := ''tcp''\<rparr>
   in decode_remote lib ''3000:google.com:80'' = Inr r \<and> plain_remote_ok r"
proof -
  let ?lib = "\<lparr>uni_lower = id, url_parse_ok = \<lambda>_. True\<rparr>"
  let ?r = "zero_remote\<lparr>local_host := ''0.0.0.0'', local_port := ''3000'', local_proto := ''tcp'',
         remote_host := ''google.com'', remote_port := ''80'', remote_proto := ''tcp''\<rparr>"
  have "decode_remote ?lib ''3000:google.com:80'' = Inr ?r" by code_simp
  moreover have "\<not> is_uds ?r" by code_simp
  ultimately show ?thesis using decode_remote_sound [of ?lib "''3000:google.com:80''" ?r] by simp
qed

text \<open>A socks part is the last one, so it meets an empty remote side and keeps it empty.\<close>

lemma scan_parts_socks:
  "scan_parts lib ps k r = Inr r' \<Longrightarrow> k < length ps \<Longrightarrow>
     socks r' = socks r \<and> (socks r \<longrightarrow> remote_host r' = remote_host r \<and> remote_port r' = remote_port r)"
proof (induction k arbitrary: r)
  case 0
  then show ?case by simp
next
  case (Suc k)
  from Suc.prems(1) obtain r1 where r1: "scan_part lib (length ps) k (ps ! k) r = Inr r1"
    and rest: "scan_parts lib ps k r1 = Inr r'" by (rule scan_parts_SucE)
  have "k \<noteq> length ps - 1" using Suc.prems(2) by simp
  with r1 have "socks r1 = socks r \<and> (socks r \<longrightarrow> remote_host r1 = remote_host r \<and> remote_port r1 = remote_port r)"
    by (cases rule: scan_partE) (auto simp: note_host_def)
  with Suc.IH [OF rest] Suc.prems(2) show ?case by simp
qed

lemma scan_parts_socks_empty:
  assumes "scan_parts lib ps (length ps) r = Inr r'" and "ps \<noteq> []"
    and "remote_host r = []" and "remote_port r = []" and "\<not> socks r" and "socks r'"
  shows "remote_host r' = [] \<and> remote_port r' = []"
proof -
  obtain n where n: "length ps = Suc n" using assms(2) by (cases ps) auto
  have "scan_parts lib ps (Suc n) r = Inr r'" using assms(1) unfolding n .
  then obtain r1 where r1: "scan_part lib (length ps) n (ps ! n) r = Inr r1"
    and rest: "scan_parts lib ps n r1 = Inr r'" by (rule scan_parts_SucE)
  note keep = scan_parts_socks [OF rest]
  with assms(6) n have "socks r1" by simp
  with r1 assms(3-5) have "remote_host r1 = [] \<and> remote_port r1 = []"
    by (cases rule: scan_partE) (auto simp: note_host_def note_proto_def)
  with keep \<open>socks r1\<close> n show ?thesis by simp
qed

lemma decode_plain_hosts:
  assumes "decode_plain_remote lib s rv = Inr r"
  shows "local_host r \<noteq> []" and "if socks r then remote_host r = [] \<and> remote_port r = [] else remote_host r \<noteq> []"
proof -
  let ?ps = "find_parts s" and ?z = "zero_remote\<lparr>reversed := rv\<rparr>"
  from assms obtain r0 where scan: "scan_parts lib ?ps (length ?ps) ?z = Inr r0"
    and ps: "?ps \<noteq> []" and check: "check_remote (apply_defaults r0) = Inr r"
    by (auto simp: decode_plain_remote_def Let_def split: if_splits sum.splits)
  have r: "r = apply_defaults r0" using check by (auto simp: check_remote_def split: if_splits)
  show "local_host r \<noteq> []" by (simp add: r default_str_def)
  show "if socks r then remote_host r = [] \<and> remote_port r = [] else remote_host r \<noteq> []"
    using scan_parts_socks_empty [OF scan ps] by (simp add: r default_str_def zero_remote_def)
qed

text \<open>
  C4. The address that a user's access list is matched against is the address the remote
  really uses. For a reversed remote that \<^verbatim>\<open>DecodeRemote\<close> returns it is the address the server
  will listen on (for a Unix socket, the mode and the path), and for a forward one that is
  not socks it is the address the server will dial. Every forward socks remote is matched as a
  lone colon.
\<close>

theorem user_addr_is_used:
  assumes "decode_remote lib s = Inr r"
  shows "user_addr r =
     (if is_uds r then ''R:'' @ uds_mode r @ '':'' @ local_addr r
      else if reversed r then ''R:'' @ local_addr r
      else if socks r then '':''
      else remote_addr r)"
proof (cases "is_uds r")
  case True
  then show ?thesis by (simp add: user_addr_def local_addr_def)
next
  case False
  with assms obtain s' rv where plain: "decode_plain_remote lib s' rv = Inr r"
    by (auto simp: decode_remote_def Let_def uds_remote_ok_def split: if_splits dest: decode_uds_ok)
  have "\<not> (stdio r \<and> reversed r)" using decode_plain_remote_ok [OF assms False]
    by (simp add: plain_remote_ok_def)
  with False decode_plain_hosts [OF plain] show ?thesis
    by (auto simp: user_addr_def local_addr_def remote_addr_def default_str_def split: if_splits)
qed

theorem user_addr_is_used_witness:
  "let lib = \<lparr>uni_lower = id, url_parse_ok = \<lambda>_. True\<rparr>
   in case decode_remote lib ''R:8080:example.org:80'' of
        Inl _ \<Rightarrow> False
      | Inr r \<Rightarrow> user_addr r = ''R:'' @ local_addr r \<and> local_addr r = ''0.0.0.0:8080''"
proof -
  let ?lib = "\<lparr>uni_lower = id, url_parse_ok = \<lambda>_. True\<rparr>"
  let ?r = "zero_remote\<lparr>local_host := ''0.0.0.0'', local_port := ''8080'', local_proto := ''tcp'',
     remote_host := ''example.org'', remote_port := ''80'', remote_proto := ''tcp'', reversed := True\<rparr>"
  have d: "decode_remote ?lib ''R:8080:example.org:80'' = Inr ?r" by code_simp
  have "\<not> is_uds ?r" "reversed ?r" "local_addr ?r = ''0.0.0.0:8080''" by code_simp+
  with d user_addr_is_used [OF d] show ?thesis by simp
qed

subsection \<open>Round trip of Unix socket remotes\<close>

lemma port_char:
  assumes "is_port p" and "c \<in> set p"
  shows "c = CHR ''+'' \<or> c = CHR ''-'' \<or> CHR ''0'' \<le> c \<and> c \<le> CHR ''9''"
  using assms by (auto simp: is_port_def split: option.splits dest: atoi_SomeD)

lemma port_chars: "is_port p \<Longrightarrow> set p \<inter> {CHR '':'', CHR ''['', CHR '']'', CHR ''/'', CHR '' ''} = {}"
  using port_char by (fastforce simp: less_eq_char_def)

lemma space_rune_bytes:
  assumes "w \<in> set space_runes"
  shows "w \<noteq> [] \<and> CHR '':'' \<notin> set w \<and> CHR ''['' \<notin> set w
    \<and> \<not> (last w = CHR ''+'' \<or> last w = CHR ''-'' \<or> CHR ''0'' \<le> last w \<and> last w \<le> CHR ''9'')"
proof -
  have "list_all (\<lambda>w. w \<noteq> [] \<and> CHR '':'' \<notin> set w \<and> CHR ''['' \<notin> set w
    \<and> \<not> (last w = CHR ''+'' \<or> last w = CHR ''-'' \<or> CHR ''0'' \<le> last w \<and> last w \<le> CHR ''9''))
    space_runes"
    by code_simp
  with assms show ?thesis by (simp add: list_all_iff)
qed

lemma trailing_space_port:
  assumes "is_port p"
  shows "trailing_space (h @ p) = None"
proof -
  have False if w: "w \<in> set space_runes" "suffix w (h @ p)" for w
  proof -
    have "p \<noteq> []" using assms by (rule is_port_not_Nil)
    moreover have "w \<noteq> []" using space_rune_bytes [OF w(1)] by blast
    moreover obtain zs where "h @ p = zs @ w" using w(2) by (rule suffixE)
    then have "last (h @ p) = last (zs @ w)" by simp
    ultimately have "last w = last p" by simp
    moreover have "last p \<in> set p" using \<open>p \<noteq> []\<close> by simp
    ultimately show False using space_rune_bytes [OF w(1)] port_char [OF assms] by metis
  qed
  then show ?thesis by (auto simp: trailing_space_None_iff)
qed

lemma leading_space_target:
  assumes "leading_space h = None" and "h \<noteq> []"
  shows "leading_space (h @ '':'' @ p) = None"
proof -
  have False if w: "w \<in> set space_runes" "prefix w (h @ '':'' @ p)" for w
  proof -
    from w(2) consider "prefix w h" | "CHR '':'' \<in> set w"
      by (auto simp: prefix_append prefix_Cons)
    then show False
    proof cases
      case 1
      with w(1) assms(1) show False by (simp add: leading_space_None_iff)
    next
      case 2
      with space_rune_bytes [OF w(1)] show False by blast
    qed
  qed
  then show ?thesis by (auto simp: leading_space_None_iff)
qed

lemma split_target:
  assumes "target_host_ok h" and "is_port p"
  shows "\<exists>h0. split_host_port (h @ '':'' @ p) = Some (h0, p) \<and> uds_target_host h0 = h"
  using assms(1)
proof (cases rule: target_host_okE)
  case bare
  then show ?thesis
    using split_host_port_plain [of h p] port_chars [OF assms(2)]
    by (auto simp: uds_target_host_def)
next
  case (bracket b)
  then have "\<not> prefix ''['' b" by (auto simp: prefix_def)
  with bracket show ?thesis
    using split_host_port_bracket [of b p] port_chars [OF assms(2)]
    by (auto simp: uds_target_host_def)
qed

text \<open>A printed Unix socket remote is read back as it was.\<close>

lemma decode_encode_uds:
  assumes ok: "uds_remote_ok lib r" and lead: "leading_space (remote_host r) = None"
  shows "decode_remote lib (encode_remote r) = Inr r"
proof -
  let ?path = "uds_socket_path r" and ?target = "remote_host r @ '':'' @ remote_port r"
  let ?rest = "?path @ '':'' @ ?target"
  have f: "is_uds r" "reversed r" "\<not> socks r" "\<not> stdio r" "local_proto r = ''unix''"
    "remote_proto r = ''tcp''" "local_host r = []" "local_port r = []" "?path \<noteq> []"
    "CHR '':'' \<notin> set ?path" "trim_space ?path = ?path" "is_host lib (remote_host r)"
    "is_port (remote_port r)" "target_host_ok (remote_host r)"
    using ok by (simp_all add: uds_remote_ok_def)
  have host: "remote_host r \<noteq> []" using f(14) by (auto simp: target_host_ok_def)
  have port: "remote_port r \<noteq> []" using f(13) by (rule is_port_not_Nil)
  obtain h0 where h0: "split_host_port ?target = Some (h0, remote_port r)"
    "uds_target_host h0 = remote_host r" using split_target [OF f(14,13)] by blast
  have enc: "encode_remote r = ''R:'' @ uds_mode r @ '':'' @ ?rest"
    using f host by (simp add: encode_remote_def remote_addr_def default_str_def remote_consts)
  have idx: "index_byte CHR '':'' ?rest = Some (length ?path)"
    using index_byte_append [OF f(10)] by simp
  have len: "\<not> length ?rest - 1 \<le> length ?path" "length ?path \<noteq> 0" using host f(9) by auto
  have trim: "trim_space ?target = ?target"
    using leading_space_target [OF lead host] trailing_space_port [OF f(13), of "remote_host r @ '':''"]
    by (intro trim_space_id) simp_all
  have "decode_uds_remote lib (uds_mode r @ '':'' @ ?rest) True = Inr r"
    using f(1) f(2-14) idx len trim h0 host
    by (auto simp: is_uds_def decode_uds_remote_def remote_consts trim_prefix_def zero_remote_def)
  then show ?thesis
    using f(1) unfolding enc by (auto simp: decode_remote_def is_uds_def remote_consts trim_prefix_def)
qed

text \<open>
  Decoding trims the target before it takes the host out of it, so a host that starts with white
  space can only have stood in brackets, which are dropped where it has no colon.
\<close>

lemma split_leading:
  assumes "split_host_port (trim_space t) = Some (h, p)" and "CHR ''['' \<notin> set t"
  shows "leading_space (uds_target_host h) = None"
proof -
  have "CHR ''['' \<notin> set (trim_space t)" using assms(2) set_trim_space by blast
  with split_host_port_SomeD [OF assms(1)]
  have t: "trim_space t = h @ CHR '':'' # p" "CHR '':'' \<notin> set h" by auto
  then have "leading_space h = None"
    using leading_space_prefix [of h "trim_space t"] trim_space_clean [of t] by simp
  with t(2) show ?thesis by (simp add: uds_target_host_def)
qed

lemma leading_space_bracket: "leading_space (CHR ''['' # b) = None"
proof -
  have False if w: "w \<in> set space_runes" "prefix w (CHR ''['' # b)" for w
    using space_rune_bytes [OF w(1)] w(2) by (cases w) auto
  then show ?thesis by (auto simp: leading_space_None_iff)
qed

lemma set_trim_prefix: "set (trim_prefix s p) \<subseteq> set s"
  by (auto simp: trim_prefix_def dest: in_set_dropD)

lemma decode_uds_leading:
  assumes "decode_uds_remote lib s rv = Inr r" and "CHR ''['' \<notin> set s"
  shows "leading_space (remote_host r) = None"
proof -
  let ?mode = "if prefix (uds_mode_listen @ '':'') s then uds_mode_listen
    else if prefix (uds_mode_pair @ '':'') s then uds_mode_pair else uds_mode_none"
  let ?rest = "trim_prefix s (?mode @ '':'')"
  from assms(1) obtain sep h port where "split_host_port (trim_space (drop (sep + 1) ?rest)) = Some (h, port)"
    and r: "remote_host r = uds_target_host h"
    unfolding decode_uds_remote_def Let_def
    by (auto split: if_splits option.splits prod.splits)
  moreover have "set (drop (sep + 1) ?rest) \<subseteq> set s"
    by (rule subset_trans [OF set_drop_subset set_trim_prefix])
  ultimately show ?thesis using split_leading assms(2) by (metis subsetD)
qed

lemma decode_remote_leading:
  assumes "decode_remote lib s = Inr r" and "is_uds r" and "CHR ''['' \<notin> set s"
  shows "leading_space (remote_host r) = None"
proof -
  let ?s = "if prefix rev_prefix s then trim_prefix s rev_prefix else s"
  have "CHR ''['' \<notin> set ?s"
    using assms(3) set_trim_prefix [of s rev_prefix] by auto
  moreover have "decode_uds_remote lib ?s (prefix rev_prefix s) = Inr r"
    using assms(1,2) decode_plain_ok [of lib ?s "prefix rev_prefix s" r]
    by (auto simp: decode_remote_def Let_def plain_remote_ok_def split: if_splits)
  ultimately show ?thesis by (rule decode_uds_leading [rotated])
qed

lemma decode_encode_leading:
  assumes ok: "uds_remote_ok lib r" and again: "decode_remote lib (encode_remote r) = Inr r"
  shows "leading_space (remote_host r) = None"
proof -
  let ?path = "uds_socket_path r" and ?target = "remote_host r @ '':'' @ remote_port r"
  let ?rest = "?path @ '':'' @ ?target"
  have f: "is_uds r" "reversed r" "\<not> socks r" "?path \<noteq> []" "CHR '':'' \<notin> set ?path"
    "is_port (remote_port r)" "target_host_ok (remote_host r)"
    using ok by (simp_all add: uds_remote_ok_def)
  from f(7) show ?thesis
  proof (cases rule: target_host_okE)
    case (bracket b)
    then show ?thesis by (simp add: leading_space_bracket)
  next
    case bare
    have enc: "encode_remote r = ''R:'' @ uds_mode r @ '':'' @ ?rest"
      using f bare(1) by (simp add: encode_remote_def remote_addr_def default_str_def remote_consts)
    have idx: "index_byte CHR '':'' ?rest = Some (length ?path)" using index_byte_append [OF f(5)] by simp
    have len: "\<not> length ?rest - 1 \<le> length ?path" "length ?path \<noteq> 0" using bare(1) f(4) by auto
    have "decode_uds_remote lib (uds_mode r @ '':'' @ ?rest) True = Inr r"
      using f(1) again unfolding enc by (auto simp: decode_remote_def is_uds_def remote_consts trim_prefix_def)
    then have "\<exists>h0 p0. split_host_port (trim_space ?target) = Some (h0, p0) \<and> uds_target_host h0 = remote_host r"
      using f(1) idx len
      by (auto simp: is_uds_def decode_uds_remote_def remote_consts trim_prefix_def Let_def zero_remote_def
          dest!: arg_cong [where f = remote_host] split: option.splits if_splits)
    moreover have "CHR ''['' \<notin> set ?target" using bare(2) port_chars [OF f(6)] by auto
    ultimately show ?thesis using split_leading by fastforce
  qed
qed

text \<open>
  C10. A Unix socket remote that \<^verbatim>\<open>DecodeRemote\<close> returned, printed by \<^verbatim>\<open>Encode\<close>, is read back
  as the same remote, IPv6 targets included, exactly if its target host does not start with white
  space. That is so for every remote written without a bracket. The exception is a host in
  needless brackets: \<^verbatim>\<open>Encode\<close> prints it without them, and the next \<^verbatim>\<open>TrimSpace\<close> of the target cuts
  its white space off. (\<^verbatim>\<open>url.Parse\<close>, a parameter here, refuses a space in a host but
  not the bytes of a white space beyond ASCII such as U+00A0, so the exception is real.)
\<close>

theorem uds_round_trip:
  assumes "decode_remote lib s = Inr r" and "is_uds r"
  shows "(decode_remote lib (encode_remote r) = Inr r \<longleftrightarrow> leading_space (remote_host r) = None)
    \<and> (CHR ''['' \<notin> set s \<longrightarrow> decode_remote lib (encode_remote r) = Inr r)"
  using decode_encode_uds decode_encode_leading decode_uds_remote_ok [OF assms]
    decode_remote_leading [OF assms] by blast

theorem uds_round_trip_witness:
  "let lib = \<lparr>uni_lower = id, url_parse_ok = \<lambda>_. True\<rparr>; nbsp = [CHR 0xC2, CHR 0xA0];
       r = zero_remote\<lparr>reversed := True, uds_mode := ''uds-pair'', uds_socket_path := ''/run/a.sock'',
         local_proto := ''unix'', remote_host := ''[::1]'', remote_port := ''80'', remote_proto := ''tcp''\<rparr>;
       q = r\<lparr>remote_host := nbsp @ ''db''\<rparr>
   in decode_remote lib ''R:uds-pair: /run/a.sock :[::1]:80'' = Inr r
     \<and> decode_remote lib (encode_remote r) = Inr r
     \<and> decode_remote lib (''R:uds-pair:/run/a.sock:['' @ nbsp @ ''db]:80'') = Inr q
     \<and> decode_remote lib (encode_remote q) \<noteq> Inr q"
proof -
  let ?lib = "\<lparr>uni_lower = id, url_parse_ok = \<lambda>_. True\<rparr>" and ?nbsp = "[CHR 0xC2, CHR 0xA0]"
  let ?r = "zero_remote\<lparr>reversed := True, uds_mode := ''uds-pair'', uds_socket_path := ''/run/a.sock'',
         local_proto := ''unix'', remote_host := ''[::1]'', remote_port := ''80'', remote_proto := ''tcp''\<rparr>"
  let ?q = "?r\<lparr>remote_host := ?nbsp @ ''db''\<rparr>"
  have d: "decode_remote ?lib ''R:uds-pair: /run/a.sock :[::1]:80'' = Inr ?r" by code_simp
  have r: "is_uds ?r" "leading_space (remote_host ?r) = None" by code_simp+
  have e: "decode_remote ?lib (''R:uds-pair:/run/a.sock:['' @ ?nbsp @ ''db]:80'') = Inr ?q" by code_simp
  have q: "is_uds ?q" "leading_space (remote_host ?q) = Some ?nbsp" by code_simp+
  have "decode_remote ?lib (encode_remote ?r) = Inr ?r" using uds_round_trip [OF d r(1)] r(2) by simp
  moreover have "decode_remote ?lib (encode_remote ?q) \<noteq> Inr ?q"
    using uds_round_trip [OF e q(1)] unfolding q(2) by simp
  ultimately show ?thesis using d e unfolding Let_def by blast
qed

end
