(* ===== verification/Remote_Roundtrip.thy ===== *)
theory Remote_Roundtrip
  imports Remotes
begin

text \<open>
  Decoding a printed remote gives the remote back: the lemmas on the tokenizer and on one
  turn of the parser's loop, and the round trip of every shape of remote that
  \<^verbatim>\<open>Encode\<close> prints (TCP, UDP, SOCKS, stdio; the Unix socket remotes are in the theory
  of the parser).
\<close>

subsection \<open>Round trip of TCP, UDP, SOCKS and stdio remotes\<close>

definition part_token :: "string \<Rightarrow> bool" where
  "part_token t \<longleftrightarrow>
     (if prefix ''['' t
      then t = ''['' @ butlast (tl t) @ '']'' \<and> butlast (tl t) \<noteq> []
        \<and> list_all bracket_byte (butlast (tl t))
      else t \<noteq> [] \<and> list_all part_byte t)"

definition host_token :: "golib \<Rightarrow> string \<Rightarrow> bool" where
  "host_token lib h \<longleftrightarrow> part_token h \<and> \<not> l4_match h \<and> \<not> is_port h \<and> is_host lib h"

lemma part_tokenE:
  assumes "part_token t"
  obtains (bare) "t \<noteq> []" "list_all part_byte t"
  | (bracket) b where "t = CHR ''['' # b @ '']''" "b \<noteq> []" "list_all bracket_byte b"
  using assms by (fastforce simp: part_token_def split: if_splits)

lemma list_all_takeWhile_stop:
  "list_all P xs \<Longrightarrow> takeWhile P (xs @ ys) = xs @ takeWhile P ys \<and> dropWhile P (xs @ ys) = dropWhile P ys"
  by (induction xs) auto

lemma find_parts_token:
  assumes "part_token t"
  shows "find_parts (t @ '':'' @ rest) = t # find_parts rest" and "find_parts t = [t]"
  using assms
proof (atomize (full), cases rule: part_tokenE)
  case bare
  then obtain c cs where t: "t = c # cs" and c: "part_byte c" and cs: "list_all part_byte cs"
    by (cases t) auto
  have colon: "\<not> part_byte CHR '':''" by (simp add: part_byte_def)
  have "c \<noteq> CHR ''[''" using c by (auto simp: part_byte_def)
  then show "find_parts (t @ '':'' @ rest) = t # find_parts rest \<and> find_parts t = [t]"
    using c cs colon list_all_takeWhile_stop [OF cs, of "CHR '':'' # rest"]
      list_all_takeWhile_stop [OF cs, of "[]"]
    by (simp add: t drop_colon_def) (simp add: dropWhile_eq_Nil_conv [THEN iffD2] list_all_iff)
next
  case (bracket b)
  have stop: "\<not> bracket_byte CHR '']''" by (simp add: bracket_byte_def)
  show "find_parts (t @ '':'' @ rest) = t # find_parts rest \<and> find_parts t = [t]"
    using bracket stop list_all_takeWhile_stop [OF bracket(3), of "CHR '']'' # CHR '':'' # rest"]
      list_all_takeWhile_stop [OF bracket(3), of "CHR '']'' # []"]
    by (simp add: drop_colon_def)
qed

lemma port_token:
  assumes "is_port p"
  shows "part_token p" and "\<not> l4_match p"
    and "l4_proto lib p = (p, [])" and "p \<noteq> ''socks''" and "p \<noteq> ''stdio''"
proof -
  note chars = port_chars [OF assms]
  show "part_token p"
    using chars is_port_not_Nil [OF assms]
    by (auto simp: part_token_def list_all_iff part_byte_def prefix_def)
  show l4: "\<not> l4_match p"
  proof
    assume "l4_match p"
    then have "CHR ''/'' \<in> set p" by (auto simp: l4_match_def intro: nth_mem) (metis diff_less nth_mem zero_less_numeral order_less_le_trans)
    then show False using chars by blast
  qed
  then show "l4_proto lib p = (p, [])" by (simp add: l4_proto_def)
  have "CHR ''o'' \<notin> set p" using port_char [OF assms, of "CHR ''o''"] by (auto simp: less_eq_char_def)
  then show "p \<noteq> ''socks''" and "p \<noteq> ''stdio''" by auto
qed

lemma lower_port: "is_port p \<Longrightarrow> to_lower lib p = p"
proof -
  assume p: "is_port p"
  have "ascii_byte c \<and> lower_byte c = c" if "c \<in> set p" for c
    using port_char [OF p that]
    by (auto simp: ascii_byte_def lower_byte_def less_eq_char_def)
  then show ?thesis by (simp add: to_lower_def list_all_iff map_idI)
qed

lemma udp_port_token:
  assumes "is_port p"
  shows "part_token (p @ ''/udp'')" and "l4_proto lib (p @ ''/udp'') = (p, ''udp'')"
    and "p @ ''/udp'' \<noteq> ''socks''" and "p @ ''/udp'' \<noteq> ''stdio''"
proof -
  show "part_token (p @ ''/udp'')"
    using port_chars [OF assms] is_port_not_Nil [OF assms]
    by (auto simp: part_token_def list_all_iff part_byte_def prefix_def append_eq_Cons_conv)
  have "map lower_byte ''udp'' \<in> set l4_protos" by code_simp
  then have "l4_match (p @ ''/udp'')" by (simp add: l4_match_def)
  then show "l4_proto lib (p @ ''/udp'') = (p, ''udp'')"
    by (simp add: l4_proto_def lower_port [OF assms])
  have "CHR ''/'' \<in> set (p @ ''/udp'')" by simp
  then show "p @ ''/udp'' \<noteq> ''socks''" and "p @ ''/udp'' \<noteq> ''stdio''" by (auto simp: append_eq_Cons_conv)
qed

lemma scan_port [simp]: "is_port p \<Longrightarrow> scan_part lib n i p r = Inr (note_port p r)"
  by (simp add: scan_part_def port_token)

lemma scan_udp_port [simp]:
  "is_port p \<Longrightarrow> scan_part lib n i (p @ ''/udp'') r = Inr (note_port p (note_proto ''udp'' r))"
  by (simp add: scan_part_def udp_port_token Let_def)

lemma scan_host [simp]:
  assumes "host_token lib h" and "socks r \<or> remote_port r \<noteq> []"
    and "i = n - 1 \<longrightarrow> h \<noteq> ''socks''" and "i = 0 \<longrightarrow> h \<noteq> ''stdio''"
  shows "scan_part lib n i h r = Inr (note_host h r)"
  using assms by (auto simp: scan_part_def host_token_def l4_proto_def)

lemma scan_socks [simp]: "scan_part lib (Suc n) n ''socks'' r = Inr (r\<lparr>socks := True\<rparr>)"
  by (simp add: scan_part_def)

lemma scan_stdio [simp]: "scan_part lib (Suc n) 0 ''stdio'' r = Inr (r\<lparr>stdio := True\<rparr>)"
  by (simp add: scan_part_def)

text \<open>The canonical remotes: those whose printed form keeps every field.\<close>

definition canonical_local :: "golib \<Rightarrow> remote \<Rightarrow> bool" where
  "canonical_local lib r \<longleftrightarrow>
     (if stdio r
      then \<not> reversed r
        \<and> local_host r = (if socks r then ''127.0.0.1'' else ''0.0.0.0'')
        \<and> local_port r = (if socks r then ''1080'' else remote_port r)
      else host_token lib (local_host r) \<and> is_port (local_port r)
        \<and> local_host r \<noteq> ''stdio'' \<and> \<not> prefix ''uds-'' (local_host r)
        \<and> (reversed r \<or> local_host r \<noteq> ''R''))"

definition canonical_remote :: "golib \<Rightarrow> remote \<Rightarrow> bool" where
  "canonical_remote lib r \<longleftrightarrow>
     uds_mode r = [] \<and> uds_socket_path r = [] \<and> local_proto r = remote_proto r
     \<and> (if socks r
        then remote_proto r = ''tcp'' \<and> remote_host r = [] \<and> remote_port r = []
        else (remote_proto r = ''tcp'' \<or> remote_proto r = ''udp'')
          \<and> host_token lib (remote_host r) \<and> is_port (remote_port r))
     \<and> canonical_local lib r"

text \<open>The last part of the printed form, with the protocol of a UDP remote.\<close>

definition last_part :: "remote \<Rightarrow> string" where
  "last_part r = remote_port r @ (if remote_proto r = ''udp'' then ''/udp'' else [])"

lemma host_token_not_Nil: "host_token lib h \<Longrightarrow> h \<noteq> []"
  by (auto simp: host_token_def part_token_def)

lemma part_token_words: "part_token ''socks''" "part_token ''stdio''"
  by code_simp+

lemma last_part_token:
  assumes "is_port (remote_port r)"
  shows "part_token (last_part r)"
  using assms port_token(1) udp_port_token(1) by (auto simp: last_part_def)

lemma scan_last_part:
  assumes "is_port (remote_port r)" and "remote_proto r = ''tcp'' \<or> remote_proto r = ''udp''"
  shows "scan_part lib n i (last_part r) r0 =
    Inr (note_port (remote_port r)
      (note_proto (if remote_proto r = ''udp'' then ''udp'' else []) r0))"
  using assms by (auto simp: last_part_def)

lemma remote_eqI:
  fixes r r' :: remote
  assumes "local_host r = local_host r'" "local_port r = local_port r'"
    "local_proto r = local_proto r'" "remote_host r = remote_host r'"
    "remote_port r = remote_port r'" "remote_proto r = remote_proto r'"
    "socks r = socks r'" "reversed r = reversed r'" "stdio r = stdio r'"
    "uds_mode r = uds_mode r'" "uds_socket_path r = uds_socket_path r'"
  shows "r = r'"
  using assms by (cases r; cases r') simp

lemma zero_remote_simps [simp]:
  "local_host zero_remote = []" "local_port zero_remote = []" "local_proto zero_remote = []"
  "remote_host zero_remote = []" "remote_port zero_remote = []" "remote_proto zero_remote = []"
  "\<not> socks zero_remote" "\<not> reversed zero_remote" "\<not> stdio zero_remote"
  "uds_mode zero_remote = []" "uds_socket_path zero_remote = []"
  by (simp_all add: zero_remote_def)

lemma note_fields [simp]:
  "remote_host (note_host p r) =
     (if \<not> socks r \<and> remote_host r = [] then p else remote_host r)"
  "local_host (note_host p r) =
     (if \<not> socks r \<and> remote_host r = [] then local_host r else p)"
  "remote_proto (note_proto q r) =
     (if q \<noteq> [] \<and> remote_port r = [] then q else remote_proto r)"
  "local_proto (note_proto q r) =
     (if q \<noteq> [] \<and> remote_port r \<noteq> [] \<and> local_proto r = [] then q else local_proto r)"
  by (simp_all add: note_host_def note_proto_def)

lemma decode_plain_parts:
  assumes "find_parts s = ps" and "ps \<noteq> []" and "length ps < 5"
    and "scan_parts lib ps (length ps) (zero_remote\<lparr>reversed := rv\<rparr>) = Inr r0"
    and "check_remote (apply_defaults r0) = Inr r"
  shows "decode_plain_remote lib s rv = Inr r"
  using assms by (simp add: decode_plain_remote_def)

lemma decode_plain_canonical:
  assumes c: "canonical_remote lib r" and "\<not> stdio r" and "\<not> socks r"
  shows "decode_plain_remote lib
    (local_host r @ '':'' @ local_port r @ '':'' @ remote_host r @ '':'' @ last_part r)
    (reversed r) = Inr r"
proof (rule decode_plain_parts)
  have f: "host_token lib (local_host r)" "is_port (local_port r)" "host_token lib (remote_host r)"
    "is_port (remote_port r)" "local_host r \<noteq> ''stdio''"
    "remote_proto r = ''tcp'' \<or> remote_proto r = ''udp''" "local_proto r = remote_proto r"
    "uds_mode r = []" "uds_socket_path r = []"
    using assms by (auto simp: canonical_remote_def canonical_local_def)
  have tok: "part_token (local_host r)" "part_token (remote_host r)"
    using f(1,3) by (simp_all add: host_token_def)
  show "find_parts (local_host r @ '':'' @ local_port r @ '':'' @ remote_host r @ '':'' @ last_part r)
    = [local_host r, local_port r, remote_host r, last_part r]"
    by (simp only: find_parts_token(1) tok port_token(1) [OF f(2)]
        find_parts_token(2) [OF last_part_token [OF f(4)]])
  show "[local_host r, local_port r, remote_host r, last_part r] \<noteq> []" by simp
  show "length [local_host r, local_port r, remote_host r, last_part r] < 5" by simp
  let ?r0 = "note_host (local_host r) (note_port (local_port r) (note_host (remote_host r)
    (note_port (remote_port r) (note_proto (if remote_proto r = ''udp'' then ''udp'' else [])
      (zero_remote\<lparr>reversed := reversed r\<rparr>)))))"
  show "scan_parts lib [local_host r, local_port r, remote_host r, last_part r]
    (length [local_host r, local_port r, remote_host r, last_part r])
    (zero_remote\<lparr>reversed := reversed r\<rparr>) = Inr ?r0"
    using f is_port_not_Nil [OF f(4)] by (simp add: scan_last_part)
  have "apply_defaults ?r0 = r"
    using f assms(2,3) host_token_not_Nil [OF f(1)] host_token_not_Nil [OF f(3)]
      is_port_not_Nil [OF f(4)]
    by (intro remote_eqI) (auto simp: default_str_def)
  then show "check_remote (apply_defaults ?r0) = Inr r"
    using f assms(2,3) by (simp add: check_remote_def)
qed

lemma decode_plain_socks:
  assumes c: "canonical_remote lib r" and "\<not> stdio r" and "socks r"
  shows "decode_plain_remote lib (local_host r @ '':'' @ local_port r @ '':'' @ ''socks'')
    (reversed r) = Inr r"
proof (rule decode_plain_parts)
  have f: "host_token lib (local_host r)" "is_port (local_port r)" "local_host r \<noteq> ''stdio''"
    "remote_proto r = ''tcp''" "local_proto r = remote_proto r" "remote_host r = []"
    "remote_port r = []" "uds_mode r = []" "uds_socket_path r = []"
    using assms by (auto simp: canonical_remote_def canonical_local_def)
  have tok: "part_token (local_host r)" using f(1) by (simp add: host_token_def)
  show "find_parts (local_host r @ '':'' @ local_port r @ '':'' @ ''socks'')
    = [local_host r, local_port r, ''socks'']"
    by (simp only: find_parts_token(1) tok port_token(1) [OF f(2)]
        find_parts_token(2) [OF part_token_words(1)])
  show "[local_host r, local_port r, ''socks''] \<noteq> []" by simp
  show "length [local_host r, local_port r, ''socks''] < 5" by simp
  let ?r0 = "note_host (local_host r) (note_port (local_port r)
    (zero_remote\<lparr>reversed := reversed r, socks := True\<rparr>))"
  have last: "scan_part lib 3 2 ''socks'' r1 = Inr (r1\<lparr>socks := True\<rparr>)" for r1
    by (simp add: scan_part_def)
  show "scan_parts lib [local_host r, local_port r, ''socks'']
    (length [local_host r, local_port r, ''socks'']) (zero_remote\<lparr>reversed := reversed r\<rparr>) = Inr ?r0"
    using f last by (simp add: numeral_2_eq_2 numeral_3_eq_3)
  have "apply_defaults ?r0 = r"
    using f assms(2,3) host_token_not_Nil [OF f(1)] is_port_not_Nil [OF f(2)]
    by (intro remote_eqI) (auto simp: default_str_def)
  then show "check_remote (apply_defaults ?r0) = Inr r"
    using f assms(2,3) by (simp add: check_remote_def)
qed

lemma decode_plain_stdio:
  assumes c: "canonical_remote lib r" and "stdio r" and "\<not> socks r"
  shows "decode_plain_remote lib (''stdio'' @ '':'' @ remote_host r @ '':'' @ last_part r)
    (reversed r) = Inr r"
proof (rule decode_plain_parts)
  have f: "host_token lib (remote_host r)" "is_port (remote_port r)"
    "remote_proto r = ''tcp'' \<or> remote_proto r = ''udp''" "local_proto r = remote_proto r"
    "local_host r = ''0.0.0.0''" "local_port r = remote_port r" "\<not> reversed r"
    "uds_mode r = []" "uds_socket_path r = []"
    using assms by (auto simp: canonical_remote_def canonical_local_def)
  have tok: "part_token (remote_host r)" using f(1) by (simp add: host_token_def)
  show "find_parts (''stdio'' @ '':'' @ remote_host r @ '':'' @ last_part r)
    = [''stdio'', remote_host r, last_part r]"
    by (simp only: find_parts_token(1) tok part_token_words(2)
        find_parts_token(2) [OF last_part_token [OF f(2)]])
  show "[''stdio'', remote_host r, last_part r] \<noteq> []" by simp
  show "length [''stdio'', remote_host r, last_part r] < 5" by simp
  let ?r0 = "(note_host (remote_host r) (note_port (remote_port r)
    (note_proto (if remote_proto r = ''udp'' then ''udp'' else [])
      (zero_remote\<lparr>reversed := reversed r\<rparr>))))\<lparr>stdio := True\<rparr>"
  show "scan_parts lib [''stdio'', remote_host r, last_part r]
    (length [''stdio'', remote_host r, last_part r]) (zero_remote\<lparr>reversed := reversed r\<rparr>) = Inr ?r0"
    using f is_port_not_Nil [OF f(2)] by (simp add: scan_last_part)
  have "apply_defaults ?r0 = r"
    using f assms(2,3) host_token_not_Nil [OF f(1)] is_port_not_Nil [OF f(2)]
    by (intro remote_eqI) (auto simp: default_str_def)
  then show "check_remote (apply_defaults ?r0) = Inr r"
    using f assms(2,3) by (simp add: check_remote_def)
qed

lemma decode_plain_stdio_socks:
  assumes c: "canonical_remote lib r" and "stdio r" and "socks r"
  shows "decode_plain_remote lib (''stdio'' @ '':'' @ ''socks'') (reversed r) = Inr r"
proof (rule decode_plain_parts)
  have f: "remote_proto r = ''tcp''" "local_proto r = remote_proto r" "remote_host r = []"
    "remote_port r = []" "local_host r = ''127.0.0.1''" "local_port r = ''1080''" "\<not> reversed r"
    "uds_mode r = []" "uds_socket_path r = []"
    using assms by (auto simp: canonical_remote_def canonical_local_def)
  show "find_parts (''stdio'' @ '':'' @ ''socks'') = [''stdio'', ''socks'']"
    by (simp only: find_parts_token part_token_words)
  show "[''stdio'', ''socks''] \<noteq> []" by simp
  show "length [''stdio'', ''socks''] < 5" by simp
  let ?r0 = "zero_remote\<lparr>reversed := reversed r, socks := True, stdio := True\<rparr>"
  show "scan_parts lib [''stdio'', ''socks''] (length [''stdio'', ''socks''])
    (zero_remote\<lparr>reversed := reversed r\<rparr>) = Inr ?r0" by simp
  have "apply_defaults ?r0 = r"
    using f assms(2,3) by (intro remote_eqI) (auto simp: default_str_def)
  then show "check_remote (apply_defaults ?r0) = Inr r"
    using f assms(2,3) by (simp add: check_remote_def)
qed

text \<open>Which branch of \<^verbatim>\<open>DecodeRemote\<close> reads a printed remote.\<close>

lemma prefix_colon_token:
  assumes "part_token t" and "CHR '':'' \<notin> set m" and "m \<noteq> []" and "hd m \<noteq> CHR ''[''"
    and "prefix (m @ '':'') (t @ '':'' @ rest)"
  shows "t = m"
  using assms(1)
proof (cases rule: part_tokenE)
  case bare
  then have "CHR '':'' \<notin> set t" by (auto simp: list_all_iff part_byte_def)
  with assms(2,5) show ?thesis
    by (auto simp: prefix_def append_eq_append_conv2 Cons_eq_append_conv append_eq_Cons_conv)
next
  case (bracket b)
  then show ?thesis using assms(3-5) by (cases m) auto
qed

definition printed_plain :: "remote \<Rightarrow> string" where
  "printed_plain r =
     (if stdio r then ''stdio'' else local_host r @ '':'' @ local_port r) @ '':''
       @ (if socks r then ''socks'' else remote_host r @ '':'' @ last_part r)"

lemma encode_plain:
  assumes "canonical_remote lib r"
  shows "encode_remote r = (if reversed r then ''R:'' else []) @ printed_plain r"
proof -
  have "uds_mode r = []" using assms by (simp add: canonical_remote_def)
  moreover have "\<not> stdio r \<Longrightarrow> local_host r \<noteq> [] \<and> local_port r \<noteq> []"
    using assms by (auto simp: canonical_remote_def canonical_local_def
        dest: host_token_not_Nil is_port_not_Nil)
  moreover have "\<not> socks r \<Longrightarrow> remote_host r \<noteq> []"
    using assms by (auto simp: canonical_remote_def dest: host_token_not_Nil)
  moreover have "socks r \<Longrightarrow> remote_proto r = ''tcp''"
    using assms by (simp add: canonical_remote_def)
  ultimately show ?thesis
    by (cases "stdio r"; cases "socks r")
      (simp_all add: encode_remote_def is_uds_def remote_consts local_addr_def remote_addr_def
        default_str_def printed_plain_def last_part_def Let_def)
qed

lemma decode_printed_plain:
  assumes "canonical_remote lib r"
  shows "decode_plain_remote lib (printed_plain r) (reversed r) = Inr r"
  using decode_plain_canonical [OF assms] decode_plain_socks [OF assms]
    decode_plain_stdio [OF assms] decode_plain_stdio_socks [OF assms]
  by (simp add: printed_plain_def)

lemma printed_plain_head:
  assumes "canonical_remote lib r"
  shows "\<not> prefix ''uds-'' (printed_plain r)"
    and "reversed r \<or> \<not> prefix ''R:'' (printed_plain r)"
proof -
  have uds: "\<not> prefix ''uds-'' (t @ '':'' @ x)" if "\<not> prefix ''uds-'' t" for t x
    using that by (auto simp: prefix_Cons append_eq_Cons_conv Cons_eq_append_conv prefix_def)
  show "\<not> prefix ''uds-'' (printed_plain r)"
    using assms uds by (auto simp: canonical_remote_def canonical_local_def printed_plain_def)
  have R: "t = ''R''" if "part_token t" "prefix ''R:'' (t @ '':'' @ x)" for t x
    using prefix_colon_token [OF that(1), of "''R''" x] that(2) by simp
  show "reversed r \<or> \<not> prefix ''R:'' (printed_plain r)"
    using assms R by (auto simp: canonical_remote_def canonical_local_def printed_plain_def host_token_def)
qed

text \<open>
  C11. A TCP, UDP, SOCKS or stdio remote in canonical form (valid ports, hosts that are single
  parts of the grammar, a lower-case protocol, forward or reversed), printed by \<^verbatim>\<open>Encode\<close>, is
  read back by \<^verbatim>\<open>DecodeRemote\<close> as the same remote, field by field.
\<close>

theorem plain_round_trip:
  assumes "canonical_remote lib r"
  shows "decode_remote lib (encode_remote r) = Inr r"
proof -
  have nolisten: "\<not> prefix (uds_mode_listen @ '':'') (printed_plain r)"
    "\<not> prefix (uds_mode_pair @ '':'') (printed_plain r)"
    using printed_plain_head(1) [OF assms]
    by (auto simp: remote_consts prefix_def)
  show ?thesis
    using printed_plain_head [OF assms] decode_printed_plain [OF assms] nolisten
    by (cases "reversed r") (auto simp: encode_plain [OF assms] decode_remote_def remote_consts trim_prefix_def)
qed

theorem plain_round_trip_witness:
  "let lib = \<lparr>uni_lower = id, url_parse_ok = \<lambda>_. True\<rparr>;
       r = zero_remote\<lparr>local_host := ''[::]'', local_port := ''5353'', local_proto := ''udp'',
         remote_host := ''1.1.1.1'', remote_port := ''53'', remote_proto := ''udp'', reversed := True\<rparr>
   in encode_remote r = ''R:[::]:5353:1.1.1.1:53/udp'' \<and> decode_remote lib (encode_remote r) = Inr r"
proof -
  let ?lib = "\<lparr>uni_lower = id, url_parse_ok = \<lambda>_. True\<rparr>"
  let ?r = "zero_remote\<lparr>local_host := ''[::]'', local_port := ''5353'', local_proto := ''udp'',
         remote_host := ''1.1.1.1'', remote_port := ''53'', remote_proto := ''udp'', reversed := True\<rparr>"
  have c: "canonical_remote ?lib ?r" by code_simp
  have "encode_remote ?r = ''R:[::]:5353:1.1.1.1:53/udp''" by code_simp
  with plain_round_trip [OF c] show ?thesis by simp
qed

end
