(* ===== verification/Os_Env.thy ===== *)
theory Os_Env
  imports Remotes
begin

text \<open>
  The operating system as the code sees it: a function from the calls made so far and the next
  call to a reply. Every component that makes calls threads the trace of calls and replies, so
  a property can speak about what was called, in which order, and about the listeners that are
  open: a successful listen opens the handle that is its position in the trace, a close call
  closes it. Also here: the checks of \<^verbatim>\<open>share/settings/remote.go\<close> that make calls.
\<close>

datatype os_call =
    Mkdir_all string
  | Stat string
  | Remove_file string
  | Chmod string
  | Resolve_addr string string
  | Listen_on string string
  | Close_listener nat

datatype os_reply = Done | Not_exist | Is_socket | Is_other | Failed string

type_synonym os_trace = "(os_call \<times> os_reply) list"

type_synonym os = "os_trace \<Rightarrow> os_call \<Rightarrow> os_reply"

definition sys :: "os \<Rightarrow> os_call \<Rightarrow> os_trace \<Rightarrow> os_reply \<times> os_trace" where
  "sys os c tr = (let r = os tr c in (r, tr @ [(c, r)]))"

fun error_of :: "os_reply \<Rightarrow> string option" where
  "error_of (Failed e) = Some e"
| "error_of Not_exist = Some ''file does not exist''"
| "error_of _ = None"

subsection \<open>Open listeners\<close>

fun track_call :: "nat \<Rightarrow> os_call \<times> os_reply \<Rightarrow> nat list \<Rightarrow> nat list" where
  "track_call n (Listen_on p a, r) hs = (if error_of r = None then hs @ [n] else hs)"
| "track_call n (Close_listener h, r) hs = remove1 h hs"
| "track_call n (c, r) hs = hs"

fun track_calls :: "nat \<Rightarrow> os_trace \<Rightarrow> nat list \<Rightarrow> nat list" where
  "track_calls n [] hs = hs"
| "track_calls n (x # xs) hs = track_calls (Suc n) xs (track_call n x hs)"

definition open_listeners :: "os_trace \<Rightarrow> nat list" where
  "open_listeners tr = track_calls 0 tr []"

lemma track_calls_append:
  "track_calls n (xs @ ys) hs = track_calls (n + length xs) ys (track_calls n xs hs)"
  by (induction xs arbitrary: n hs) simp_all

lemma open_listeners_Nil [simp]: "open_listeners [] = []"
  by (simp add: open_listeners_def)

lemma open_listeners_append [simp]:
  "open_listeners (tr @ xs) = track_calls (length tr) xs (open_listeners tr)"
  by (simp add: open_listeners_def track_calls_append)

lemma set_track_call: "set (track_call n x hs) \<subseteq> insert n (set hs)"
  by (cases "(n, x, hs)" rule: track_call.cases) (auto dest: set_remove1_subset [THEN subsetD])

lemma open_listeners_less: "h \<in> set (open_listeners tr) \<Longrightarrow> h < length tr"
proof (induction tr rule: rev_induct)
  case Nil
  then show ?case by simp
next
  case (snoc x tr)
  then have "h \<in> insert (length tr) (set (open_listeners tr))"
    using set_track_call [of "length tr" x "open_listeners tr"] by auto
  with snoc.IH show ?case by auto
qed

lemma fresh_handle [simp]: "length tr \<le> h \<Longrightarrow> h \<notin> set (open_listeners tr)"
  using open_listeners_less by fastforce

lemma distinct_open_listeners [simp]: "distinct (open_listeners tr)"
proof (induction tr rule: rev_induct)
  case Nil
  then show ?case by simp
next
  case (snoc x tr)
  then show ?case
    by (cases "(length tr, x, open_listeners tr)" rule: track_call.cases) simp_all
qed

text \<open>Calls that neither open nor close a listener.\<close>

fun quiet_call :: "os_call \<Rightarrow> bool" where
  "quiet_call (Listen_on p a) = False"
| "quiet_call (Close_listener h) = False"
| "quiet_call _ = True"

lemma track_quiet: "quiet_call c \<Longrightarrow> track_call n (c, r) hs = hs"
  by (cases c) simp_all

lemma sys_trace: "sys os c tr = (r, tr') \<Longrightarrow> tr' = tr @ [(c, r)]"
  by (auto simp: sys_def Let_def)

lemma sys_quiet: "sys os c tr = (r, tr') \<Longrightarrow> quiet_call c \<Longrightarrow> open_listeners tr' = open_listeners tr"
  by (auto dest!: sys_trace simp: track_quiet)

subsection \<open>The checks of a remote that make calls\<close>

text \<open>\<^verbatim>\<open>validateSocketPath\<close>: the parent directory is made; None is success.\<close>

definition validate_socket_path :: "os \<Rightarrow> string \<Rightarrow> os_trace \<Rightarrow> string option \<times> os_trace" where
  "validate_socket_path os path tr =
     (if trim_space path = [] then (Some ''empty socket path'', tr)
      else
        (let dir = path_dir path
         in if dir = ''.'' then (None, tr)
            else (let (r, tr) = sys os (Mkdir_all dir) tr in (error_of r, tr))))"

definition can_listen :: "os \<Rightarrow> remote \<Rightarrow> os_trace \<Rightarrow> bool \<times> os_trace" where
  "can_listen os r tr =
     (if is_uds r then
        (let (err, tr) = validate_socket_path os (uds_socket_path r) tr in (err = None, tr))
      else if local_proto r = ''tcp'' then
        (let h = length tr; (res, tr) = sys os (Listen_on ''tcp'' (local_addr r)) tr
         in if error_of res = None
            then (let (_, tr) = sys os (Close_listener h) tr in (True, tr))
            else (False, tr))
      else if local_proto r = ''udp'' then
        (let (res, tr) = sys os (Resolve_addr ''udp'' (local_addr r)) tr
         in if error_of res \<noteq> None then (False, tr)
            else
              (let h = length tr; (res, tr) = sys os (Listen_on ''udp'' (local_addr r)) tr
               in if error_of res = None
                  then (let (_, tr) = sys os (Close_listener h) tr in (True, tr))
                  else (False, tr)))
      else (False, tr))"

text \<open>Filtering and printing lists of remotes.\<close>

fun remotes_reversed :: "bool \<Rightarrow> remote list \<Rightarrow> remote list" where
  "remotes_reversed rv [] = []"
| "remotes_reversed rv (r # rs) =
     (if reversed r = rv then r # remotes_reversed rv rs else remotes_reversed rv rs)"

definition remotes_encode :: "remote list \<Rightarrow> string list" where
  "remotes_encode rs = map encode_remote rs"

lemma set_remotes_reversed [simp]: "set (remotes_reversed rv rs) = {r \<in> set rs. reversed r = rv}"
  by (induction rs) auto

lemma remotes_reversed_filter: "remotes_reversed rv rs = filter (\<lambda>r. reversed r = rv) rs"
  by (induction rs) auto

lemma validate_socket_path_quiet:
  "validate_socket_path os path tr = (e, tr') \<Longrightarrow> open_listeners tr' = open_listeners tr"
  by (auto simp: validate_socket_path_def Let_def split: if_splits prod.splits dest: sys_quiet)

lemma can_listen_quiet: "can_listen os r tr = (ok, tr') \<Longrightarrow> open_listeners tr' = open_listeners tr"
  by (auto simp: can_listen_def Let_def sys_def remove1_append remove1_idem
      split: prod.splits if_splits dest: validate_socket_path_quiet)

lemma can_listen_proto:
  "can_listen os r tr = (True, tr') \<Longrightarrow> is_uds r \<or> local_proto r = ''tcp'' \<or> local_proto r = ''udp''"
  by (auto simp: can_listen_def split: if_splits)

text \<open>
  Probing an address leaves nothing open. Whatever the operating system answers, after
  \<^verbatim>\<open>CanListen\<close> exactly the listeners of before are open; and on a protocol other than tcp, udp
  or a Unix socket it answers no without a call.
\<close>

theorem can_listen_leaves_no_listener:
  "case can_listen os r tr of (ok, tr') \<Rightarrow> open_listeners tr' = open_listeners tr
     \<and> (ok \<longrightarrow> is_uds r \<or> local_proto r = ''tcp'' \<or> local_proto r = ''udp'')"
  using can_listen_quiet [of os r tr] can_listen_proto [of os r tr] by (auto split: prod.splits)

theorem can_listen_leaves_no_listener_witness:
  "let r = zero_remote\<lparr>local_host := ''0.0.0.0'', local_port := ''80'', local_proto := ''tcp''\<rparr>
   in case can_listen (\<lambda>_ _. Done) r [] of (ok, tr') \<Rightarrow> ok \<and> open_listeners tr' = []"
proof -
  let ?r = "zero_remote\<lparr>local_host := ''0.0.0.0'', local_port := ''80'', local_proto := ''tcp''\<rparr>"
  have "fst (can_listen (\<lambda>_ _. Done) ?r [])" by code_simp
  with can_listen_leaves_no_listener [where os = "\<lambda>_ _. Done" and r = ?r and tr = "[]"] show ?thesis
    by (auto split: prod.splits)
qed

end
