(* ===== verification/Monitor.thy ===== *)
theory Monitor
  imports Chisel_Prelude "HOL-Library.Char_ord" "HOL-Library.List_Lexorder" "HOL-Library.Multiset"
begin

text \<open>
  \<^verbatim>\<open>server/monitor_state.go\<close>, lines 12 to 222: the table of sessions and endpoints behind
  \<^verbatim>\<open>Server.MonitorSnapshot\<close>. Every operation takes the time \<open>now\<close> it read before it took
  the lock, so a sequence of operations is the order in which they got the lock, and the
  times in it need not grow. The order of a Go map's \<^verbatim>\<open>range\<close> loop is not specified:
  \<open>snapshot_of\<close> takes the two loops' orders as arguments, and \<open>snapshot\<close> is one of them.
\<close>

subsection \<open>State\<close>

datatype session_status =
  Session_pending | Session_connected | Session_failed | Session_disconnected

datatype endpoint_status =
  Endpoint_pending | Endpoint_active | Endpoint_failed | Endpoint_closed

record session_snapshot =
  ss_session_id :: string
  ss_remote_addr :: string
  ss_status :: session_status
  ss_error :: string
  ss_started_at :: time
  ss_connected_at :: time
  ss_updated_at :: time

record endpoint_snapshot =
  es_session_id :: string
  es_descriptor :: string
  es_status :: endpoint_status
  es_last_error :: string
  es_updated_at :: time

record monitor_counters =
  pending_sessions :: nat
  connected_sessions :: nat
  failed_sessions :: nat
  disconnected_sessions :: nat
  pending_endpoints :: nat
  active_endpoints :: nat
  failed_endpoints :: nat
  closed_endpoints :: nat

record monitor_snapshot =
  snap_sessions :: "session_snapshot list"
  snap_endpoints :: "endpoint_snapshot list"
  snap_counters :: monitor_counters

record monitor_state =
  ms_sessions :: "session_snapshot go_map"
  ms_endpoints :: "endpoint_snapshot go_map"

definition new_monitor_state :: monitor_state where
  "new_monitor_state = \<lparr>ms_sessions = [], ms_endpoints = []\<rparr>"

text \<open>
  The zero value of a status is the empty string in Go; every operation that creates an
  entry assigns a status before it releases the lock.
\<close>

definition new_session :: "string \<Rightarrow> session_status \<Rightarrow> session_snapshot" where
  "new_session sid st =
     \<lparr>ss_session_id = sid, ss_remote_addr = [], ss_status = st, ss_error = [],
      ss_started_at = 0, ss_connected_at = 0, ss_updated_at = 0\<rparr>"

definition zero_counters :: monitor_counters where
  "zero_counters =
     \<lparr>pending_sessions = 0, connected_sessions = 0, failed_sessions = 0,
      disconnected_sessions = 0, pending_endpoints = 0, active_endpoints = 0,
      failed_endpoints = 0, closed_endpoints = 0\<rparr>"

subsection \<open>Operations\<close>

definition set_if_zero :: "time \<Rightarrow> time \<Rightarrow> time" where
  "set_if_zero now t = (if t = 0 then now else t)"

definition get_session :: "monitor_state \<Rightarrow> string \<Rightarrow> session_status \<Rightarrow> session_snapshot" where
  "get_session m sid st =
     (case map_get (ms_sessions m) sid of None \<Rightarrow> new_session sid st | Some s \<Rightarrow> s)"

definition put_session :: "string \<Rightarrow> session_snapshot \<Rightarrow> monitor_state \<Rightarrow> monitor_state" where
  "put_session sid s m = m\<lparr>ms_sessions := map_set sid s (ms_sessions m)\<rparr>"

definition mark_session_pending ::
    "string \<Rightarrow> string \<Rightarrow> time \<Rightarrow> monitor_state \<Rightarrow> monitor_state" where
  "mark_session_pending sid addr now m =
     (let s = get_session m sid Session_pending
      in put_session sid
           (s\<lparr>ss_remote_addr := addr, ss_status := Session_pending, ss_error := [],
              ss_started_at := set_if_zero now (ss_started_at s), ss_updated_at := now\<rparr>) m)"

definition mark_session_connected :: "string \<Rightarrow> time \<Rightarrow> monitor_state \<Rightarrow> monitor_state" where
  "mark_session_connected sid now m =
     (let s = get_session m sid Session_connected
      in put_session sid
           (s\<lparr>ss_status := Session_connected, ss_error := [],
              ss_started_at := set_if_zero now (ss_started_at s),
              ss_connected_at := set_if_zero now (ss_connected_at s), ss_updated_at := now\<rparr>) m)"

definition mark_session_failed ::
    "string \<Rightarrow> string \<Rightarrow> time \<Rightarrow> monitor_state \<Rightarrow> monitor_state" where
  "mark_session_failed sid message now m =
     (let s = get_session m sid Session_failed
      in put_session sid
           (s\<lparr>ss_status := Session_failed, ss_error := message,
              ss_started_at := set_if_zero now (ss_started_at s), ss_updated_at := now\<rparr>) m)"

definition close_endpoint :: "string \<Rightarrow> time \<Rightarrow> endpoint_snapshot \<Rightarrow> endpoint_snapshot" where
  "close_endpoint sid now e =
     (if es_session_id e \<noteq> sid then e
      else if es_status e = Endpoint_active \<or> es_status e = Endpoint_pending
        then e\<lparr>es_status := Endpoint_closed, es_updated_at := now\<rparr>
      else e)"

definition mark_session_disconnected :: "string \<Rightarrow> time \<Rightarrow> monitor_state \<Rightarrow> monitor_state" where
  "mark_session_disconnected sid now m =
     (let s = get_session m sid Session_disconnected;
          m = put_session sid (s\<lparr>ss_status := Session_disconnected, ss_updated_at := now\<rparr>) m
      in m\<lparr>ms_endpoints := map (map_prod id (close_endpoint sid now)) (ms_endpoints m)\<rparr>)"

definition endpoint_key :: "string \<Rightarrow> string \<Rightarrow> string" where
  "endpoint_key sid desc = sid @ ''|'' @ desc"

definition update_endpoint ::
    "string \<Rightarrow> string \<Rightarrow> endpoint_status \<Rightarrow> string \<Rightarrow> time \<Rightarrow> monitor_state \<Rightarrow> monitor_state" where
  "update_endpoint sid desc st last_err now m =
     (let key = endpoint_key sid desc;
          e = (case map_get (ms_endpoints m) key of
                 None \<Rightarrow> \<lparr>es_session_id = sid, es_descriptor = desc, es_status = st,
                          es_last_error = [], es_updated_at = 0\<rparr>
               | Some e \<Rightarrow> e)
      in m\<lparr>ms_endpoints :=
             map_set key (e\<lparr>es_status := st, es_last_error := last_err, es_updated_at := now\<rparr>)
               (ms_endpoints m)\<rparr>)"

subsection \<open>The snapshot\<close>

definition count_session :: "session_snapshot \<Rightarrow> monitor_counters \<Rightarrow> monitor_counters" where
  "count_session s c =
     (case ss_status s of
        Session_pending \<Rightarrow> c\<lparr>pending_sessions := Suc (pending_sessions c)\<rparr>
      | Session_connected \<Rightarrow> c\<lparr>connected_sessions := Suc (connected_sessions c)\<rparr>
      | Session_failed \<Rightarrow> c\<lparr>failed_sessions := Suc (failed_sessions c)\<rparr>
      | Session_disconnected \<Rightarrow> c\<lparr>disconnected_sessions := Suc (disconnected_sessions c)\<rparr>)"

definition count_endpoint :: "endpoint_snapshot \<Rightarrow> monitor_counters \<Rightarrow> monitor_counters" where
  "count_endpoint e c =
     (case es_status e of
        Endpoint_pending \<Rightarrow> c\<lparr>pending_endpoints := Suc (pending_endpoints c)\<rparr>
      | Endpoint_active \<Rightarrow> c\<lparr>active_endpoints := Suc (active_endpoints c)\<rparr>
      | Endpoint_failed \<Rightarrow> c\<lparr>failed_endpoints := Suc (failed_endpoints c)\<rparr>
      | Endpoint_closed \<Rightarrow> c\<lparr>closed_endpoints := Suc (closed_endpoints c)\<rparr>)"

text \<open>
  The order of the endpoints in a snapshot is the comparison function passed to
  \<^verbatim>\<open>sort.Slice\<close>; it is the order of the type of sort keys below.
\<close>

datatype endpoint_sort_key = Endpoint_sort_key string string

instantiation endpoint_sort_key :: linorder
begin

fun less_endpoint_sort_key :: "endpoint_sort_key \<Rightarrow> endpoint_sort_key \<Rightarrow> bool" where
  "less_endpoint_sort_key (Endpoint_sort_key s d) (Endpoint_sort_key s' d') =
     (if s = s' then d < d' else s < s')"

definition less_eq_endpoint_sort_key :: "endpoint_sort_key \<Rightarrow> endpoint_sort_key \<Rightarrow> bool" where
  "less_eq_endpoint_sort_key k k' \<longleftrightarrow> k < k' \<or> k = k'"

instance
proof
  fix x y z :: endpoint_sort_key
  show "x < y \<longleftrightarrow> x \<le> y \<and> \<not> y \<le> x"
    by (cases x; cases y) (auto simp: less_eq_endpoint_sort_key_def split: if_splits)
  show "x \<le> x" by (simp add: less_eq_endpoint_sort_key_def)
  show "x \<le> z" if "x \<le> y" "y \<le> z"
    using that by (cases x; cases y; cases z) (auto simp: less_eq_endpoint_sort_key_def split: if_splits)
  show "x = y" if "x \<le> y" "y \<le> x"
    using that by (cases x; cases y) (auto simp: less_eq_endpoint_sort_key_def split: if_splits)
  show "x \<le> y \<or> y \<le> x"
    by (cases x; cases y) (auto simp: less_eq_endpoint_sort_key_def)
qed

end

definition endpoint_order :: "endpoint_snapshot \<Rightarrow> endpoint_sort_key" where
  "endpoint_order e = Endpoint_sort_key (es_session_id e) (es_descriptor e)"

definition snapshot_of :: "session_snapshot list \<Rightarrow> endpoint_snapshot list \<Rightarrow> monitor_snapshot" where
  "snapshot_of ss es =
     \<lparr>snap_sessions = sort_key ss_session_id ss,
      snap_endpoints = sort_key endpoint_order es,
      snap_counters = fold count_endpoint es (fold count_session ss zero_counters)\<rparr>"

definition snapshot :: "monitor_state \<Rightarrow> monitor_snapshot" where
  "snapshot m = snapshot_of (map snd (ms_sessions m)) (map snd (ms_endpoints m))"

end
