(* ===== verification/Otel.thy ===== *)
theory Otel
  imports Monitor Go_Strings
begin

text \<open>
  \<^verbatim>\<open>server/otel.go\<close>: the publisher of traces and metrics. Its state is the three tables of
  start times and the last snapshot; what it hands to the OpenTelemetry SDK (spans, counter
  increments, histogram records) is appended to two lists. The instruments, which are nil
  until \<^verbatim>\<open>initMetrics\<close> has run, are flags. A nil table reads and, after its check, writes like
  an empty one. The types of the tunnel's callbacks (\<^verbatim>\<open>share/tunnel/tunnel.go\<close>, lines 33 to
  66) are here because the publisher and the proxies share them.
\<close>

subsection \<open>Events of a tunnel\<close>

datatype endpoint_state =
  Endpoint_state_pending | Endpoint_state_active | Endpoint_state_failed | Endpoint_state_closed

record endpoint_state_change =
  ec_session_id :: string
  ec_descriptor :: string
  ec_state :: endpoint_state
  ec_error :: string

datatype stream_state = Stream_accepted | Stream_open | Stream_error | Stream_closed

record stream_event =
  se_session_id :: string
  se_descriptor :: string
  se_protocol :: string
  se_conn_id :: int
  se_state :: stream_state
  se_error :: string
  se_time :: time

subsection \<open>The publisher\<close>

datatype metric =
    Handshake_duration int session_status
  | Session_failure
  | Session_duration int
  | Endpoint_setup_duration int endpoint_status string
  | Endpoint_failure string
  | Stream_accepted_count string string
  | Stream_error_count string string
  | Stream_duration int string string

datatype span =
    Session_span session_status string string
  | Endpoint_span endpoint_status string string
  | Stream_span stream_state string string string
  | Handshake_span string string "string option"
  | Config_validated_span string

record publisher =
  has_tracer :: bool
  has_handshake_duration :: bool
  has_session_failure :: bool
  has_session_duration :: bool
  has_endpoint_setup :: bool
  has_endpoint_failure :: bool
  has_stream_accepted :: bool
  has_stream_error :: bool
  has_stream_duration :: bool
  session_started_at :: "time go_map"
  endpoint_pending_at :: "time go_map"
  stream_open_at :: "time go_map"
  last_snapshot :: monitor_snapshot
  metrics :: "metric list"
  spans :: "span list"

definition empty_snapshot :: monitor_snapshot where
  "empty_snapshot = \<lparr>snap_sessions = [], snap_endpoints = [], snap_counters = zero_counters\<rparr>"

text \<open>The publisher after \<^verbatim>\<open>initMetrics\<close>.\<close>

definition new_publisher :: publisher where
  "new_publisher =
     \<lparr>has_tracer = True, has_handshake_duration = True, has_session_failure = True,
      has_session_duration = True, has_endpoint_setup = True, has_endpoint_failure = True,
      has_stream_accepted = True, has_stream_error = True, has_stream_duration = True,
      session_started_at = [], endpoint_pending_at = [], stream_open_at = [],
      last_snapshot = empty_snapshot, metrics = [], spans = []\<rparr>"

text \<open>The endpoint the exporter is given; None is the error for an empty one.\<close>

definition otel_endpoint :: "string \<Rightarrow> string option" where
  "otel_endpoint endpoint =
     (let endpoint = trim_space endpoint;
          endpoint = trim_prefix endpoint ''http://'';
          endpoint = trim_prefix endpoint ''https://''
      in if endpoint = [] then None else Some endpoint)"

text \<open>The gauges that the callback of \<^verbatim>\<open>initMetrics\<close> observes, with their status attribute.\<close>

definition observe_gauges ::
    "publisher \<Rightarrow> (session_status \<times> nat) list \<times> (endpoint_status \<times> nat) list" where
  "observe_gauges p =
     (let c = snap_counters (last_snapshot p)
      in ([(Session_pending, pending_sessions c), (Session_connected, connected_sessions c),
           (Session_failed, failed_sessions c), (Session_disconnected, disconnected_sessions c)],
          [(Endpoint_pending, pending_endpoints c), (Endpoint_active, active_endpoints c),
           (Endpoint_failed, failed_endpoints c), (Endpoint_closed, closed_endpoints c)]))"

definition update_snapshot :: "monitor_snapshot \<Rightarrow> publisher \<Rightarrow> publisher" where
  "update_snapshot snap p = p\<lparr>last_snapshot := snap\<rparr>"

definition emit :: "bool \<Rightarrow> metric \<Rightarrow> publisher \<Rightarrow> publisher" where
  "emit present x p = (if present then p\<lparr>metrics := metrics p @ [x]\<rparr> else p)"

definition trace :: "span \<Rightarrow> publisher \<Rightarrow> publisher" where
  "trace x p = (if has_tracer p then p\<lparr>spans := spans p @ [x]\<rparr> else p)"

definition since :: "time \<Rightarrow> time \<Rightarrow> int" where
  "since now t0 = int now - int t0"

definition on_session_status ::
    "string \<Rightarrow> session_status \<Rightarrow> string \<Rightarrow> string \<Rightarrow> time \<Rightarrow> time \<Rightarrow> publisher \<Rightarrow> publisher" where
  "on_session_status sid st err_text addr started now p =
     (let p = trace (Session_span st addr err_text) p
      in case st of
           Session_pending \<Rightarrow> p\<lparr>session_started_at := map_set sid started (session_started_at p)\<rparr>
         | Session_disconnected \<Rightarrow>
             (case map_get (session_started_at p) sid of
                None \<Rightarrow> p
              | Some t0 \<Rightarrow>
                  if t0 = 0 then p
                  else
                    (let p = emit (has_session_duration p) (Session_duration (since now t0)) p
                     in p\<lparr>session_started_at := map_del sid (session_started_at p)\<rparr>))
         | _ \<Rightarrow>
             (let p = (case map_get (session_started_at p) sid of
                         None \<Rightarrow> p
                       | Some t0 \<Rightarrow>
                           if t0 = 0 then p
                           else emit (has_handshake_duration p)
                                  (Handshake_duration (since now t0) st) p)
              in if st = Session_failed then emit (has_session_failure p) Session_failure p else p))"

definition endpoint_mode :: "string \<Rightarrow> string" where
  "endpoint_mode desc =
     (if sublist ''uds-listen'' desc then ''uds-listen''
      else if sublist ''uds-pair'' desc then ''uds-pair''
      else if suffix ''/udp'' desc then ''udp''
      else ''tcp'')"

definition on_endpoint_status ::
    "string \<Rightarrow> string \<Rightarrow> endpoint_status \<Rightarrow> string \<Rightarrow> time \<Rightarrow> publisher \<Rightarrow> publisher" where
  "on_endpoint_status sid desc st err_text now p =
     (let mode = endpoint_mode desc;
          p = trace (Endpoint_span st mode err_text) p;
          key = endpoint_key sid desc
      in case st of
           Endpoint_pending \<Rightarrow> p\<lparr>endpoint_pending_at := map_set key now (endpoint_pending_at p)\<rparr>
         | Endpoint_closed \<Rightarrow> p\<lparr>endpoint_pending_at := map_del key (endpoint_pending_at p)\<rparr>
         | _ \<Rightarrow>
             (let p = (case map_get (endpoint_pending_at p) key of
                         None \<Rightarrow> p
                       | Some t0 \<Rightarrow>
                           emit (has_endpoint_setup p)
                             (Endpoint_setup_duration (since now t0) st mode) p)
              in if st = Endpoint_failed
                 then emit (has_endpoint_failure p) (Endpoint_failure mode) p else p))"

definition stream_key :: "stream_event \<Rightarrow> string" where
  "stream_key ev = se_session_id ev @ ''|'' @ se_descriptor ev @ ''|'' @ itoa (se_conn_id ev)"

definition on_stream_event :: "stream_event \<Rightarrow> publisher \<Rightarrow> publisher" where
  "on_stream_event ev p =
     (let mode = endpoint_mode (se_descriptor ev);
          p = trace (Stream_span (se_state ev) mode (se_protocol ev) (se_error ev)) p;
          key = stream_key ev
      in case se_state ev of
           Stream_accepted \<Rightarrow>
             emit (has_stream_accepted p) (Stream_accepted_count mode (se_protocol ev)) p
         | Stream_open \<Rightarrow> p\<lparr>stream_open_at := map_set key (se_time ev) (stream_open_at p)\<rparr>
         | Stream_error \<Rightarrow>
             emit (has_stream_error p) (Stream_error_count mode (se_protocol ev)) p
         | Stream_closed \<Rightarrow>
             (case map_get (stream_open_at p) key of
                None \<Rightarrow> p
              | Some t0 \<Rightarrow>
                  (let p = emit (has_stream_duration p)
                             (Stream_duration (since (se_time ev) t0) mode (se_protocol ev)) p
                   in p\<lparr>stream_open_at := map_del key (stream_open_at p)\<rparr>)))"

end
