(* ===== verification/Monitor_Facts.thy ===== *)
theory Monitor_Facts
  imports Monitor
begin

text \<open>
  The correctness of the monitor: an invariant of its two maps that every operation keeps,
  the abstract table of statuses that the operations update, the closing of a session's
  endpoints, the times that are written once, and the snapshot (its counters count, and it
  does not depend on the order of the loops that built it).
\<close>

subsection \<open>Runs\<close>

text \<open>A run of the monitor is the list of its operations in the order they took the lock.\<close>

datatype monitor_op =
    Op_pending string string
  | Op_connected string
  | Op_failed string string
  | Op_disconnected string
  | Op_endpoint string string endpoint_status string

fun apply_op :: "monitor_op \<Rightarrow> time \<Rightarrow> monitor_state \<Rightarrow> monitor_state" where
  "apply_op (Op_pending sid addr) now m = mark_session_pending sid addr now m"
| "apply_op (Op_connected sid) now m = mark_session_connected sid now m"
| "apply_op (Op_failed sid msg) now m = mark_session_failed sid msg now m"
| "apply_op (Op_disconnected sid) now m = mark_session_disconnected sid now m"
| "apply_op (Op_endpoint sid desc st err) now m = update_endpoint sid desc st err now m"

fun run_ops :: "(monitor_op \<times> time) list \<Rightarrow> monitor_state \<Rightarrow> monitor_state" where
  "run_ops [] m = m"
| "run_ops ((x, now) # xs) m = run_ops xs (apply_op x now m)"

lemmas monitor_op_defs =
  mark_session_pending_def mark_session_connected_def mark_session_failed_def
  mark_session_disconnected_def update_endpoint_def put_session_def get_session_def Let_def

subsection \<open>The invariant\<close>

definition session_ok :: "string \<Rightarrow> session_snapshot \<Rightarrow> bool" where
  "session_ok k s \<longleftrightarrow>
     ss_session_id s = k \<and>
     (case ss_status s of
        Session_pending \<Rightarrow> ss_started_at s \<noteq> 0 \<and> ss_error s = []
      | Session_connected \<Rightarrow> ss_started_at s \<noteq> 0 \<and> ss_connected_at s \<noteq> 0 \<and> ss_error s = []
      | Session_failed \<Rightarrow> ss_started_at s \<noteq> 0
      | Session_disconnected \<Rightarrow> True)"

definition endpoint_ok :: "string \<Rightarrow> endpoint_snapshot \<Rightarrow> bool" where
  "endpoint_ok k e \<longleftrightarrow> k = endpoint_key (es_session_id e) (es_descriptor e)"

definition monitor_ok :: "monitor_state \<Rightarrow> bool" where
  "monitor_ok m \<longleftrightarrow>
     wf_map (ms_sessions m) \<and> wf_map (ms_endpoints m) \<and>
     list_all (\<lambda>(k, s). session_ok k s) (ms_sessions m) \<and>
     list_all (\<lambda>(k, e). endpoint_ok k e) (ms_endpoints m)"

lemma list_all_map_set:
  "list_all (\<lambda>(k, v). P k v) m \<Longrightarrow> P k v \<Longrightarrow> list_all (\<lambda>(k, v). P k v) (map_set k v m)"
  by (induction m) auto

lemma list_all_map_get:
  "list_all (\<lambda>(k, v). P k v) m \<Longrightarrow> map_get m k = Some v \<Longrightarrow> P k v"
  by (auto simp: list_all_iff dest!: map_of_SomeD)

lemma close_endpoint_key [simp]:
  "es_session_id (close_endpoint sid now e) = es_session_id e"
  "es_descriptor (close_endpoint sid now e) = es_descriptor e"
  by (simp_all add: close_endpoint_def)

lemma endpoint_ok_close [simp]: "endpoint_ok k (close_endpoint sid now e) = endpoint_ok k e"
  by (simp add: endpoint_ok_def)

lemma map_fst_prod [simp]: "map fst (map (map_prod id f) xs) = map fst xs"
  by (simp add: comp_def)

lemma map_get_map_prod [simp]: "map_get (map (map_prod id f) m) k = map_option f (map_get m k)"
  by (induction m) auto

lemma put_session_ok:
  assumes "monitor_ok m" and "session_ok sid s"
  shows "monitor_ok (put_session sid s m)"
  using assms by (auto simp: monitor_ok_def put_session_def intro: list_all_map_set)

lemma get_session_ok:
  assumes "monitor_ok m"
  shows "ss_session_id (get_session m sid st) = sid"
  using assms
  by (auto simp: monitor_ok_def get_session_def new_session_def session_ok_def
      dest: list_all_map_get split: option.splits)

lemma set_if_zero_pos [simp]: "now \<noteq> 0 \<Longrightarrow> set_if_zero now t \<noteq> 0"
  by (simp add: set_if_zero_def)

lemma apply_op_ok:
  assumes "monitor_ok m" and "now \<noteq> 0"
  shows "monitor_ok (apply_op x now m)"
proof (cases x)
  case (Op_disconnected sid)
  have "monitor_ok (put_session sid
    (get_session m sid Session_disconnected\<lparr>ss_status := Session_disconnected, ss_updated_at := now\<rparr>) m)"
    using assms by (intro put_session_ok) (simp_all add: session_ok_def get_session_ok)
  then show ?thesis
    by (auto simp: Op_disconnected mark_session_disconnected_def Let_def monitor_ok_def list_all_iff)
next
  case (Op_endpoint sid desc st err)
  then show ?thesis
    using assms
    by (auto simp: monitor_ok_def update_endpoint_def Let_def endpoint_ok_def
        intro!: list_all_map_set dest: list_all_map_get split: option.splits)
qed (use assms in \<open>auto simp: mark_session_pending_def mark_session_connected_def
    mark_session_failed_def Let_def session_ok_def get_session_ok intro!: put_session_ok\<close>)

lemma run_ops_ok:
  "monitor_ok m \<Longrightarrow> \<forall>(x, now) \<in> set xs. now \<noteq> 0 \<Longrightarrow> monitor_ok (run_ops xs m)"
  by (induction xs m rule: run_ops.induct) (auto intro: apply_op_ok)

lemma new_monitor_ok: "monitor_ok new_monitor_state"
  by (simp add: monitor_ok_def new_monitor_state_def)

text \<open>
  C38. In every state the monitor reaches from the empty one by its operations, at times that
  are not the zero time, both maps have distinct keys, a session is stored under its own id and
  an endpoint under the key of its session and descriptor, a pending or connected session
  has no error, every session that is not just disconnected has a start time, and a connected one
  has a connection time.
\<close>

theorem monitor_reachable_ok:
  assumes "\<forall>(x, now) \<in> set xs. now \<noteq> 0"
  shows "monitor_ok (run_ops xs new_monitor_state)"
  using run_ops_ok [OF new_monitor_ok assms] .

theorem monitor_reachable_ok_witness:
  "let m = run_ops [(Op_pending ''1'' ''10.0.0.1:5'', 7), (Op_connected ''1'', 9),
       (Op_endpoint ''1'' ''R:80=>80'' Endpoint_active [], 10), (Op_disconnected ''1'', 12)]
       new_monitor_state
   in monitor_ok m \<and> map ss_status (map snd (ms_sessions m)) = [Session_disconnected]"
proof -
  let ?xs = "[(Op_pending ''1'' ''10.0.0.1:5'', 7), (Op_connected ''1'', 9),
       (Op_endpoint ''1'' ''R:80=>80'' Endpoint_active [], 10), (Op_disconnected ''1'', 12)]"
  have "map ss_status (map snd (ms_sessions (run_ops ?xs new_monitor_state))) = [Session_disconnected]"
    by code_simp
  with monitor_reachable_ok [of ?xs] show ?thesis by simp
qed

subsection \<open>The abstract table of statuses\<close>

definition session_status_of :: "monitor_state \<Rightarrow> string \<Rightarrow> session_status option" where
  "session_status_of m sid = map_option ss_status (map_get (ms_sessions m) sid)"

definition endpoint_status_of :: "monitor_state \<Rightarrow> string \<Rightarrow> endpoint_status option" where
  "endpoint_status_of m key = map_option es_status (map_get (ms_endpoints m) key)"

text \<open>
  The abstract machine: a session has a status, an endpoint has a status and an owner.
  Losing the session closes what it owns that is pending or active.
\<close>

record status_table =
  st_sessions :: "string \<Rightarrow> session_status option"
  st_endpoints :: "string \<Rightarrow> (string \<times> endpoint_status) option"

fun close_owned :: "string \<Rightarrow> string \<times> endpoint_status \<Rightarrow> string \<times> endpoint_status" where
  "close_owned sid (owner, st) =
     (owner, if owner = sid \<and> (st = Endpoint_pending \<or> st = Endpoint_active)
             then Endpoint_closed else st)"

fun table_op :: "monitor_op \<Rightarrow> status_table \<Rightarrow> status_table" where
  "table_op (Op_pending sid addr) t = t\<lparr>st_sessions := (st_sessions t)(sid \<mapsto> Session_pending)\<rparr>"
| "table_op (Op_connected sid) t = t\<lparr>st_sessions := (st_sessions t)(sid \<mapsto> Session_connected)\<rparr>"
| "table_op (Op_failed sid msg) t = t\<lparr>st_sessions := (st_sessions t)(sid \<mapsto> Session_failed)\<rparr>"
| "table_op (Op_disconnected sid) t =
     t\<lparr>st_sessions := (st_sessions t)(sid \<mapsto> Session_disconnected),
       st_endpoints := (\<lambda>k. map_option (close_owned sid) (st_endpoints t k))\<rparr>"
| "table_op (Op_endpoint sid desc st err) t =
     t\<lparr>st_endpoints := (st_endpoints t)
         (endpoint_key sid desc \<mapsto>
           (case st_endpoints t (endpoint_key sid desc) of
              None \<Rightarrow> sid | Some (owner, _) \<Rightarrow> owner, st))\<rparr>"

definition table_of :: "monitor_state \<Rightarrow> status_table" where
  "table_of m =
     \<lparr>st_sessions = session_status_of m,
      st_endpoints = (\<lambda>k. map_option (\<lambda>e. (es_session_id e, es_status e)) (map_get (ms_endpoints m) k))\<rparr>"

fun run_table :: "(monitor_op \<times> time) list \<Rightarrow> status_table \<Rightarrow> status_table" where
  "run_table [] t = t"
| "run_table ((x, now) # xs) t = run_table xs (table_op x t)"

lemma status_tableI:
  fixes t t' :: status_table
  shows "st_sessions t = st_sessions t' \<Longrightarrow> st_endpoints t = st_endpoints t' \<Longrightarrow> t = t'"
  by (cases t; cases t') simp

lemma table_of_apply_op: "table_of (apply_op x now m) = table_op x (table_of m)"
proof (cases x)
  case (Op_disconnected sid)
  then show ?thesis
    by (intro status_tableI ext)
      (auto simp: table_of_def session_status_of_def monitor_op_defs new_session_def
        map_option_case close_endpoint_def split: option.splits)
next
  case (Op_endpoint sid desc st err)
  then show ?thesis
    by (intro status_tableI ext)
      (auto simp: table_of_def session_status_of_def monitor_op_defs split: option.splits)
qed (auto intro!: status_tableI ext simp: table_of_def session_status_of_def monitor_op_defs
    new_session_def split: option.splits)

text \<open>
  C13. The monitor implements the abstract table of statuses. Whatever the sequence of
  operations, their arguments and their times, the statuses of all sessions and the owners
  and statuses of all endpoints are those the abstract machine computes: an operation
  changes the one entry it names, except that losing a session closes the pending and the
  active endpoints the session owns and leaves failed and closed ones as they are.
\<close>

theorem monitor_refines_table: "table_of (run_ops xs m) = run_table xs (table_of m)"
  by (induction xs m rule: run_ops.induct) (simp_all add: table_of_apply_op)

subsection \<open>Losing a session\<close>

lemma disconnected_status:
  "map_option es_status (map_get (ms_endpoints (mark_session_disconnected sid now m)) k) =
     map_option (\<lambda>e. if es_session_id e = sid
         \<and> (es_status e = Endpoint_active \<or> es_status e = Endpoint_pending)
       then Endpoint_closed else es_status e) (map_get (ms_endpoints m) k)"
  by (auto simp: monitor_op_defs map_option_case close_endpoint_def split: option.splits)

lemma disconnected_all_closed:
  assumes "e \<in> set (map snd (ms_endpoints (mark_session_disconnected sid now m)))"
    and "es_session_id e = sid"
  shows "es_status e = Endpoint_closed \<or> es_status e = Endpoint_failed"
proof -
  from assms(1) obtain e0 where e: "e = close_endpoint sid now e0"
    by (auto simp: monitor_op_defs)
  with assms(2) have "es_session_id e0 = sid" by simp
  then show ?thesis by (cases "es_status e0") (auto simp: e close_endpoint_def)
qed

lemma disconnected_other_kept:
  assumes "map_get (ms_endpoints m) k = Some e"
    and "es_session_id e \<noteq> sid \<or> es_status e = Endpoint_failed \<or> es_status e = Endpoint_closed"
  shows "map_get (ms_endpoints (mark_session_disconnected sid now m)) k = Some e"
  using assms by (auto simp: monitor_op_defs close_endpoint_def)

text \<open>
  Losing a session settles its endpoints: afterwards every endpoint of the session is closed
  or failed, no endpoint is added or dropped, and an endpoint of another session, or one
  that had failed or closed before, is unchanged in every field.
\<close>

theorem disconnect_settles_endpoints:
  "let m' = mark_session_disconnected sid now m
   in (\<forall>e \<in> set (map snd (ms_endpoints m')). es_session_id e = sid \<longrightarrow>
         es_status e = Endpoint_closed \<or> es_status e = Endpoint_failed)
     \<and> map fst (ms_endpoints m') = map fst (ms_endpoints m)
     \<and> (\<forall>k e. map_get (ms_endpoints m) k = Some e \<and>
         (es_session_id e \<noteq> sid \<or> es_status e = Endpoint_failed \<or> es_status e = Endpoint_closed)
         \<longrightarrow> map_get (ms_endpoints m') k = Some e)"
proof -
  let ?m' = "mark_session_disconnected sid now m"
  have "\<forall>e \<in> set (map snd (ms_endpoints ?m')). es_session_id e = sid \<longrightarrow>
         es_status e = Endpoint_closed \<or> es_status e = Endpoint_failed"
    using disconnected_all_closed by blast
  moreover have "map fst (ms_endpoints ?m') = map fst (ms_endpoints m)"
    by (simp add: mark_session_disconnected_def put_session_def Let_def)
  ultimately show ?thesis using disconnected_other_kept by (simp only: Let_def) blast
qed

theorem disconnect_settles_endpoints_witness:
  "let m = run_ops [(Op_connected ''1'', 1), (Op_endpoint ''1'' ''x'' Endpoint_active [], 2),
       (Op_endpoint ''2'' ''y'' Endpoint_active [], 3)] new_monitor_state;
       m' = mark_session_disconnected ''1'' 9 m
   in map es_status (map snd (ms_endpoints m')) = [Endpoint_closed, Endpoint_active]
     \<and> map_get (ms_endpoints m') ''2|y'' = map_get (ms_endpoints m) ''2|y''"
proof -
  let ?m = "run_ops [(Op_connected ''1'', 1), (Op_endpoint ''1'' ''x'' Endpoint_active [], 2),
       (Op_endpoint ''2'' ''y'' Endpoint_active [], 3)] new_monitor_state"
  let ?e = "\<lparr>es_session_id = ''2'', es_descriptor = ''y'', es_status = Endpoint_active,
    es_last_error = [], es_updated_at = 3\<rparr>"
  have "map es_status (map snd (ms_endpoints (mark_session_disconnected ''1'' 9 ?m)))
      = [Endpoint_closed, Endpoint_active]" by code_simp
  moreover have "map_get (ms_endpoints ?m) ''2|y'' = Some ?e" by code_simp
  moreover from this disconnect_settles_endpoints [of "''1''" 9 ?m]
  have "map_get (ms_endpoints (mark_session_disconnected ''1'' 9 ?m)) ''2|y'' = Some ?e"
    by (auto simp: Let_def)
  ultimately show ?thesis by simp
qed

subsection \<open>Times are written once\<close>

lemma session_times_kept_op:
  assumes "map_get (ms_sessions m) sid = Some s"
  shows "\<exists>s'. map_get (ms_sessions (apply_op x now m)) sid = Some s'
    \<and> (ss_started_at s \<noteq> 0 \<longrightarrow> ss_started_at s' = ss_started_at s)
    \<and> (ss_connected_at s \<noteq> 0 \<longrightarrow> ss_connected_at s' = ss_connected_at s)"
  using assms by (cases x) (auto simp: monitor_op_defs set_if_zero_def)

text \<open>
  The start time and the connection time of a session are written once: whatever
  operations follow, on this session or on others, a session that has a start time or a
  connection time keeps it.
\<close>

theorem session_times_kept:
  "map_get (ms_sessions m) sid = Some s \<Longrightarrow>
    \<exists>s'. map_get (ms_sessions (run_ops xs m)) sid = Some s'
      \<and> (ss_started_at s \<noteq> 0 \<longrightarrow> ss_started_at s' = ss_started_at s)
      \<and> (ss_connected_at s \<noteq> 0 \<longrightarrow> ss_connected_at s' = ss_connected_at s)"
proof (induction xs m arbitrary: s rule: run_ops.induct)
  case (1 m)
  then show ?case by simp
next
  case (2 x now xs m)
  from session_times_kept_op [OF "2.prems", of x now] obtain s1 where
    s1: "map_get (ms_sessions (apply_op x now m)) sid = Some s1"
    "ss_started_at s \<noteq> 0 \<longrightarrow> ss_started_at s1 = ss_started_at s"
    "ss_connected_at s \<noteq> 0 \<longrightarrow> ss_connected_at s1 = ss_connected_at s" by blast
  from "2.IH" [OF s1(1)] s1(2,3) show ?case by auto
qed

theorem session_times_kept_witness:
  "let m = run_ops [(Op_pending ''1'' ''10.0.0.1:5'', 7), (Op_connected ''1'', 9)] new_monitor_state;
       xs = [(Op_pending ''1'' ''10.0.0.2:5'', 11), (Op_connected ''1'', 13)]
   in \<exists>s'. map_get (ms_sessions (run_ops xs m)) ''1'' = Some s'
      \<and> ss_started_at s' = 7 \<and> ss_connected_at s' = 9"
proof -
  let ?m = "run_ops [(Op_pending ''1'' ''10.0.0.1:5'', 7), (Op_connected ''1'', 9)] new_monitor_state"
  let ?s = "\<lparr>ss_session_id = ''1'', ss_remote_addr = ''10.0.0.1:5'', ss_status = Session_connected,
    ss_error = [], ss_started_at = 7, ss_connected_at = 9, ss_updated_at = 9\<rparr>"
  have "map_get (ms_sessions ?m) ''1'' = Some ?s" by code_simp
  from session_times_kept [OF this, of "[(Op_pending ''1'' ''10.0.0.2:5'', 11), (Op_connected ''1'', 13)]"]
  show ?thesis by (simp add: Let_def)
qed

subsection \<open>The snapshot\<close>

definition sessions_with :: "session_status \<Rightarrow> session_snapshot list \<Rightarrow> nat" where
  "sessions_with st ss = length (filter (\<lambda>s. ss_status s = st) ss)"

definition endpoints_with :: "endpoint_status \<Rightarrow> endpoint_snapshot list \<Rightarrow> nat" where
  "endpoints_with st es = length (filter (\<lambda>e. es_status e = st) es)"

definition counters_of :: "session_snapshot list \<Rightarrow> endpoint_snapshot list \<Rightarrow> monitor_counters" where
  "counters_of ss es =
     \<lparr>pending_sessions = sessions_with Session_pending ss,
      connected_sessions = sessions_with Session_connected ss,
      failed_sessions = sessions_with Session_failed ss,
      disconnected_sessions = sessions_with Session_disconnected ss,
      pending_endpoints = endpoints_with Endpoint_pending es,
      active_endpoints = endpoints_with Endpoint_active es,
      failed_endpoints = endpoints_with Endpoint_failed es,
      closed_endpoints = endpoints_with Endpoint_closed es\<rparr>"

definition add_counters :: "monitor_counters \<Rightarrow> monitor_counters \<Rightarrow> monitor_counters" where
  "add_counters c d =
     \<lparr>pending_sessions = pending_sessions c + pending_sessions d,
      connected_sessions = connected_sessions c + connected_sessions d,
      failed_sessions = failed_sessions c + failed_sessions d,
      disconnected_sessions = disconnected_sessions c + disconnected_sessions d,
      pending_endpoints = pending_endpoints c + pending_endpoints d,
      active_endpoints = active_endpoints c + active_endpoints d,
      failed_endpoints = failed_endpoints c + failed_endpoints d,
      closed_endpoints = closed_endpoints c + closed_endpoints d\<rparr>"

lemma count_session_add:
  "add_counters (counters_of ss []) (count_session s c) = add_counters (counters_of (s # ss) []) c"
  by (cases "ss_status s")
    (simp_all add: count_session_def add_counters_def counters_of_def sessions_with_def)

lemma count_endpoint_add:
  "add_counters (counters_of [] es) (count_endpoint e c) = add_counters (counters_of [] (e # es)) c"
  by (cases "es_status e")
    (simp_all add: count_endpoint_def add_counters_def counters_of_def endpoints_with_def)

lemma fold_count_session:
  "fold count_session ss c = add_counters (counters_of ss []) c"
proof (induction ss arbitrary: c)
  case Nil
  then show ?case
    by (simp add: add_counters_def counters_of_def sessions_with_def endpoints_with_def)
next
  case (Cons s ss)
  then show ?case by (simp only: fold_simps count_session_add)
qed

lemma fold_count_endpoint:
  "fold count_endpoint es c = add_counters (counters_of [] es) c"
proof (induction es arbitrary: c)
  case Nil
  then show ?case
    by (simp add: add_counters_def counters_of_def sessions_with_def endpoints_with_def)
next
  case (Cons e es)
  then show ?case by (simp only: fold_simps count_endpoint_add)
qed

lemma snapshot_counters: "snap_counters (snapshot_of ss es) = counters_of ss es"
  by (simp add: snapshot_of_def fold_count_session fold_count_endpoint add_counters_def
      counters_of_def zero_counters_def sessions_with_def endpoints_with_def)

lemma sessions_with_total:
  "sessions_with Session_pending ss + sessions_with Session_connected ss
    + sessions_with Session_failed ss + sessions_with Session_disconnected ss = length ss"
proof (induction ss)
  case Nil
  then show ?case by (simp add: sessions_with_def)
next
  case (Cons s ss)
  then show ?case by (cases "ss_status s") (simp_all add: sessions_with_def)
qed

lemma endpoints_with_total:
  "endpoints_with Endpoint_pending es + endpoints_with Endpoint_active es
    + endpoints_with Endpoint_failed es + endpoints_with Endpoint_closed es = length es"
proof (induction es)
  case Nil
  then show ?case by (simp add: endpoints_with_def)
next
  case (Cons e es)
  then show ?case by (cases "es_status e") (simp_all add: endpoints_with_def)
qed

lemma counters_of_mset:
  assumes "mset ss = mset ss'" and "mset es = mset es'"
  shows "counters_of ss es = counters_of ss' es'"
proof -
  have "length (filter P ss) = length (filter P ss')" for P
    using arg_cong [OF assms(1), of "\<lambda>M. size (filter_mset P M)"]
    by (metis mset_filter size_mset)
  moreover have "length (filter P es) = length (filter P es')" for P
    using arg_cong [OF assms(2), of "\<lambda>M. size (filter_mset P M)"]
    by (metis mset_filter size_mset)
  ultimately show ?thesis by (simp add: counters_of_def sessions_with_def endpoints_with_def)
qed

lemma monitor_sessions_inj:
  assumes "monitor_ok m"
  shows "inj_on ss_session_id (set (map snd (ms_sessions m)))"
proof -
  have "ss_session_id (snd p) = fst p" if "p \<in> set (ms_sessions m)" for p
    using assms that by (auto simp: monitor_ok_def list_all_iff session_ok_def)
  moreover have "inj_on fst (set (ms_sessions m))"
    using assms by (simp add: monitor_ok_def distinct_map)
  ultimately show ?thesis by (auto simp: inj_on_def)
qed

lemma monitor_endpoints_inj:
  assumes "monitor_ok m"
  shows "inj_on endpoint_order (set (map snd (ms_endpoints m)))"
proof -
  have "fst p = endpoint_key (es_session_id (snd p)) (es_descriptor (snd p))"
    if "p \<in> set (ms_endpoints m)" for p
    using assms that by (auto simp: monitor_ok_def list_all_iff endpoint_ok_def)
  moreover have "inj_on fst (set (ms_endpoints m))"
    using assms by (simp add: monitor_ok_def distinct_map)
  ultimately show ?thesis
    by (auto simp: inj_on_def endpoint_order_def)
qed

text \<open>
  The snapshot is determined by the monitor's contents: in a well-formed state, whatever
  the order in which the two \<^verbatim>\<open>range\<close> loops visit the maps, the sorted sessions, the sorted endpoints
  and the counters are the same.
\<close>

theorem snapshot_any_order:
  assumes "monitor_ok m" and "mset ss = mset (map snd (ms_sessions m))"
    and "mset es = mset (map snd (ms_endpoints m))"
  shows "snapshot_of ss es = snapshot m"
proof -
  have "set ss = set (map snd (ms_sessions m))" "set es = set (map snd (ms_endpoints m))"
    using assms(2,3) by (metis set_mset_mset)+
  then have "inj_on ss_session_id (set ss)" "inj_on endpoint_order (set es)"
    using monitor_sessions_inj [OF assms(1)] monitor_endpoints_inj [OF assms(1)] by simp_all
  then have "sort_key ss_session_id ss = sort_key ss_session_id (map snd (ms_sessions m))"
    "sort_key endpoint_order es = sort_key endpoint_order (map snd (ms_endpoints m))"
    using assms(2,3) by (simp_all only: sort_key_eq_sort_key)
  moreover have "snap_counters (snapshot_of ss es) = snap_counters (snapshot m)"
    unfolding snapshot_def snapshot_counters using assms(2,3) by (rule counters_of_mset)
  ultimately show ?thesis by (simp add: snapshot_def snapshot_of_def)
qed

theorem snapshot_any_order_witness:
  "let m = run_ops [(Op_pending ''2'' ''a'', 1), (Op_pending ''1'' ''b'', 2),
       (Op_endpoint ''2'' ''x'' Endpoint_active [], 3), (Op_endpoint ''1'' ''y'' Endpoint_failed ''e'', 4)]
       new_monitor_state
   in snapshot_of (rev (map snd (ms_sessions m))) (rev (map snd (ms_endpoints m))) = snapshot m
     \<and> map ss_session_id (snap_sessions (snapshot m)) = [''1'', ''2'']"
proof -
  let ?m = "run_ops [(Op_pending ''2'' ''a'', 1), (Op_pending ''1'' ''b'', 2),
       (Op_endpoint ''2'' ''x'' Endpoint_active [], 3), (Op_endpoint ''1'' ''y'' Endpoint_failed ''e'', 4)]
       new_monitor_state"
  have ok: "monitor_ok ?m" by (rule run_ops_ok [OF new_monitor_ok]) simp
  have "map ss_session_id (snap_sessions (snapshot ?m)) = [''1'', ''2'']" by code_simp
  with snapshot_any_order [OF ok, of "rev (map snd (ms_sessions ?m))" "rev (map snd (ms_endpoints ?m))"]
  show ?thesis by simp
qed

text \<open>
  The counters of a snapshot count: each is the number of listed sessions or endpoints with
  its status, so together they account for every session and every endpoint exactly once.
\<close>

theorem snapshot_counters_count:
  "let snap = snapshot m; c = snap_counters snap
   in c = counters_of (snap_sessions snap) (snap_endpoints snap)
     \<and> pending_sessions c + connected_sessions c + failed_sessions c + disconnected_sessions c
       = length (ms_sessions m)
     \<and> pending_endpoints c + active_endpoints c + failed_endpoints c + closed_endpoints c
       = length (ms_endpoints m)"
proof -
  have "counters_of (map snd (ms_sessions m)) (map snd (ms_endpoints m))
      = counters_of (snap_sessions (snapshot m)) (snap_endpoints (snapshot m))"
    by (rule counters_of_mset) (simp_all add: snapshot_def snapshot_of_def)
  then show ?thesis
    using sessions_with_total [of "map snd (ms_sessions m)"]
      endpoints_with_total [of "map snd (ms_endpoints m)"]
    by (simp add: snapshot_def snapshot_counters Let_def) (simp add: counters_of_def)
qed

end
