(* ===== verification/Telemetry.thy ===== *)
theory Telemetry
  imports Otel Monitor_Facts
begin

text \<open>
  \<^verbatim>\<open>server/monitor_state.go\<close>, lines 224 to 298: the server's wrappers, which update the
  monitor and, when telemetry is enabled, report the change and a fresh snapshot to the
  publisher. The times \<open>now\<close>, \<open>now2\<close> and \<open>now3\<close> are the successive readings of the clock
  (the monitor's, the wrapper's own and the publisher's).
\<close>

record telemetry =
  tel_monitor :: monitor_state
  tel_otel :: "publisher option"

definition with_otel :: "(publisher \<Rightarrow> publisher) \<Rightarrow> telemetry \<Rightarrow> telemetry" where
  "with_otel f s = s\<lparr>tel_otel := map_option f (tel_otel s)\<rparr>"

definition srv_mark_session_pending ::
    "string \<Rightarrow> string \<Rightarrow> time \<Rightarrow> time \<Rightarrow> time \<Rightarrow> telemetry \<Rightarrow> telemetry" where
  "srv_mark_session_pending sid addr now now2 now3 s =
     (let s = s\<lparr>tel_monitor := mark_session_pending sid addr now (tel_monitor s)\<rparr>
      in with_otel
           (\<lambda>p. update_snapshot (snapshot (tel_monitor s))
                  (on_session_status sid Session_pending [] addr now2 now3 p)) s)"

definition find_session :: "string \<Rightarrow> monitor_snapshot \<Rightarrow> session_snapshot option" where
  "find_session sid snap = find (\<lambda>s. ss_session_id s = sid) (snap_sessions snap)"

definition srv_mark_session_connected ::
    "string \<Rightarrow> time \<Rightarrow> time \<Rightarrow> time \<Rightarrow> telemetry \<Rightarrow> telemetry" where
  "srv_mark_session_connected sid now now2 now3 s =
     (let s = s\<lparr>tel_monitor := mark_session_connected sid now (tel_monitor s)\<rparr>
      in with_otel
           (\<lambda>p. let snap = snapshot (tel_monitor s);
                     started = (case find_session sid snap of
                                  None \<Rightarrow> now2 | Some sess \<Rightarrow> ss_started_at sess)
                 in update_snapshot snap
                      (on_session_status sid Session_connected [] [] started now3 p)) s)"

definition srv_mark_session_failed ::
    "string \<Rightarrow> string \<Rightarrow> time \<Rightarrow> time \<Rightarrow> time \<Rightarrow> telemetry \<Rightarrow> telemetry" where
  "srv_mark_session_failed sid message now now2 now3 s =
     (let s = s\<lparr>tel_monitor := mark_session_failed sid message now (tel_monitor s)\<rparr>
      in with_otel
           (\<lambda>p. let snap = snapshot (tel_monitor s);
                     (started, addr) = (case find_session sid snap of
                                  None \<Rightarrow> (now2, [])
                                | Some sess \<Rightarrow> (ss_started_at sess, ss_remote_addr sess))
                 in update_snapshot snap
                      (on_session_status sid Session_failed message addr started now3 p)) s)"

definition srv_mark_session_disconnected ::
    "string \<Rightarrow> time \<Rightarrow> time \<Rightarrow> time \<Rightarrow> telemetry \<Rightarrow> telemetry" where
  "srv_mark_session_disconnected sid now now2 now3 s =
     (let s = s\<lparr>tel_monitor := mark_session_disconnected sid now (tel_monitor s)\<rparr>
      in with_otel
           (\<lambda>p. update_snapshot (snapshot (tel_monitor s))
                  (on_session_status sid Session_disconnected [] [] now2 now3 p)) s)"

fun status_of_state :: "endpoint_state \<Rightarrow> endpoint_status" where
  "status_of_state Endpoint_state_pending = Endpoint_pending"
| "status_of_state Endpoint_state_active = Endpoint_active"
| "status_of_state Endpoint_state_failed = Endpoint_failed"
| "status_of_state Endpoint_state_closed = Endpoint_closed"

definition on_endpoint_state_change ::
    "endpoint_state_change \<Rightarrow> time \<Rightarrow> time \<Rightarrow> telemetry \<Rightarrow> telemetry" where
  "on_endpoint_state_change ch now now2 s =
     (let st = status_of_state (ec_state ch);
          s = s\<lparr>tel_monitor := update_endpoint (ec_session_id ch) (ec_descriptor ch) st
                  (ec_error ch) now (tel_monitor s)\<rparr>
      in with_otel
           (\<lambda>p. update_snapshot (snapshot (tel_monitor s))
                  (on_endpoint_status (ec_session_id ch) (ec_descriptor ch) st (ec_error ch) now2 p)) s)"

definition srv_on_stream_event :: "stream_event \<Rightarrow> telemetry \<Rightarrow> telemetry" where
  "srv_on_stream_event ev s = with_otel (on_stream_event ev) s"

subsection \<open>The gauges follow the monitor\<close>

definition in_sync :: "telemetry \<Rightarrow> bool" where
  "in_sync s \<longleftrightarrow>
     (case tel_otel s of None \<Rightarrow> True | Some p \<Rightarrow> last_snapshot p = snapshot (tel_monitor s))"

lemmas srv_defs =
  srv_mark_session_pending_def srv_mark_session_connected_def srv_mark_session_failed_def
  srv_mark_session_disconnected_def on_endpoint_state_change_def with_otel_def Let_def

lemma last_snapshot_update [simp]: "last_snapshot (update_snapshot snap p) = snap"
  by (simp add: update_snapshot_def)

lemma in_sync_sessions:
  "in_sync (srv_mark_session_pending sid addr now now2 now3 s)"
  "in_sync (srv_mark_session_connected sid now now2 now3 s)"
  "in_sync (srv_mark_session_failed sid msg now now2 now3 s)"
  "in_sync (srv_mark_session_disconnected sid now now2 now3 s)"
  "in_sync (on_endpoint_state_change ch now now2 s)"
  by (simp_all add: in_sync_def srv_defs split: option.splits prod.splits)

lemma last_snapshot_emit [simp]:
  "last_snapshot (emit b x p) = last_snapshot p" "last_snapshot (trace y p) = last_snapshot p"
  by (simp_all add: emit_def trace_def)

lemma in_sync_stream: "in_sync s \<Longrightarrow> in_sync (srv_on_stream_event ev s)"
  by (auto simp: in_sync_def srv_on_stream_event_def with_otel_def on_stream_event_def Let_def
      split: option.splits stream_state.splits)

subsection \<open>What the wrappers do to the monitor\<close>

lemma srv_monitor [simp]:
  "tel_monitor (srv_mark_session_pending sid addr now now2 now3 s)
     = apply_op (Op_pending sid addr) now (tel_monitor s)"
  "tel_monitor (srv_mark_session_connected sid now now2 now3 s)
     = apply_op (Op_connected sid) now (tel_monitor s)"
  "tel_monitor (srv_mark_session_failed sid msg now now2 now3 s)
     = apply_op (Op_failed sid msg) now (tel_monitor s)"
  "tel_monitor (srv_mark_session_disconnected sid now now2 now3 s)
     = apply_op (Op_disconnected sid) now (tel_monitor s)"
  "tel_monitor (on_endpoint_state_change ch now now2 s)
     = apply_op (Op_endpoint (ec_session_id ch) (ec_descriptor ch)
         (status_of_state (ec_state ch)) (ec_error ch)) now (tel_monitor s)"
  "tel_monitor (srv_on_stream_event ev s) = tel_monitor s"
  by (simp_all add: srv_defs srv_on_stream_event_def)

lemma srv_otel_none [simp]:
  "tel_otel s = None \<Longrightarrow> tel_otel (srv_mark_session_pending sid addr now now2 now3 s) = None"
  "tel_otel s = None \<Longrightarrow> tel_otel (srv_mark_session_connected sid now now2 now3 s) = None"
  "tel_otel s = None \<Longrightarrow> tel_otel (srv_mark_session_failed sid msg now now2 now3 s) = None"
  "tel_otel s = None \<Longrightarrow> tel_otel (srv_mark_session_disconnected sid now now2 now3 s) = None"
  "tel_otel s = None \<Longrightarrow> tel_otel (on_endpoint_state_change ch now now2 s) = None"
  "tel_otel s = None \<Longrightarrow> tel_otel (srv_on_stream_event ev s) = None"
  by (simp_all add: srv_defs srv_on_stream_event_def)

subsection \<open>Runs of the server's wrappers\<close>

datatype srv_op =
    Srv_pending string string time time time
  | Srv_connected string time time time
  | Srv_failed string string time time time
  | Srv_disconnected string time time time
  | Srv_endpoint endpoint_state_change time time
  | Srv_stream stream_event

fun apply_srv :: "srv_op \<Rightarrow> telemetry \<Rightarrow> telemetry" where
  "apply_srv (Srv_pending sid addr t1 t2 t3) s = srv_mark_session_pending sid addr t1 t2 t3 s"
| "apply_srv (Srv_connected sid t1 t2 t3) s = srv_mark_session_connected sid t1 t2 t3 s"
| "apply_srv (Srv_failed sid msg t1 t2 t3) s = srv_mark_session_failed sid msg t1 t2 t3 s"
| "apply_srv (Srv_disconnected sid t1 t2 t3) s = srv_mark_session_disconnected sid t1 t2 t3 s"
| "apply_srv (Srv_endpoint ch t1 t2) s = on_endpoint_state_change ch t1 t2 s"
| "apply_srv (Srv_stream ev) s = srv_on_stream_event ev s"

definition run_srv :: "srv_op list \<Rightarrow> telemetry \<Rightarrow> telemetry" where
  "run_srv xs s = fold apply_srv xs s"

fun monitor_ops_of :: "srv_op \<Rightarrow> (monitor_op \<times> time) list" where
  "monitor_ops_of (Srv_pending sid addr t1 t2 t3) = [(Op_pending sid addr, t1)]"
| "monitor_ops_of (Srv_connected sid t1 t2 t3) = [(Op_connected sid, t1)]"
| "monitor_ops_of (Srv_failed sid msg t1 t2 t3) = [(Op_failed sid msg, t1)]"
| "monitor_ops_of (Srv_disconnected sid t1 t2 t3) = [(Op_disconnected sid, t1)]"
| "monitor_ops_of (Srv_endpoint ch t1 t2) =
     [(Op_endpoint (ec_session_id ch) (ec_descriptor ch) (status_of_state (ec_state ch)) (ec_error ch), t1)]"
| "monitor_ops_of (Srv_stream ev) = []"

lemma run_ops_append: "run_ops (xs @ ys) m = run_ops ys (run_ops xs m)"
  by (induction xs m rule: run_ops.induct) auto

lemma apply_srv_monitor: "tel_monitor (apply_srv x s) = run_ops (monitor_ops_of x) (tel_monitor s)"
  by (cases x) simp_all

lemma run_srv_monitor:
  "tel_monitor (run_srv xs s) = run_ops (concat (map monitor_ops_of xs)) (tel_monitor s)"
  unfolding run_srv_def
  by (induction xs arbitrary: s) (simp_all add: apply_srv_monitor run_ops_append)

lemma apply_srv_in_sync: "in_sync s \<Longrightarrow> in_sync (apply_srv x s)"
  by (cases x) (simp_all add: in_sync_sessions in_sync_stream)

lemma run_srv_in_sync: "in_sync s \<Longrightarrow> in_sync (run_srv xs s)"
  unfolding run_srv_def by (induction xs arbitrary: s) (simp_all add: apply_srv_in_sync)

lemma apply_srv_otel: "tel_otel (apply_srv x s) = None \<longleftrightarrow> tel_otel s = None"
  by (cases x) (simp_all add: srv_defs srv_on_stream_event_def)

lemma run_srv_otel: "tel_otel (run_srv xs s) = None \<longleftrightarrow> tel_otel s = None"
  unfolding run_srv_def by (induction xs arbitrary: s) (simp_all add: apply_srv_otel)

definition new_telemetry :: "bool \<Rightarrow> telemetry" where
  "new_telemetry otel_enabled =
     \<lparr>tel_monitor = new_monitor_state,
      tel_otel = (if otel_enabled then Some new_publisher else None)\<rparr>"

lemma new_telemetry_in_sync: "in_sync (new_telemetry b)"
  by (simp add: in_sync_def new_telemetry_def new_publisher_def empty_snapshot_def snapshot_def
      snapshot_of_def new_monitor_state_def zero_counters_def split: option.splits)

text \<open>
  The exported gauges are the monitor's counts. From the start of the server with telemetry
  enabled, after any sequence of the server's session, endpoint and stream reports (each
  finishing before the next), the eight values the gauge callback observes are the numbers of
  sessions and endpoints the monitor holds in each status, and the monitor itself has gone through
  exactly the monitor operations of those reports.
\<close>

theorem gauges_match_monitor:
  "let s = run_srv xs (new_telemetry True); m = tel_monitor s
   in m = run_ops (concat (map monitor_ops_of xs)) new_monitor_state
     \<and> (\<exists>p. tel_otel s = Some p \<and>
         observe_gauges p =
           (map (\<lambda>st. (st, sessions_with st (map snd (ms_sessions m))))
              [Session_pending, Session_connected, Session_failed, Session_disconnected],
            map (\<lambda>st. (st, endpoints_with st (map snd (ms_endpoints m))))
              [Endpoint_pending, Endpoint_active, Endpoint_failed, Endpoint_closed]))"
proof -
  let ?s = "run_srv xs (new_telemetry True)"
  obtain p where p: "tel_otel ?s = Some p"
    using run_srv_otel [of xs "new_telemetry True"] by (auto simp: new_telemetry_def)
  moreover have "in_sync ?s" by (rule run_srv_in_sync [OF new_telemetry_in_sync])
  ultimately have "last_snapshot p = snapshot (tel_monitor ?s)" by (simp add: in_sync_def)
  then show ?thesis
    using p by (simp add: Let_def run_srv_monitor new_telemetry_def observe_gauges_def snapshot_def
        snapshot_counters counters_of_def)
qed

subsection \<open>The publisher's tables\<close>

lemma started_emit [simp]:
  "session_started_at (emit b x p) = session_started_at p"
  "session_started_at (trace y p) = session_started_at p"
  "session_started_at (update_snapshot snap p) = session_started_at p"
  "stream_open_at (emit b x p) = stream_open_at p" "stream_open_at (trace y p) = stream_open_at p"
  by (simp_all add: emit_def trace_def update_snapshot_def)

lemma metrics_emit [simp]:
  "metrics (emit b x p) = metrics p @ (if b then [x] else [])"
  "metrics (trace y p) = metrics p" "metrics (update_snapshot snap p) = metrics p"
  "has_session_duration (trace y p) = has_session_duration p"
  "has_stream_duration (trace y p) = has_stream_duration p"
  "has_session_failure (emit b x p) = has_session_failure p"
  by (simp_all add: emit_def trace_def update_snapshot_def)

lemma stream_event_other:
  assumes "stream_key e \<noteq> k"
  shows "map_get (stream_open_at (on_stream_event e p)) k = map_get (stream_open_at p) k"
    and "has_stream_duration (on_stream_event e p) = has_stream_duration p"
  using assms by (auto simp: on_stream_event_def Let_def emit_def trace_def split: stream_state.splits option.splits)

lemma stream_events_other:
  assumes "\<forall>e \<in> set es. stream_key e \<noteq> k"
  shows "map_get (stream_open_at (fold on_stream_event es p)) k = map_get (stream_open_at p) k
    \<and> has_stream_duration (fold on_stream_event es p) = has_stream_duration p"
  using assms by (induction es arbitrary: p) (auto simp: stream_event_other)

lemma stream_opened:
  "se_state ev = Stream_open \<Longrightarrow>
     map_get (stream_open_at (on_stream_event ev p)) (stream_key ev) = Some (se_time ev)
     \<and> has_stream_duration (on_stream_event ev p) = has_stream_duration p"
  by (simp add: on_stream_event_def trace_def Let_def)

lemma stream_closed:
  assumes "se_state ev = Stream_closed" and "has_stream_duration p"
  shows "metrics (on_stream_event ev p) = metrics p @
      (case map_get (stream_open_at p) (stream_key ev) of None \<Rightarrow> []
       | Some t0 \<Rightarrow> [Stream_duration (since (se_time ev) t0) (endpoint_mode (se_descriptor ev)) (se_protocol ev)])"
    and "map_get (stream_open_at (on_stream_event ev p)) (stream_key ev) = None"
    and "has_stream_duration (on_stream_event ev p)"
  using assms by (auto simp: on_stream_event_def Let_def trace_def emit_def split: option.splits)

text \<open>
  A stream is measured once. An open event followed, after any events of other streams, by the
  closed event of the same stream appends exactly one duration, the difference of the two events'
  times, and drops the stream's start time; a second closed event appends nothing.
\<close>

theorem stream_measured_once:
  assumes "stream_key op = stream_key cl"
    and "se_state op = Stream_open" and "se_state cl = Stream_closed"
    and "\<forall>e \<in> set es. stream_key e \<noteq> stream_key cl" and "has_stream_duration p"
  shows "let p1 = fold on_stream_event es (on_stream_event op p); p2 = on_stream_event cl p1
     in metrics p2 = metrics p1 @ [Stream_duration (since (se_time cl) (se_time op))
             (endpoint_mode (se_descriptor cl)) (se_protocol cl)]
       \<and> map_get (stream_open_at p2) (stream_key cl) = None
       \<and> metrics (on_stream_event cl p2) = metrics p2"
proof -
  let ?p1 = "fold on_stream_event es (on_stream_event op p)"
  have "map_get (stream_open_at ?p1) (stream_key cl) = Some (se_time op) \<and> has_stream_duration ?p1"
    using stream_events_other [OF assms(4), of "on_stream_event op p"] stream_opened [OF assms(2), of p]
      assms(1,5) by simp
  then show ?thesis
    using stream_closed [OF assms(3), of ?p1] stream_closed(1) [OF assms(3), of "on_stream_event cl ?p1"]
    by (simp add: Let_def)
qed

theorem stream_measured_once_witness:
  "let ev = \<lambda>i st t. \<lparr>se_session_id = ''1'', se_descriptor = ''R:80=>80'', se_protocol = ''tcp'',
        se_conn_id = i, se_state = st, se_error = [], se_time = t\<rparr>;
       p1 = fold on_stream_event [ev 2 Stream_open 6, ev 2 Stream_closed 7]
              (on_stream_event (ev 1 Stream_open 5) new_publisher)
   in metrics (on_stream_event (ev 1 Stream_closed 9) p1)
        = [Stream_duration 1 ''tcp'' ''tcp'', Stream_duration 4 ''tcp'' ''tcp'']"
proof -
  let ?ev = "\<lambda>i st t. \<lparr>se_session_id = ''1'', se_descriptor = ''R:80=>80'', se_protocol = ''tcp'',
        se_conn_id = i, se_state = st, se_error = [], se_time = t\<rparr>"
  let ?es = "[?ev 2 Stream_open 6, ?ev 2 Stream_closed 7]"
  have "stream_key (?ev 1 Stream_open 5) = stream_key (?ev 1 Stream_closed 9)"
    "\<forall>e \<in> set ?es. stream_key e \<noteq> stream_key (?ev 1 Stream_closed 9)"
    "has_stream_duration new_publisher"
    "metrics (fold on_stream_event ?es (on_stream_event (?ev 1 Stream_open 5) new_publisher))
       = [Stream_duration 1 ''tcp'' ''tcp'']"
    "endpoint_mode ''R:80=>80'' = ''tcp''" "since 9 5 = 4" by code_simp+
  with stream_measured_once [of "?ev 1 Stream_open 5" "?ev 1 Stream_closed 9" ?es new_publisher]
  show ?thesis by (simp add: Let_def)
qed
text \<open>
  What ends in an error stays in the publisher's tables. After a session is reported pending and
  then failed its start time is still stored, and after a stream is reported open and then in
  error so is its open time; a report that the session disconnected, or that the stream
  closed, would remove it, but the server sends neither after these.
\<close>

theorem failed_starts_stay:
  "map_get (session_started_at
      (on_session_status sid Session_failed msg addr' t1 now' (on_session_status sid Session_pending err addr t0 now p))) sid
     = Some t0
   \<and> map_get (stream_open_at
      (on_stream_event (ev\<lparr>se_state := Stream_error, se_error := msg\<rparr>)
        (on_stream_event (ev\<lparr>se_state := Stream_open\<rparr>) p))) (stream_key ev)
     = Some (se_time ev)"
  by (simp_all add: on_session_status_def on_stream_event_def trace_def emit_def Let_def stream_key_def)

subsection \<open>The receiver of endpoint reports\<close>

text \<open>
  The interface between a tunnel, which reports endpoint states through a callback, and
  whoever keeps them. A report is delivered with the moments the receiver reads from its clock;
  the law says that the status under the report's key becomes the reported one and no other
  status changes.
\<close>

definition change_key :: "endpoint_state_change \<Rightarrow> string" where
  "change_key ch = endpoint_key (ec_session_id ch) (ec_descriptor ch)"

fun deliver_all :: "('m \<Rightarrow> endpoint_state_change \<Rightarrow> 's \<Rightarrow> 's) \<Rightarrow> ('m \<times> endpoint_state_change) list \<Rightarrow> 's \<Rightarrow> 's" where
  "deliver_all f [] s = s"
| "deliver_all f ((m, ch) # xs) s = deliver_all f xs (f m ch s)"

lemma deliver_all_append: "deliver_all f (xs @ ys) s = deliver_all f ys (deliver_all f xs s)"
  by (induction f xs s rule: deliver_all.induct) simp_all

definition last_change :: "string \<Rightarrow> endpoint_state_change list \<Rightarrow> endpoint_state_change option" where
  "last_change k chs = find (\<lambda>ch. change_key ch = k) (rev chs)"

lemma last_change_simps [simp]:
  "last_change k [] = None"
  "last_change k (chs @ [ch]) = (if change_key ch = k then Some ch else last_change k chs)"
  by (simp_all add: last_change_def)

locale endpoint_sink =
  fixes deliver :: "'m \<Rightarrow> endpoint_state_change \<Rightarrow> 's \<Rightarrow> 's"
    and status :: "'s \<Rightarrow> string \<Rightarrow> endpoint_status option"
  assumes status_deliver:
    "status (deliver m ch s) k =
       (if k = change_key ch then Some (status_of_state (ec_state ch)) else status s k)"
begin

lemma status_deliver_all:
  "status (deliver_all deliver xs s) k =
     (case last_change k (map snd xs) of
        None \<Rightarrow> status s k | Some ch \<Rightarrow> Some (status_of_state (ec_state ch)))"
proof (induction xs rule: rev_induct)
  case Nil
  then show ?case by simp
next
  case (snoc x xs)
  then show ?case by (cases x) (auto simp: deliver_all_append status_deliver)
qed

end

definition server_deliver :: "time \<times> time \<Rightarrow> endpoint_state_change \<Rightarrow> telemetry \<Rightarrow> telemetry" where
  "server_deliver m ch s = on_endpoint_state_change ch (fst m) (snd m) s"

definition server_endpoint_status :: "telemetry \<Rightarrow> string \<Rightarrow> endpoint_status option" where
  "server_endpoint_status s k = endpoint_status_of (tel_monitor s) k"

interpretation server_sink: endpoint_sink server_deliver server_endpoint_status
  by unfold_locales
    (auto simp: server_deliver_def server_endpoint_status_def endpoint_status_of_def
      change_key_def monitor_op_defs)

end
