(* ===== verification/Proxies.thy ===== *)
theory Proxies
  imports Os_Env Telemetry
begin

text \<open>
  \<^verbatim>\<open>share/tunnel/tunnel_in_proxy.go\<close> and \<^verbatim>\<open>Tunnel.BindRemotes\<close> of \<^verbatim>\<open>share/tunnel/tunnel.go\<close>: the
  inbound half of a tunnel. A proxy listens for one remote and reports the state of its
  endpoint. The world is the trace of system calls and the list of the reports, in order. A
  listening error is a value; its text, which \<^verbatim>\<open>Logger.Errorf\<close> renders, is the
  parameter \<open>err_text\<close>.
\<close>

datatype listen_error =
    Mkdir_failed string
  | Cleanup_failed string
  | Resolve_unix_failed string
  | Unix_failed string
  | Chmod_failed string
  | Resolve_failed string
  | Tcp_failed string
  | Udp_resolve_failed string
  | Udp_listen_failed string
  | Unknown_local_proto

datatype listener = No_listener | Tcp_listener nat | Unix_listener nat | Udp_listener nat

record proxy =
  px_id :: int
  px_count :: int
  px_remote :: remote
  px_session_id :: string
  px_on_state :: bool
  px_on_stream :: bool
  px_listener :: listener
  px_active :: bool

record world =
  w_trace :: os_trace
  w_states :: "endpoint_state_change list"

subsection \<open>Listening\<close>

text \<open>\<^verbatim>\<open>removeUnixSocketIfExists\<close>; None is success.\<close>

definition remove_unix_socket_if_exists :: "os \<Rightarrow> string \<Rightarrow> os_trace \<Rightarrow> string option \<times> os_trace" where
  "remove_unix_socket_if_exists os path tr =
     (let (r, tr) = sys os (Stat path) tr
      in case r of
           Not_exist \<Rightarrow> (None, tr)
         | Failed e \<Rightarrow> (Some e, tr)
         | Is_socket \<Rightarrow> (let (r, tr) = sys os (Remove_file path) tr in (error_of r, tr))
         | _ \<Rightarrow> (Some (''path exists and is not a unix socket: '' @ path), tr))"

definition listen_unix :: "os \<Rightarrow> string \<Rightarrow> os_trace \<Rightarrow> (listen_error + listener) \<times> os_trace" where
  "listen_unix os path tr =
     (let (r, tr) = sys os (Mkdir_all (path_dir path)) tr
      in case error_of r of
           Some e \<Rightarrow> (Inl (Mkdir_failed e), tr)
         | None \<Rightarrow>
      (let (r, tr) = remove_unix_socket_if_exists os path tr
       in case r of
            Some e \<Rightarrow> (Inl (Cleanup_failed e), tr)
          | None \<Rightarrow>
      (let (r, tr) = sys os (Resolve_addr ''unix'' path) tr
       in case error_of r of
            Some e \<Rightarrow> (Inl (Resolve_unix_failed e), tr)
          | None \<Rightarrow>
      (let h = length tr; (r, tr) = sys os (Listen_on ''unix'' path) tr
       in case error_of r of
            Some e \<Rightarrow> (Inl (Unix_failed e), tr)
          | None \<Rightarrow>
      (let (r, tr) = sys os (Chmod path) tr
       in case error_of r of
            Some e \<Rightarrow> (let (_, tr) = sys os (Close_listener h) tr in (Inl (Chmod_failed e), tr))
          | None \<Rightarrow> (Inr (Unix_listener h), tr))))))"

definition listen_tcp :: "os \<Rightarrow> string \<Rightarrow> os_trace \<Rightarrow> (listen_error + listener) \<times> os_trace" where
  "listen_tcp os addr tr =
     (let (r, tr) = sys os (Resolve_addr ''tcp'' addr) tr
      in case error_of r of
           Some e \<Rightarrow> (Inl (Resolve_failed e), tr)
         | None \<Rightarrow>
      (let h = length tr; (r, tr) = sys os (Listen_on ''tcp'' addr) tr
       in case error_of r of
            Some e \<Rightarrow> (Inl (Tcp_failed e), tr)
          | None \<Rightarrow> (Inr (Tcp_listener h), tr)))"

definition listen_udp :: "os \<Rightarrow> string \<Rightarrow> os_trace \<Rightarrow> (listen_error + listener) \<times> os_trace" where
  "listen_udp os addr tr =
     (let (r, tr) = sys os (Resolve_addr ''udp'' addr) tr
      in case error_of r of
           Some e \<Rightarrow> (Inl (Udp_resolve_failed e), tr)
         | None \<Rightarrow>
      (let h = length tr; (r, tr) = sys os (Listen_on ''udp'' addr) tr
       in case error_of r of
            Some e \<Rightarrow> (Inl (Udp_listen_failed e), tr)
          | None \<Rightarrow> (Inr (Udp_listener h), tr)))"

definition proxy_listen :: "os \<Rightarrow> remote \<Rightarrow> os_trace \<Rightarrow> (listen_error + listener) \<times> os_trace" where
  "proxy_listen os r tr =
     (if stdio r then (Inr No_listener, tr)
      else if is_uds r \<and> uds_mode r = uds_mode_pair then (Inr No_listener, tr)
      else if is_uds r \<and> uds_mode r = uds_mode_listen then listen_unix os (uds_socket_path r) tr
      else if local_proto r = ''tcp'' then listen_tcp os (local_host r @ '':'' @ local_port r) tr
      else if local_proto r = ''udp'' then listen_udp os (local_addr r) tr
      else (Inl Unknown_local_proto, tr))"

subsection \<open>The proxy\<close>

definition emit_endpoint_state :: "proxy \<Rightarrow> endpoint_state \<Rightarrow> string \<Rightarrow> world \<Rightarrow> world" where
  "emit_endpoint_state p st msg w =
     (if \<not> px_on_state p then w
      else w\<lparr>w_states := w_states w @
        [\<lparr>ec_session_id = px_session_id p, ec_descriptor = remote_string (px_remote p),
          ec_state = st, ec_error = msg\<rparr>]\<rparr>)"

definition new_proxy ::
    "os \<Rightarrow> (remote \<Rightarrow> listen_error \<Rightarrow> string) \<Rightarrow> int \<Rightarrow> remote \<Rightarrow> string \<Rightarrow> bool \<Rightarrow> bool \<Rightarrow> world \<Rightarrow>
     (listen_error + proxy) \<times> world" where
  "new_proxy os err_text index r sid on_state on_stream w =
     (let p = \<lparr>px_id = index + 1, px_count = 0, px_remote = r, px_session_id = sid,
               px_on_state = on_state, px_on_stream = on_stream, px_listener = No_listener,
               px_active = False\<rparr>;
          w = emit_endpoint_state p Endpoint_state_pending [] w;
          (res, tr) = proxy_listen os r (w_trace w);
          w = w\<lparr>w_trace := tr\<rparr>
      in case res of
           Inl e \<Rightarrow> (Inl e, emit_endpoint_state p Endpoint_state_failed (err_text r e) w)
         | Inr l \<Rightarrow>
             (let p = p\<lparr>px_listener := l, px_active := True\<rparr>
              in (Inr p, emit_endpoint_state p Endpoint_state_active [] w)))"

text \<open>
  The end of \<^verbatim>\<open>Proxy.Run\<close>: \<open>cancelled\<close> tells whether the context was cancelled or the proxy
  stopped by an error of its own. A TCP listener is closed by the goroutine that watches the
  context, so only in the first case; a Unix listener by that goroutine and by the deferred
  function, which also removes the socket file; a UDP socket by the deferred function.
\<close>

definition do_call :: "os \<Rightarrow> os_call \<Rightarrow> world \<Rightarrow> world" where
  "do_call os c w = w\<lparr>w_trace := snd (sys os c (w_trace w))\<rparr>"

definition proxy_stop :: "os \<Rightarrow> bool \<Rightarrow> proxy \<Rightarrow> world \<Rightarrow> world" where
  "proxy_stop os cancelled p w =
     (let w = (case px_listener p of
                 No_listener \<Rightarrow> w
               | Tcp_listener h \<Rightarrow> if cancelled then do_call os (Close_listener h) w else w
               | Unix_listener h \<Rightarrow>
                   (let w = (if cancelled then do_call os (Close_listener h) w else w)
                    in do_call os (Remove_file (uds_socket_path (px_remote p)))
                         (do_call os (Close_listener h) w))
               | Udp_listener h \<Rightarrow> do_call os (Close_listener h) w)
      in if px_active p then emit_endpoint_state p Endpoint_state_closed [] w else w)"

subsection \<open>Binding remotes\<close>

datatype bind_error = No_remotes | Inbound_blocked | Proxy_failed listen_error

text \<open>The loop that makes the proxies; the number is \<^verbatim>\<open>Tunnel.proxyCount\<close>.\<close>

fun new_proxies ::
    "os \<Rightarrow> (remote \<Rightarrow> listen_error \<Rightarrow> string) \<Rightarrow> string \<Rightarrow> bool \<Rightarrow> bool \<Rightarrow> remote list \<Rightarrow> int \<Rightarrow> world \<Rightarrow>
     (listen_error + proxy list) \<times> int \<times> world" where
  "new_proxies os err_text sid on_state on_stream [] n w = (Inr [], n, w)"
| "new_proxies os err_text sid on_state on_stream (r # rs) n w =
     (case new_proxy os err_text n r sid on_state on_stream w of
        (Inl e, w) \<Rightarrow> (Inl e, n, w)
      | (Inr p, w) \<Rightarrow>
          (case new_proxies os err_text sid on_state on_stream rs (n + 1) w of
             (Inl e, n, w) \<Rightarrow> (Inl e, n, w)
           | (Inr ps, n, w) \<Rightarrow> (Inr (p # ps), n, w)))"

text \<open>
  \<^verbatim>\<open>BindRemotes\<close> up to the point where its proxies run, and what happens when they have all
  stopped: the list gives the order in which they stop and which of them were cancelled.
\<close>

definition bind_remotes_start ::
    "os \<Rightarrow> (remote \<Rightarrow> listen_error \<Rightarrow> string) \<Rightarrow> string \<Rightarrow> bool \<Rightarrow> bool \<Rightarrow> bool \<Rightarrow> remote list \<Rightarrow> int \<Rightarrow>
     world \<Rightarrow> (bind_error + proxy list) \<times> int \<times> world" where
  "bind_remotes_start os err_text sid on_state on_stream inbound rs n w =
     (if length rs = 0 then (Inl No_remotes, n, w)
      else if \<not> inbound then (Inl Inbound_blocked, n, w)
      else case new_proxies os err_text sid on_state on_stream rs n w of
             (Inl e, n, w) \<Rightarrow> (Inl (Proxy_failed e), n, w)
           | (Inr ps, n, w) \<Rightarrow> (Inr ps, n, w))"

fun stop_proxies :: "os \<Rightarrow> (bool \<times> proxy) list \<Rightarrow> world \<Rightarrow> world" where
  "stop_proxies os [] w = w"
| "stop_proxies os ((cancelled, p) # ps) w = stop_proxies os ps (proxy_stop os cancelled p w)"

subsection \<open>Listening opens one listener or none\<close>

fun listener_handles :: "listener \<Rightarrow> nat list" where
  "listener_handles No_listener = []"
| "listener_handles (Tcp_listener h) = [h]"
| "listener_handles (Unix_listener h) = [h]"
| "listener_handles (Udp_listener h) = [h]"

definition result_handles :: "'e + listener \<Rightarrow> nat list" where
  "result_handles res = (case res of Inl _ \<Rightarrow> [] | Inr l \<Rightarrow> listener_handles l)"

text \<open>Every removal of a file comes right after a check that found a socket there.\<close>

fun removes_checked :: "(os_call \<times> os_reply) option \<Rightarrow> os_trace \<Rightarrow> bool" where
  "removes_checked prev [] = True"
| "removes_checked prev ((c, r) # xs) =
     ((case c of Remove_file p \<Rightarrow> prev = Some (Stat p, Is_socket) | _ \<Rightarrow> True)
      \<and> removes_checked (Some (c, r)) xs)"

definition listen_ok :: "os_trace \<Rightarrow> ('e + listener) \<times> os_trace \<Rightarrow> bool" where
  "listen_ok tr x \<longleftrightarrow>
     (\<exists>ys. snd x = tr @ ys \<and> removes_checked None ys
        \<and> track_calls (length tr) ys (open_listeners tr) = open_listeners tr @ result_handles (fst x))"

lemma listen_tcp_ok: "listen_ok tr (listen_tcp os addr tr)"
  by (auto simp: listen_ok_def listen_tcp_def Let_def sys_def result_handles_def
      split: option.splits prod.splits)

lemma listen_udp_ok: "listen_ok tr (listen_udp os addr tr)"
  by (auto simp: listen_ok_def listen_udp_def Let_def sys_def result_handles_def
      split: option.splits prod.splits)

lemma remove_unix_socketE:
  assumes "remove_unix_socket_if_exists os path tr = (e, tr')"
  obtains (no_file) "tr' = tr @ [(Stat path, Not_exist)]" "e = None"
  | (socket) r where "tr' = tr @ [(Stat path, Is_socket), (Remove_file path, r)]" "e = error_of r"
  | (other) r where "tr' = tr @ [(Stat path, r)]" "e \<noteq> None"
  using assms by (auto simp: remove_unix_socket_if_exists_def sys_def Let_def split: os_reply.splits)

lemma listen_unix_ok: "listen_ok tr (listen_unix os path tr)"
proof -
  let ?t1 = "tr @ [(Mkdir_all (path_dir path), os tr (Mkdir_all (path_dir path)))]"
  obtain e tr' where rm: "remove_unix_socket_if_exists os path ?t1 = (e, tr')" by fastforce
  show ?thesis
    using rm
    by (cases rule: remove_unix_socketE)
      (auto simp: listen_ok_def listen_unix_def Let_def sys_def rm result_handles_def
        remove1_append remove1_idem split: option.splits prod.splits)
qed

lemma proxy_listen_ok: "listen_ok tr (proxy_listen os r tr)"
  using listen_tcp_ok listen_udp_ok listen_unix_ok
  by (auto simp: proxy_listen_def) (auto simp: listen_ok_def result_handles_def)


fun proxy_result_handles :: "'e + proxy \<Rightarrow> nat list" where
  "proxy_result_handles (Inl e) = []"
| "proxy_result_handles (Inr p) = listener_handles (px_listener p)"

definition ep_change :: "string \<Rightarrow> remote \<Rightarrow> endpoint_state \<Rightarrow> string \<Rightarrow> endpoint_state_change" where
  "ep_change sid r st msg =
     \<lparr>ec_session_id = sid, ec_descriptor = remote_string r, ec_state = st, ec_error = msg\<rparr>"

lemma emit_endpoint_state_simps [simp]:
  "w_trace (emit_endpoint_state p st msg w) = w_trace w"
  "w_states (emit_endpoint_state p st msg w) =
     w_states w @ (if px_on_state p then [ep_change (px_session_id p) (px_remote p) st msg] else [])"
  by (simp_all add: emit_endpoint_state_def ep_change_def)

lemma do_call_simps [simp]:
  "w_states (do_call os c w) = w_states w"
  "w_trace (do_call os c w) = w_trace w @ [(c, os (w_trace w) c)]"
  by (simp_all add: do_call_def sys_def Let_def)

lemma new_proxyE:
  assumes "new_proxy os et n r sid ons onst w = (res, w')"
  obtains (failed) e where "res = Inl e" "open_listeners (w_trace w') = open_listeners (w_trace w)"
      "w_states w' = w_states w @ (if ons then [ep_change sid r Endpoint_state_pending [],
         ep_change sid r Endpoint_state_failed (et r e)] else [])"
  | (active) p where "res = Inr p"
      "open_listeners (w_trace w') = open_listeners (w_trace w) @ listener_handles (px_listener p)"
      "w_states w' = w_states w @ (if ons then [ep_change sid r Endpoint_state_pending [],
         ep_change sid r Endpoint_state_active []] else [])"
      "px_remote p = r" "px_session_id p = sid" "px_on_state p = ons" "px_active p"
      "px_id p = n + 1" "px_count p = 0"
proof -
  obtain lr tr where l: "proxy_listen os r (w_trace w) = (lr, tr)" by fastforce
  have op: "open_listeners tr = open_listeners (w_trace w) @ result_handles lr"
    using proxy_listen_ok [of "w_trace w" os r] unfolding l by (auto simp: listen_ok_def)
  show thesis
  proof (cases lr)
    case (Inl e)
    show thesis
      by (rule failed [of e]) (use assms op in \<open>auto simp: new_proxy_def Let_def l Inl result_handles_def\<close>)
  next
    case (Inr h)
    show thesis
      by (rule active [of "projr res"])
        (use assms op in \<open>auto simp: new_proxy_def Let_def l Inr result_handles_def\<close>)
  qed
qed

definition proxy_handles :: "proxy list \<Rightarrow> nat list" where
  "proxy_handles ps = concat (map (\<lambda>p. listener_handles (px_listener p)) ps)"

lemma proxy_handles_simps [simp]:
  "proxy_handles [] = []" "proxy_handles (p # ps) = listener_handles (px_listener p) @ proxy_handles ps"
  by (simp_all add: proxy_handles_def)

definition bound_events :: "string \<Rightarrow> remote list \<Rightarrow> endpoint_state_change list" where
  "bound_events sid rs =
     concat (map (\<lambda>r. [ep_change sid r Endpoint_state_pending [], ep_change sid r Endpoint_state_active []]) rs)"

lemma bound_events_simps [simp]:
  "bound_events sid [] = []"
  "bound_events sid (r # rs) = ep_change sid r Endpoint_state_pending []
     # ep_change sid r Endpoint_state_active [] # bound_events sid rs"
  by (simp_all add: bound_events_def)

lemma new_proxies_ok:
  assumes "new_proxies os et sid ons onst rs n w = (Inr ps, n', w')"
  shows "open_listeners (w_trace w') = open_listeners (w_trace w) @ proxy_handles ps
    \<and> n' = n + int (length rs) \<and> map px_remote ps = rs
    \<and> map px_id ps = [n + 1..n + int (length rs)]
    \<and> (\<forall>p \<in> set ps. px_session_id p = sid \<and> px_on_state p = ons \<and> px_active p)
    \<and> w_states w' = w_states w @ (if ons then bound_events sid rs else [])"
  using assms
proof (induction rs arbitrary: ps n w)
  case Nil
  then show ?case by auto
next
  case (Cons r rs)
  obtain res w1 where np: "new_proxy os et n r sid ons onst w = (res, w1)" by fastforce
  obtain res' n1 w2 where nps: "new_proxies os et sid ons onst rs (n + 1) w1 = (res', n1, w2)"
    by (metis prod_cases3)
  from Cons.prems np nps obtain p ps' where res: "res = Inr p" "res' = Inr ps'" "ps = p # ps'" "n1 = n'" "w2 = w'"
    by (auto split: sum.splits)
  note IH = Cons.IH [OF nps [unfolded res]]
  have up: "[n + 1..n + int (length (r # rs))] = (n + 1) # [n + 1 + 1..n + 1 + int (length rs)]"
    using upto_rec1 [of "n + 1" "n + int (length (r # rs))"] by (simp add: ac_simps)
  from np show ?case
  proof (cases rule: new_proxyE)
    case (failed e)
    with res show ?thesis by simp
  next
    case (active p')
    with res have "p' = p" by simp
    with active IH show ?thesis using up by (simp add: res)
  qed
qed

lemma new_proxies_failed:
  assumes "new_proxies os et sid ons onst rs n w = (Inl e, n', w')"
  shows "\<exists>k ps w1. k < length rs
    \<and> new_proxies os et sid ons onst (take k rs) n w = (Inr ps, n', w1)
    \<and> new_proxy os et n' (rs ! k) sid ons onst w1 = (Inl e, w')"
  using assms
proof (induction rs arbitrary: n w)
  case Nil
  then show ?case by simp
next
  case (Cons r rs)
  obtain res w1 where np: "new_proxy os et n r sid ons onst w = (res, w1)" by fastforce
  show ?case
  proof (cases res)
    case (Inl e')
    with Cons.prems np have "e' = e" "n' = n" "w1 = w'" by simp_all
    with np Inl show ?thesis by (intro exI [of _ 0]) simp
  next
    case (Inr p)
    obtain res' n1 w2 where nps: "new_proxies os et sid ons onst rs (n + 1) w1 = (res', n1, w2)"
      by (metis prod_cases3)
    with Cons.prems np Inr have "res' = Inl e" "n1 = n'" "w2 = w'" by (auto split: sum.splits)
    from Cons.IH [OF nps [unfolded this]] obtain k ps w3 where k: "k < length rs"
      "new_proxies os et sid ons onst (take k rs) (n + 1) w1 = (Inr ps, n', w3)"
      "new_proxy os et n' (rs ! k) sid ons onst w3 = (Inl e, w')" by blast
    then show ?thesis
      by (intro exI [of _ "Suc k"] exI [of _ "p # ps"] exI [of _ w3]) (simp add: np Inr)
  qed
qed

lemma mset_remove_twice: "distinct xs \<Longrightarrow> mset xs - {#x, x#} = mset xs - {#x#}"
  by (cases "x \<in> set xs") (simp_all add: multiset_eq_iff distinct_count_atmost_1)

lemma open_after_stop:
  "mset (open_listeners (w_trace (proxy_stop os c p w))) =
     mset (open_listeners (w_trace w))
       - (if \<not> c \<and> (\<exists>h. px_listener p = Tcp_listener h) then {#}
          else mset (listener_handles (px_listener p)))"
  by (cases "px_listener p") (simp_all add: proxy_stop_def Let_def mset_remove1 mset_remove_twice)


text \<open>What a stopped proxy leaves: the listener of a TCP proxy that stopped by its own error.\<close>

fun leaked_handles :: "(bool \<times> proxy) list \<Rightarrow> nat list" where
  "leaked_handles [] = []"
| "leaked_handles ((c, p) # ps) =
     (if \<not> c \<and> (\<exists>h. px_listener p = Tcp_listener h) then listener_handles (px_listener p) else [])
     @ leaked_handles ps"

lemma open_after_stops:
  "mset (open_listeners (w_trace w)) = M + mset (proxy_handles (map snd ord)) \<Longrightarrow>
   mset (open_listeners (w_trace (stop_proxies os ord w))) = M + mset (leaked_handles ord)"
proof (induction ord arbitrary: M w rule: leaked_handles.induct)
  case 1
  then show ?case by simp
next
  case (2 c p ps)
  let ?L = "if \<not> c \<and> (\<exists>h. px_listener p = Tcp_listener h) then mset (listener_handles (px_listener p)) else {#}"
  have "mset (open_listeners (w_trace (proxy_stop os c p w))) = (M + ?L) + mset (proxy_handles (map snd ps))"
    using "2.prems" by (simp add: open_after_stop)
  from "2.IH" [OF this] show ?case by (simp add: ac_simps)
qed

lemma mset_proxy_handles_sum:
  "mset (proxy_handles ps) = (\<Sum>p \<in># mset ps. mset (listener_handles (px_listener p)))"
  by (induction ps) simp_all

lemma mset_proxy_handles: "mset ps = mset qs \<Longrightarrow> mset (proxy_handles ps) = mset (proxy_handles qs)"
  by (simp only: mset_proxy_handles_sum)

text \<open>
  C16. Binding and unbinding balance. If \<^verbatim>\<open>BindRemotes\<close> made proxies for all remotes and they
  later all stop, in any order, then the open listeners are those from before, except that the
  listener of a TCP proxy that stopped by an error of its own, and not because the context was
  cancelled, is still open.
\<close>

theorem bind_unbind_balance:
  assumes "bind_remotes_start os et sid ons onst inbound rs n w = (Inr ps, n', w1)"
    and "mset (map snd ord) = mset ps"
  shows "mset (open_listeners (w_trace (stop_proxies os ord w1)))
    = mset (open_listeners (w_trace w)) + mset (leaked_handles ord)"
proof -
  from assms(1) have "new_proxies os et sid ons onst rs n w = (Inr ps, n', w1)"
    by (auto simp: bind_remotes_start_def split: if_splits sum.splits prod.splits)
  note ok = new_proxies_ok [OF this]
  have "mset (proxy_handles ps) = mset (proxy_handles (map snd ord))"
    by (rule mset_proxy_handles [OF assms(2) [symmetric]])
  with ok show ?thesis by (intro open_after_stops) simp
qed

text \<open>A system where every call succeeds and one where no address ending in 22 can be listened on.\<close>

definition calm_os :: os where "calm_os tr c = (case c of Stat p \<Rightarrow> Not_exist | _ \<Rightarrow> Done)"

definition busy_os :: os where
  "busy_os tr c =
     (case c of Stat p \<Rightarrow> Not_exist
      | Listen_on p a \<Rightarrow> if suffix '':22'' a then Failed ''in use'' else Done
      | _ \<Rightarrow> Done)"

definition tcp_remote :: "string \<Rightarrow> remote" where
  "tcp_remote port = zero_remote\<lparr>local_host := ''0.0.0.0'', local_port := port, local_proto := ''tcp'',
     remote_host := ''10.0.0.1'', remote_port := port, remote_proto := ''tcp'', reversed := True\<rparr>"

definition empty_world :: world where "empty_world = \<lparr>w_trace = [], w_states = []\<rparr>"

theorem bind_unbind_balance_witness:
  "let (res, n', w1) = bind_remotes_start calm_os (\<lambda>_ _. []) ''1'' True True True
         [tcp_remote ''80'', tcp_remote ''81''] 0 empty_world
   in case res of Inl _ \<Rightarrow> False
      | Inr ps \<Rightarrow> open_listeners (w_trace w1) = [1, 3]
          \<and> mset (open_listeners (w_trace (stop_proxies calm_os [(True, ps ! 1), (False, ps ! 0)] w1))) = {#1#}"
proof -
  let ?b = "bind_remotes_start calm_os (\<lambda>_ _. []) ''1'' True True True
         [tcp_remote ''80'', tcp_remote ''81''] 0 empty_world"
  obtain res n' w1 where b: "?b = (res, n', w1)" by (metis prod_cases3)
  have "\<not> isl (fst ?b) \<and> open_listeners (w_trace (snd (snd ?b))) = [1, 3]
      \<and> length (projr (fst ?b)) = 2
      \<and> map px_listener (projr (fst ?b)) = [Tcp_listener 1, Tcp_listener 3]"
    by code_simp
  then obtain p q where r: "res = Inr [p, q]" and h: "px_listener p = Tcp_listener 1" "px_listener q = Tcp_listener 3"
    and o: "open_listeners (w_trace w1) = [1, 3]"
    unfolding b by (cases res) (auto simp: length_Suc_conv numeral_2_eq_2)
  have "mset (open_listeners (w_trace (stop_proxies calm_os [(True, q), (False, p)] w1))) = {#1#}"
    using bind_unbind_balance [OF b [unfolded r], of "[(True, q), (False, p)]"]
    by (simp add: h empty_world_def add_mset_commute)
  with b r o show ?thesis by simp
qed

text \<open>
  A remote that cannot be bound leaves the earlier ones listening. If \<^verbatim>\<open>BindRemotes\<close> fails at
  the remote of index \<open>k\<close>, the proxies of the remotes before it have been made and are never
  run or stopped: their listeners stay open, next to those from before, and nothing of the
  failing one does.
\<close>

theorem failed_bind_leaves_listeners:
  assumes "bind_remotes_start os et sid ons onst inbound rs n w = (Inl (Proxy_failed e), n', w')"
  shows "\<exists>k ps w1. k < length rs
    \<and> new_proxies os et sid ons onst (take k rs) n w = (Inr ps, n + int k, w1)
    \<and> map px_remote ps = take k rs
    \<and> open_listeners (w_trace w') = open_listeners (w_trace w) @ proxy_handles ps"
proof -
  from assms have "new_proxies os et sid ons onst rs n w = (Inl e, n', w')"
    by (auto simp: bind_remotes_start_def split: if_splits sum.splits prod.splits)
  from new_proxies_failed [OF this] obtain k ps w1 where k: "k < length rs"
    and nps: "new_proxies os et sid ons onst (take k rs) n w = (Inr ps, n', w1)"
    and np: "new_proxy os et n' (rs ! k) sid ons onst w1 = (Inl e, w')" by blast
  note ok = new_proxies_ok [OF nps]
  have "open_listeners (w_trace w') = open_listeners (w_trace w1)"
    using np by (cases rule: new_proxyE) simp_all
  with ok nps k show ?thesis by (intro exI [of _ k] exI [of _ ps] exI [of _ w1]) simp
qed

theorem failed_bind_leaves_listeners_witness:
  "let x = bind_remotes_start busy_os (\<lambda>_ _. []) ''1'' True True True
         [tcp_remote ''80'', tcp_remote ''22''] 0 empty_world
   in fst x = Inl (Proxy_failed (Tcp_failed ''in use''))
     \<and> (\<exists>k ps. k < 2 \<and> map px_remote ps = take k [tcp_remote ''80'', tcp_remote ''22'']
         \<and> open_listeners (w_trace (snd (snd x))) = proxy_handles ps)
     \<and> open_listeners (w_trace (snd (snd x))) = [1]"
proof -
  let ?x = "bind_remotes_start busy_os (\<lambda>_ _. []) ''1'' True True True
         [tcp_remote ''80'', tcp_remote ''22''] 0 empty_world"
  have f: "fst ?x = Inl (Proxy_failed (Tcp_failed ''in use''))"
    and o: "open_listeners (w_trace (snd (snd ?x))) = [1]" by code_simp+
  from f have "?x = (Inl (Proxy_failed (Tcp_failed ''in use'')), fst (snd ?x), snd (snd ?x))"
    by (metis prod.collapse)
  from failed_bind_leaves_listeners [OF this] obtain k ps where "k < 2"
    and "map px_remote ps = take k [tcp_remote ''80'', tcp_remote ''22'']"
    and "open_listeners (w_trace (snd (snd ?x))) = proxy_handles ps"
    by (auto simp: empty_world_def numeral_2_eq_2)
  then have "\<exists>k ps. k < 2
      \<and> map px_remote ps = take k [tcp_remote ''80'', tcp_remote ''22'']
      \<and> open_listeners (w_trace (snd (snd ?x))) = proxy_handles ps" by blast
  with f o show ?thesis by (simp add: Let_def)
qed

text \<open>
  C17. Listening never deletes anything but a socket, and keeps a listener only if it succeeds. The
  calls \<^verbatim>\<open>Proxy.listen\<close> makes remove a file only right after a check that found a socket under
  that very path, whatever the system answers; on an error no listener is left open, not even
  when the mode of the new socket cannot be set, and on success at most the returned one is.
\<close>

theorem listen_is_careful:
  "case proxy_listen os r tr of (res, tr') \<Rightarrow>
     \<exists>ys. tr' = tr @ ys \<and> removes_checked None ys
       \<and> open_listeners tr' = open_listeners tr @ result_handles res"
  using proxy_listen_ok [of tr os r] by (auto simp: listen_ok_def)


subsection \<open>What the receiver of the reports sees\<close>

lemma change_key_ep [simp]:
  "change_key (ep_change sid r st msg) = endpoint_key sid (remote_string r)"
  "ec_state (ep_change sid r st msg) = st"
  by (simp_all add: change_key_def ep_change_def)

lemma bound_events_snoc [simp]:
  "bound_events sid (rs @ [r]) = bound_events sid rs
     @ [ep_change sid r Endpoint_state_pending [], ep_change sid r Endpoint_state_active []]"
  by (simp add: bound_events_def)

lemma last_change_bound:
  assumes "r \<in> set rs"
  shows "\<exists>ch. last_change (endpoint_key sid (remote_string r)) (bound_events sid rs) = Some ch
    \<and> ec_state ch = Endpoint_state_active"
  using assms
proof (induction rs rule: rev_induct)
  case Nil
  then show ?case by simp
next
  case (snoc r' rs)
  have eq: "bound_events sid (rs @ [r']) = (bound_events sid rs
     @ [ep_change sid r' Endpoint_state_pending []]) @ [ep_change sid r' Endpoint_state_active []]" by simp
  show ?case
    using snoc unfolding eq last_change_simps by auto
qed

definition closed_events :: "proxy list \<Rightarrow> endpoint_state_change list" where
  "closed_events ps = map (\<lambda>p. ep_change (px_session_id p) (px_remote p) Endpoint_state_closed []) ps"

lemma proxy_stop_states:
  "w_states (proxy_stop os c p w) = w_states w
     @ (if px_active p \<and> px_on_state p
        then [ep_change (px_session_id p) (px_remote p) Endpoint_state_closed []] else [])"
  by (cases "px_listener p") (simp_all add: proxy_stop_def Let_def)

lemma stop_proxies_states:
  "\<forall>p \<in> snd ` set ord. px_active p \<and> px_on_state p \<Longrightarrow>
     w_states (stop_proxies os ord w) = w_states w @ closed_events (map snd ord)"
proof (induction os ord w rule: stop_proxies.induct)
  case (1 os w)
  then show ?case by (simp add: closed_events_def)
next
  case (2 os c p ps w)
  then show ?case by (simp add: proxy_stop_states) (simp add: closed_events_def)
qed

lemma last_change_closed:
  assumes "p \<in> set ps"
  shows "\<exists>ch. last_change (endpoint_key (px_session_id p) (remote_string (px_remote p))) (closed_events ps) = Some ch
    \<and> ec_state ch = Endpoint_state_closed"
  using assms
proof (induction ps rule: rev_induct)
  case Nil
  then show ?case by simp
next
  case (snoc q ps)
  then show ?case by (auto simp: closed_events_def)
qed

context endpoint_sink
begin

lemma status_bound:
  "map snd xs = bound_events sid rs \<Longrightarrow> r \<in> set rs \<Longrightarrow>
     status (deliver_all deliver xs s) (endpoint_key sid (remote_string r)) = Some Endpoint_active"
  using last_change_bound [of r rs sid] by (auto simp: status_deliver_all)

lemma status_closed:
  "map snd xs = closed_events ps \<Longrightarrow> p \<in> set ps \<Longrightarrow>
     status (deliver_all deliver xs s) (endpoint_key (px_session_id p) (remote_string (px_remote p)))
       = Some Endpoint_closed"
  using last_change_closed [of p ps] by (auto simp: status_deliver_all)

end

text \<open>
  C14. The monitor follows the proxies. When all remotes of a session are bound and the reports have
  reached the server's monitor, every remote's endpoint is active there; when the proxies have
  all stopped, in any order and for any reason, and those reports have arrived too, every
  one is closed. This holds from any state of the monitor and at any times.
\<close>

theorem monitor_follows_proxies:
  assumes bind: "bind_remotes_start os et sid True onst inbound rs n w = (Inr ps, n', w1)"
    and ord: "mset (map snd ord) = mset ps"
    and xs: "w_states w @ map snd xs = w_states w1"
    and ys: "w_states w1 @ map snd ys = w_states (stop_proxies os ord w1)"
    and r: "r \<in> set rs"
  shows "let s1 = deliver_all server_deliver xs s; s2 = deliver_all server_deliver ys s1;
             k = endpoint_key sid (remote_string r)
         in server_endpoint_status s1 k = Some Endpoint_active
           \<and> server_endpoint_status s2 k = Some Endpoint_closed"
proof -
  from bind have "new_proxies os et sid True onst rs n w = (Inr ps, n', w1)"
    by (auto simp: bind_remotes_start_def split: if_splits sum.splits prod.splits)
  note ok = new_proxies_ok [OF this]
  with xs have xs': "map snd xs = bound_events sid rs" by simp
  have "set (map snd ord) = set ps" using ord by (rule mset_eq_setD)
  then have "\<forall>p \<in> snd ` set ord. px_active p \<and> px_on_state p" using ok by auto
  with ys have ys': "map snd ys = closed_events (map snd ord)" by (simp add: stop_proxies_states)
  from r ok obtain p where p: "p \<in> set ps" "px_remote p = r" "px_session_id p = sid" by auto
  then have "p \<in> set (map snd ord)" using \<open>set (map snd ord) = set ps\<close> by blast
  from server_sink.status_closed [OF ys' this] server_sink.status_bound [OF xs' r] p
  show ?thesis by (simp add: Let_def)
qed

theorem monitor_follows_proxies_witness:
  "let x = bind_remotes_start calm_os (\<lambda>_ _. []) ''1'' True True True [tcp_remote ''80''] 0 empty_world;
       w1 = snd (snd x); ps = projr (fst x); w2 = stop_proxies calm_os (map (Pair True) ps) w1;
       at = map (Pair (5, 6));
       s1 = deliver_all server_deliver (at (w_states w1)) (new_telemetry True);
       s2 = deliver_all server_deliver (at (drop 2 (w_states w2))) s1
   in server_endpoint_status s1 ''1|R:80=>10.0.0.1:80'' = Some Endpoint_active
     \<and> server_endpoint_status s2 ''1|R:80=>10.0.0.1:80'' = Some Endpoint_closed"
proof -
  let ?x = "bind_remotes_start calm_os (\<lambda>_ _. []) ''1'' True True True [tcp_remote ''80''] 0 empty_world"
  let ?w1 = "snd (snd ?x)" and ?ps = "projr (fst ?x)"
  let ?ord = "map (Pair True) ?ps"
  let ?w2 = "stop_proxies calm_os ?ord ?w1"
  let ?xs = "map (Pair (5, 6)) (w_states ?w1)" and ?ys = "map (Pair (5, 6)) (drop 2 (w_states ?w2))"
  have l: "\<not> isl (fst ?x)" and len: "length (w_states ?w1) = 2" and e: "w_states empty_world = []"
    and app: "w_states ?w1 @ drop 2 (w_states ?w2) = w_states ?w2"
    and k: "endpoint_key ''1'' (remote_string (tcp_remote ''80'')) = ''1|R:80=>10.0.0.1:80''" by code_simp+
  from l have b: "?x = (Inr ?ps, fst (snd ?x), ?w1)" by (metis prod.collapse sum.collapse(2))
  have ord: "mset (map snd ?ord) = mset ?ps" by (simp add: comp_def)
  have xs: "w_states empty_world @ map snd ?xs = w_states ?w1" using e by (simp add: comp_def)
  have ys: "w_states ?w1 @ map snd ?ys = w_states ?w2" using app by (simp add: comp_def)
  show ?thesis
    using monitor_follows_proxies [OF b ord xs ys, of "tcp_remote ''80''" "new_telemetry True"] k
    by (simp add: Let_def)
qed

end
