(* ===== verification/Streams.thy ===== *)
theory Streams
  imports Proxies
begin

text \<open>
  The connections of one proxy (\<^verbatim>\<open>runTCP\<close>, \<^verbatim>\<open>runUnix\<close>, \<^verbatim>\<open>runStdio\<close>, \<^verbatim>\<open>pipeRemote\<close> and
  \<^verbatim>\<open>emitStreamEvent\<close> of \<^verbatim>\<open>share/tunnel/tunnel_in_proxy.go\<close>) as a step relation. Each accepted
  connection has its goroutine, so the steps of different connections interleave freely: the
  goroutine takes the next number under the lock, reports the stream open, and later reports
  that the remote stream could not be opened or, when the pipe has ended, that it closed.
\<close>

record conns =
  cn_count :: int
  cn_waiting :: nat
  cn_numbered :: "int list"
  cn_open :: "int list"
  cn_events :: "stream_event list"

definition new_conns :: conns where
  "new_conns = \<lparr>cn_count = 0, cn_waiting = 0, cn_numbered = [], cn_open = [], cn_events = []\<rparr>"

definition emit_stream_event ::
    "proxy \<Rightarrow> stream_state \<Rightarrow> int \<Rightarrow> string \<Rightarrow> string \<Rightarrow> time \<Rightarrow> conns \<Rightarrow> conns" where
  "emit_stream_event p st cid msg proto now c =
     (if \<not> px_on_stream p then c
      else
        (let proto = (if proto = [] then ''tcp'' else proto)
         in c\<lparr>cn_events := cn_events c @
              [\<lparr>se_session_id = px_session_id p, se_descriptor = remote_string (px_remote p),
                se_protocol = proto, se_conn_id = cid, se_state = st, se_error = msg,
                se_time = now\<rparr>]\<rparr>))"

text \<open>The protocol the accept loop reports: \<^verbatim>\<open>unix\<close> in \<^verbatim>\<open>runUnix\<close>, the remote's in \<^verbatim>\<open>runTCP\<close>.\<close>

definition accept_proto :: "proxy \<Rightarrow> string" where
  "accept_proto p =
     (if is_uds (px_remote p) \<and> uds_mode (px_remote p) = uds_mode_listen then ''unix''
      else local_proto (px_remote p))"

text \<open>The accept loops are \<^verbatim>\<open>runTCP\<close> and \<^verbatim>\<open>runUnix\<close>: \<^verbatim>\<open>Run\<close> looks at \<^verbatim>\<open>Stdio\<close> first.\<close>

definition accepts_conns :: "proxy \<Rightarrow> bool" where
  "accepts_conns p \<longleftrightarrow> \<not> stdio (px_remote p) \<and>
     (case px_listener p of Tcp_listener h \<Rightarrow> True | Unix_listener h \<Rightarrow> True | _ \<Rightarrow> False)"

inductive conn_step :: "proxy \<Rightarrow> conns \<Rightarrow> conns \<Rightarrow> bool" for p where
  accept: "accepts_conns p \<Longrightarrow>
    conn_step p c
      (let c = emit_stream_event p Stream_accepted (cn_count c + 1) [] (accept_proto p) now c
       in c\<lparr>cn_waiting := Suc (cn_waiting c)\<rparr>)"
| stdio_turn: "stdio (px_remote p) \<Longrightarrow> cn_waiting c = 0 \<Longrightarrow> cn_numbered c = [] \<Longrightarrow> cn_open c = [] \<Longrightarrow>
    conn_step p c (c\<lparr>cn_waiting := 1\<rparr>)"
| number: "cn_waiting c = Suc k \<Longrightarrow>
    conn_step p c
      (c\<lparr>cn_waiting := k, cn_count := cn_count c + 1, cn_numbered := (cn_count c + 1) # cn_numbered c\<rparr>)"
| announce: "cid \<in> set (cn_numbered c) \<Longrightarrow>
    conn_step p c
      (let c = emit_stream_event p Stream_open cid [] (local_proto (px_remote p)) now c
       in c\<lparr>cn_numbered := remove1 cid (cn_numbered c), cn_open := cid # cn_open c\<rparr>)"
| fails: "cid \<in> set (cn_open c) \<Longrightarrow>
    conn_step p c
      (let c = emit_stream_event p Stream_error cid msg (local_proto (px_remote p)) now c
       in c\<lparr>cn_open := remove1 cid (cn_open c)\<rparr>)"
| finishes: "cid \<in> set (cn_open c) \<Longrightarrow>
    conn_step p c
      (let c = emit_stream_event p Stream_closed cid [] (local_proto (px_remote p)) now c
       in c\<lparr>cn_open := remove1 cid (cn_open c)\<rparr>)"

inductive conn_reachable :: "proxy \<Rightarrow> conns \<Rightarrow> bool" for p where
  start: "conn_reachable p new_conns"
| step: "conn_reachable p c \<Longrightarrow> conn_step p c c' \<Longrightarrow> conn_reachable p c'"

inductive_cases conn_stepE: "conn_step p c c'"

subsection \<open>The life of one stream\<close>

definition life :: "int \<Rightarrow> conns \<Rightarrow> stream_state list" where
  "life cid c = map se_state
     (filter (\<lambda>e. se_conn_id e = cid \<and> se_state e \<noteq> Stream_accepted) (cn_events c))"

definition accepts :: "conns \<Rightarrow> nat" where
  "accepts c = length (filter (\<lambda>e. se_state e = Stream_accepted) (cn_events c))"

lemma emit_stream_simps [simp]:
  "cn_count (emit_stream_event p st cid msg pr now c) = cn_count c"
  "cn_waiting (emit_stream_event p st cid msg pr now c) = cn_waiting c"
  "cn_numbered (emit_stream_event p st cid msg pr now c) = cn_numbered c"
  "cn_open (emit_stream_event p st cid msg pr now c) = cn_open c"
  by (simp_all add: emit_stream_event_def Let_def)

lemma life_update [simp]:
  "life cid (c\<lparr>cn_waiting := w\<rparr>) = life cid c" "life cid (c\<lparr>cn_count := n\<rparr>) = life cid c"
  "life cid (c\<lparr>cn_numbered := xs\<rparr>) = life cid c" "life cid (c\<lparr>cn_open := xs\<rparr>) = life cid c"
  "accepts (c\<lparr>cn_waiting := w\<rparr>) = accepts c" "accepts (c\<lparr>cn_count := n\<rparr>) = accepts c"
  "accepts (c\<lparr>cn_numbered := xs\<rparr>) = accepts c" "accepts (c\<lparr>cn_open := xs\<rparr>) = accepts c"
  by (simp_all add: life_def accepts_def)

lemma life_emit:
  assumes "px_on_stream p"
  shows "life cid (emit_stream_event p st cid' msg pr now c) =
      life cid c @ (if cid' = cid \<and> st \<noteq> Stream_accepted then [st] else [])"
    and "accepts (emit_stream_event p st cid' msg pr now c) =
      accepts c + (if st = Stream_accepted then 1 else 0)"
  using assms by (simp_all add: life_def accepts_def emit_stream_event_def Let_def)

text \<open>What the reports about number \<open>cid\<close> can be, by where its goroutine is.\<close>

definition life_ok :: "conns \<Rightarrow> int \<Rightarrow> bool" where
  "life_ok c cid \<longleftrightarrow>
     (if cid < 1 \<or> cid > cn_count c \<or> cid \<in> set (cn_numbered c) then life cid c = []
      else if cid \<in> set (cn_open c) then life cid c = [Stream_open]
      else life cid c = [Stream_open, Stream_error] \<or> life cid c = [Stream_open, Stream_closed])"

definition conns_ok :: "proxy \<Rightarrow> conns \<Rightarrow> bool" where
  "conns_ok p c \<longleftrightarrow>
     0 \<le> cn_count c \<and> distinct (cn_numbered c @ cn_open c) \<and>
     (\<forall>cid \<in> set (cn_numbered c) \<union> set (cn_open c). 1 \<le> cid \<and> cid \<le> cn_count c) \<and>
     (\<forall>cid. life_ok c cid) \<and>
     (\<not> stdio (px_remote p) \<longrightarrow> int (accepts c) = cn_count c + int (cn_waiting c))"

lemma new_conns_ok: "conns_ok p new_conns"
  by (auto simp: conns_ok_def life_ok_def new_conns_def life_def accepts_def)

lemma conns_ok_range:
  "conns_ok p c \<Longrightarrow> cid \<in> set (cn_numbered c) \<or> cid \<in> set (cn_open c) \<Longrightarrow> 1 \<le> cid \<and> cid \<le> cn_count c"
  by (auto simp: conns_ok_def)

lemma conn_step_ok:
  assumes "conns_ok p c" and "conn_step p c c'" and on: "px_on_stream p"
  shows "conns_ok p c'"
proof -
  have nn: "0 \<le> cn_count c" and d: "distinct (cn_numbered c @ cn_open c)"
    and L: "\<forall>cid. life_ok c cid"
    and acc: "\<not> stdio (px_remote p) \<longrightarrow> int (accepts c) = cn_count c + int (cn_waiting c)"
    using assms(1) by (simp_all add: conns_ok_def)
  note r = conns_ok_range [OF assms(1)]
  have above: "cn_count c + 1 \<notin> set (cn_numbered c)" "cn_count c + 1 \<notin> set (cn_open c)" using r by force+
  have rn: "x \<in> set (cn_numbered c) \<Longrightarrow> \<not> x < 1 \<and> \<not> cn_count c < x \<and> \<not> cn_count c + 1 < x"
    and ro: "x \<in> set (cn_open c) \<Longrightarrow> \<not> x < 1 \<and> \<not> cn_count c < x \<and> \<not> cn_count c + 1 < x" for x
    using r [of x] by auto
  note simps = conns_ok_def life_ok_def Let_def life_emit [OF on] not_less [symmetric]
  from assms(2) show ?thesis
  proof (cases rule: conn_step.cases)
    case (accept now)
    then show ?thesis using nn d L acc by (auto simp: simps dest: rn ro)
  next
    case stdio_turn
    then show ?thesis using nn d L acc by (auto simp: simps dest: rn ro)
  next
    case (number k)
    then show ?thesis using nn d L acc above by (auto simp: simps dest: rn ro)
  next
    case (announce cid now)
    then show ?thesis using nn d L acc by (auto simp: simps dest: rn ro)
  next
    case (fails cid msg now)
    then show ?thesis using nn d L acc by (auto simp: simps dest: rn ro)
  next
    case (finishes cid now)
    then show ?thesis using nn d L acc by (auto simp: simps dest: rn ro)
  qed
qed

lemma conn_reachable_ok: "conn_reachable p c \<Longrightarrow> px_on_stream p \<Longrightarrow> conns_ok p c"
  by (induction rule: conn_reachable.induct) (auto intro: new_conns_ok conn_step_ok)

text \<open>
  C15. Every stream has one life. However the accept loop and the goroutines of the
  connections interleave, the numbers given out are 1 up to the count, each at most once, and the
  reports about a number are, in this order and without repetition, nothing, open,
  then one of error or closed; a number not given out has no report. An accept loop
  reports one acceptance for every connection numbered or waiting for its number.
\<close>

theorem stream_lives:
  assumes "conn_reachable p c" and "px_on_stream p"
  shows "life cid c \<in> {[], [Stream_open], [Stream_open, Stream_error], [Stream_open, Stream_closed]}
    \<and> (life cid c \<noteq> [] \<longrightarrow> 1 \<le> cid \<and> cid \<le> cn_count c)
    \<and> (cn_numbered c = [] \<and> cn_open c = [] \<longrightarrow>
         (1 \<le> cid \<and> cid \<le> cn_count c \<longleftrightarrow> last (Stream_accepted # life cid c) \<in> {Stream_error, Stream_closed}))
    \<and> (stdio (px_remote p) \<or> int (accepts c) = cn_count c + int (cn_waiting c))"
proof -
  have ok: "conns_ok p c" using assms by (rule conn_reachable_ok)
  then have "life_ok c cid" by (simp add: conns_ok_def)
  with ok show ?thesis by (auto simp: conns_ok_def life_ok_def split: if_splits)
qed

definition demo_proxy :: proxy where
  "demo_proxy = \<lparr>px_id = 1, px_count = 0, px_remote = tcp_remote ''80'', px_session_id = ''1'',
     px_on_state = True, px_on_stream = True, px_listener = Tcp_listener 1, px_active = True\<rparr>"

text \<open>
  Two connections accepted before the first goroutine runs: both acceptances carry number 1,
  since the accept loop reads the count without the lock, while the goroutines take 1 and 2.
\<close>

definition demo_event :: "int \<Rightarrow> stream_state \<Rightarrow> time \<Rightarrow> stream_event" where
  "demo_event cid st now = \<lparr>se_session_id = ''1'', se_descriptor = ''R:80=>10.0.0.1:80'',
     se_protocol = ''tcp'', se_conn_id = cid, se_state = st, se_error = [], se_time = now\<rparr>"

definition demo_conns :: conns where
  "demo_conns = \<lparr>cn_count = 2, cn_waiting = 0, cn_numbered = [2], cn_open = [],
     cn_events = [demo_event 1 Stream_accepted 1, demo_event 1 Stream_accepted 2,
       demo_event 1 Stream_open 3, demo_event 1 Stream_closed 4]\<rparr>"

lemma demo_reachable: "conn_reachable demo_proxy demo_conns"
proof -
  have emit: "emit_stream_event demo_proxy st cid [] (local_proto (px_remote demo_proxy)) now c
      = c\<lparr>cn_events := cn_events c @ [demo_event cid st now]\<rparr>"
    "emit_stream_event demo_proxy st cid [] (accept_proto demo_proxy) now c
      = c\<lparr>cn_events := cn_events c @ [demo_event cid st now]\<rparr>" for st cid now c
  proof -
    have *: "remote_string (tcp_remote ''80'') = ''R:80=>10.0.0.1:80''" "\<not> is_uds (tcp_remote ''80'')"
      "local_proto (tcp_remote ''80'') = ''tcp''" by code_simp+
    show "emit_stream_event demo_proxy st cid [] (local_proto (px_remote demo_proxy)) now c
      = c\<lparr>cn_events := cn_events c @ [demo_event cid st now]\<rparr>"
      "emit_stream_event demo_proxy st cid [] (accept_proto demo_proxy) now c
      = c\<lparr>cn_events := cn_events c @ [demo_event cid st now]\<rparr>"
      using * by (simp_all add: emit_stream_event_def demo_proxy_def demo_event_def accept_proto_def)
  qed
  note go = conn_reachable.step
  have tcp: "accepts_conns demo_proxy" by code_simp
  let ?e = "[demo_event 1 Stream_accepted 1, demo_event 1 Stream_accepted 2]"
  have "conn_reachable demo_proxy (new_conns\<lparr>cn_waiting := 1, cn_events := [demo_event 1 Stream_accepted 1]\<rparr>)"
    using go [OF conn_reachable.start conn_step.accept [OF tcp, of new_conns 1]]
    by (simp add: emit new_conns_def)
  from go [OF this conn_step.accept [OF tcp, of _ 2]]
  have "conn_reachable demo_proxy (new_conns\<lparr>cn_waiting := 2, cn_events := ?e\<rparr>)"
    by (simp add: emit new_conns_def numeral_2_eq_2)
  from go [OF this conn_step.number [of _ 1]]
  have "conn_reachable demo_proxy (new_conns\<lparr>cn_count := 1, cn_waiting := 1, cn_numbered := [1], cn_events := ?e\<rparr>)"
    by (simp add: new_conns_def)
  from go [OF this conn_step.announce [of 1 _ _ 3]]
  have "conn_reachable demo_proxy (new_conns\<lparr>cn_count := 1, cn_waiting := 1, cn_open := [1],
      cn_events := ?e @ [demo_event 1 Stream_open 3]\<rparr>)"
    by (simp add: emit new_conns_def)
  from go [OF this conn_step.number [of _ 0]]
  have "conn_reachable demo_proxy (new_conns\<lparr>cn_count := 2, cn_numbered := [2], cn_open := [1],
      cn_events := ?e @ [demo_event 1 Stream_open 3]\<rparr>)"
    by (simp add: new_conns_def)
  from go [OF this conn_step.finishes [of 1 _ _ 4]]
  show ?thesis by (simp add: emit new_conns_def demo_conns_def)
qed

theorem stream_lives_witness:
  "life 1 demo_conns = [Stream_open, Stream_closed] \<and> life 2 demo_conns = []
    \<and> map se_conn_id (filter (\<lambda>e. se_state e = Stream_accepted) (cn_events demo_conns)) = [1, 1]
    \<and> int (accepts demo_conns) = cn_count demo_conns + int (cn_waiting demo_conns)"
proof -
  have "px_on_stream demo_proxy" "\<not> stdio (px_remote demo_proxy)" by code_simp+
  with stream_lives [OF demo_reachable, of 1] show ?thesis
    by (auto simp: life_def demo_conns_def demo_event_def)
qed

end
