(* ===== verification/Users.thy ===== *)
theory Users
  imports Go_Strings "HOL-Library.Multiset"
begin

text \<open>
  \<^verbatim>\<open>share/settings/user.go\<close> and \<^verbatim>\<open>share/settings/users.go\<close>: users, the table of users and
  the index that is loaded from the auth file and reloaded when the file is written. The
  regular expressions of the access lists are patterns of the configuration, so the engine
  (\<^verbatim>\<open>regexp.Compile\<close>, \<^verbatim>\<open>MatchString\<close>) is a parameter, and so are the file's contents and
  \<^verbatim>\<open>json.Unmarshal\<close>, whose result is the list of the entries in the order of the
  \<^verbatim>\<open>range\<close> loop over the decoded map.
\<close>

subsection \<open>Users and their access lists\<close>

record 're regex_lib =
  re_compile :: "string \<Rightarrow> 're option"
  re_match :: "'re \<Rightarrow> string \<Rightarrow> bool"
  user_allow_all :: 're

text \<open>What is documented of the engine: the empty pattern compiles and matches everything.\<close>

definition regex_laws :: "'re regex_lib \<Rightarrow> bool" where
  "regex_laws lib \<longleftrightarrow>
     re_compile lib [] = Some (user_allow_all lib) \<and> (\<forall>s. re_match lib (user_allow_all lib) s)"

record 're user =
  user_name :: string
  user_pass :: string
  user_addrs :: "'re list"

definition parse_auth :: "string \<Rightarrow> string \<times> string" where
  "parse_auth auth =
     (case index_byte CHR '':'' auth of
        None \<Rightarrow> ([], [])
      | Some i \<Rightarrow> (take i auth, drop (i + 1) auth))"

fun any_match :: "'re regex_lib \<Rightarrow> 're list \<Rightarrow> string \<Rightarrow> bool" where
  "any_match lib [] addr = False"
| "any_match lib (r # rs) addr = (if re_match lib r addr then True else any_match lib rs addr)"

definition has_access :: "'re regex_lib \<Rightarrow> 're user \<Rightarrow> string \<Rightarrow> bool" where
  "has_access lib u addr = any_match lib (user_addrs u) addr"

lemma any_match_iff: "any_match lib rs addr \<longleftrightarrow> (\<exists>r \<in> set rs. re_match lib r addr)"
  by (induction rs) auto

lemma parse_auth_join:
  "CHR '':'' \<notin> set n \<Longrightarrow> parse_auth (n @ '':'' @ p) = (n, p)"
  by (simp add: parse_auth_def index_byte_append)

lemma parse_auth_no_colon: "CHR '':'' \<notin> set a \<Longrightarrow> parse_auth a = ([], [])"
  using index_byte_None_iff [of "CHR '':''" a] by (simp add: parse_auth_def)

lemma parse_auth_name: "CHR '':'' \<notin> set (fst (parse_auth a))"
  by (auto simp: parse_auth_def split: option.splits dest: index_byte_SomeD)

subsection \<open>The table of users\<close>

type_synonym 're users = "'re user go_map"

definition new_users :: "'re users" where "new_users = []"

definition users_len :: "'re users \<Rightarrow> nat" where "users_len u = length u"

definition users_get :: "string \<Rightarrow> 're users \<Rightarrow> 're user option" where
  "users_get key u = map_get u key"

definition users_set :: "string \<Rightarrow> 're user \<Rightarrow> 're users \<Rightarrow> 're users" where
  "users_set key user u = map_set key user u"

definition users_del :: "string \<Rightarrow> 're users \<Rightarrow> 're users" where
  "users_del key u = map_del key u"

definition users_add :: "'re user \<Rightarrow> 're users \<Rightarrow> 're users" where
  "users_add user u = users_set (user_name user) user u"

definition users_reset :: "'re user list \<Rightarrow> 're users \<Rightarrow> 're users" where
  "users_reset us u = fold (\<lambda>x m. map_set (user_name x) x m) us []"

text \<open>
  The interface the server relies on: a store of values under string keys. The clients of
  a store are proved against these laws only.
\<close>

locale string_store =
  fixes empty :: "'s"
    and get :: "string \<Rightarrow> 's \<Rightarrow> 'v option"
    and put :: "string \<Rightarrow> 'v \<Rightarrow> 's \<Rightarrow> 's"
    and del :: "string \<Rightarrow> 's \<Rightarrow> 's"
    and size_of :: "'s \<Rightarrow> nat"
    and inv :: "'s \<Rightarrow> bool"
  assumes inv_empty: "inv empty"
    and inv_put: "inv s \<Longrightarrow> inv (put k v s)"
    and inv_del: "inv s \<Longrightarrow> inv (del k s)"
    and get_empty: "get k empty = None"
    and get_put: "inv s \<Longrightarrow> get k' (put k v s) = (if k' = k then Some v else get k' s)"
    and get_del: "inv s \<Longrightarrow> get k' (del k s) = (if k' = k then None else get k' s)"
    and size_empty: "inv s \<Longrightarrow> size_of s = 0 \<longleftrightarrow> (\<forall>k. get k s = None)"
begin

lemma put_nonempty: "inv s \<Longrightarrow> size_of (put k v s) \<noteq> 0"
  using size_empty [OF inv_put, of s k v] get_put [of s k k v] by auto

lemma get_some_nonempty: "inv s \<Longrightarrow> get k s = Some v \<Longrightarrow> size_of s \<noteq> 0"
  using size_empty [of s] by auto

text \<open>What a client stored under its key it can take out again, once.\<close>

lemma take_out:
  assumes "inv s"
  shows "get k (put k v s) = Some v" and "get k (del k (put k v s)) = None"
    and "k' \<noteq> k \<Longrightarrow> get k' (del k (put k v s)) = get k' s"
  using assms by (simp_all add: get_put get_del inv_put)

text \<open>Storing a list of values under the keys a function gives them.\<close>

lemma fold_put_inv: "inv s \<Longrightarrow> inv (fold (\<lambda>x. put (f x) x) xs s)"
  by (induction xs arbitrary: s) (auto intro: inv_put)

lemma fold_put_get:
  "inv s \<Longrightarrow> distinct (map f xs) \<Longrightarrow> get k (fold (\<lambda>x. put (f x) x) xs s) =
     (case find (\<lambda>x. f x = k) xs of Some x \<Rightarrow> Some x | None \<Rightarrow> get k s)"
proof (induction xs arbitrary: s)
  case Nil
  then show ?case by simp
next
  case (Cons x xs)
  have "f x = k \<Longrightarrow> find (\<lambda>x. f x = k) xs = None"
    using Cons.prems(2) by (auto simp: find_None_iff image_iff)
  then show ?case
    using Cons.IH [OF inv_put [OF Cons.prems(1)], of "f x" x] Cons.prems
    by (auto simp: get_put split: option.splits)
qed

end

interpretation users_store: string_store new_users users_get users_set users_del users_len wf_map
proof (unfold_locales, goal_cases)
  case (7 s)
  show ?case by (cases s) (auto simp: users_len_def users_get_def)
qed (simp_all add: new_users_def users_get_def users_set_def users_del_def)

lemma users_reset_fold: "users_reset us u = fold (\<lambda>x. users_set (user_name x) x) us new_users"
  by (simp add: users_reset_def users_set_def [abs_def] new_users_def)

lemma users_reset_wf: "wf_map (users_reset us u)"
  unfolding users_reset_fold by (rule users_store.fold_put_inv) (simp add: new_users_def)

lemma users_reset_get:
  "distinct (map user_name us) \<Longrightarrow> users_get k (users_reset us u) = find (\<lambda>x. user_name x = k) us"
  unfolding users_reset_fold
  by (subst users_store.fold_put_get)
    (auto simp: new_users_def users_get_def split: option.splits)

lemma find_distinct_mset:
  assumes "mset xs = mset ys" and "distinct (map f xs)"
  shows "find (\<lambda>x. f x = k) xs = find (\<lambda>x. f x = k) ys"
proof -
  have sets: "set xs = set ys" using assms(1) by (rule mset_eq_setD)
  have inj: "inj_on f (set xs)" using assms(2) by (simp add: distinct_map)
  show ?thesis
  proof (cases "find (\<lambda>x. f x = k) xs")
    case None
    then have "find (\<lambda>x. f x = k) ys = None" using sets by (auto simp: find_None_iff)
    with None show ?thesis by simp
  next
    case (Some x)
    then have x: "x \<in> set xs" "f x = k" by (auto simp: find_Some_iff intro: nth_mem)
    then obtain y where y: "find (\<lambda>x. f x = k) ys = Some y"
      using sets by (cases "find (\<lambda>x. f x = k) ys") (auto simp: find_None_iff)
    then have "y \<in> set ys" "f y = k" by (auto simp: find_Some_iff intro: nth_mem)
    with x sets inj have "y = x" by (auto dest: inj_onD)
    with Some y show ?thesis by simp
  qed
qed

subsection \<open>The index loaded from a file\<close>

datatype load_error =
    Config_file_not_set
  | Read_failed string string
  | Invalid_json string
  | Invalid_user_pass
  | Invalid_address_regex
  | Watch_failed string

record 're user_index =
  ui_users :: "'re users"
  ui_config_file :: string

definition new_user_index :: "'re user_index" where
  "new_user_index = \<lparr>ui_users = new_users, ui_config_file = []\<rparr>"

fun load_addrs :: "'re regex_lib \<Rightarrow> string list \<Rightarrow> 're list option" where
  "load_addrs lib [] = Some []"
| "load_addrs lib (r # rs) =
     (if r = [] \<or> r = ''*'' then map_option (Cons (user_allow_all lib)) (load_addrs lib rs)
      else case re_compile lib r of
          None \<Rightarrow> None
        | Some re \<Rightarrow> map_option (Cons re) (load_addrs lib rs))"

definition load_user :: "'re regex_lib \<Rightarrow> string \<times> string list \<Rightarrow> load_error + 're user" where
  "load_user lib entry =
     (let (name, pass) = parse_auth (fst entry)
      in if name = [] then Inl Invalid_user_pass
         else case load_addrs lib (snd entry) of
             None \<Rightarrow> Inl Invalid_address_regex
           | Some addrs \<Rightarrow> Inr \<lparr>user_name = name, user_pass = pass, user_addrs = addrs\<rparr>)"

fun load_users_list ::
    "'re regex_lib \<Rightarrow> (string \<times> string list) list \<Rightarrow> load_error + 're user list" where
  "load_users_list lib [] = Inr []"
| "load_users_list lib (e # es) =
     (case load_user lib e of
        Inl err \<Rightarrow> Inl err
      | Inr u \<Rightarrow>
          (case load_users_list lib es of Inl err \<Rightarrow> Inl err | Inr us \<Rightarrow> Inr (u # us)))"

definition load_user_index ::
    "'re regex_lib \<Rightarrow> (string \<Rightarrow> string + string) \<Rightarrow>
     (string \<Rightarrow> string + (string \<times> string list) list) \<Rightarrow>
     're user_index \<Rightarrow> load_error option \<times> 're user_index" where
  "load_user_index lib read_file unmarshal u =
     (if ui_config_file u = [] then (Some Config_file_not_set, u)
      else case read_file (ui_config_file u) of
          Inl err \<Rightarrow> (Some (Read_failed (ui_config_file u) err), u)
        | Inr b \<Rightarrow>
            (case unmarshal b of
               Inl err \<Rightarrow> (Some (Invalid_json err), u)
             | Inr raw \<Rightarrow>
                 (case load_users_list lib raw of
                    Inl err \<Rightarrow> (Some err, u)
                  | Inr users \<Rightarrow> (None, u\<lparr>ui_users := users_reset users (ui_users u)\<rparr>))))"

text \<open>
  \<^verbatim>\<open>LoadUsers\<close>: the watcher's own failures (\<^verbatim>\<open>fsnotify\<close>) are an input. A later write event
  of the watched file reloads the index from what the file then holds; a failed reload is
  only logged.
\<close>

definition load_users ::
    "'re regex_lib \<Rightarrow> (string \<Rightarrow> string + string) \<Rightarrow>
     (string \<Rightarrow> string + (string \<times> string list) list) \<Rightarrow> string option \<Rightarrow> string \<Rightarrow>
     're user_index \<Rightarrow> load_error option \<times> 're user_index" where
  "load_users lib read_file unmarshal watch_err config_file u =
     (let u = u\<lparr>ui_config_file := config_file\<rparr>
      in case load_user_index lib read_file unmarshal u of
           (Some err, u) \<Rightarrow> (Some err, u)
         | (None, u) \<Rightarrow> (map_option Watch_failed watch_err, u))"

fun watch_events ::
    "'re regex_lib \<Rightarrow> (string \<Rightarrow> string + (string \<times> string list) list) \<Rightarrow>
     (bool \<times> (string \<Rightarrow> string + string)) list \<Rightarrow> 're user_index \<Rightarrow> 're user_index" where
  "watch_events lib unmarshal [] u = u"
| "watch_events lib unmarshal ((is_write, read_file) # evs) u =
     (if \<not> is_write then watch_events lib unmarshal evs u
      else watch_events lib unmarshal evs (snd (load_user_index lib read_file unmarshal u)))"

lemma load_user_index_error:
  "load_user_index lib rd um u = (Some err, u') \<Longrightarrow> u' = u"
  by (auto simp: load_user_index_def split: if_splits sum.splits)

lemma load_user_index_wf:
  "wf_map (ui_users u) \<Longrightarrow> wf_map (ui_users (snd (load_user_index lib rd um u)))"
  by (auto simp: load_user_index_def users_reset_wf split: sum.splits)

lemma load_users_list_Inr:
  "load_users_list lib es = Inr us \<longleftrightarrow>
     (\<forall>e \<in> set es. \<exists>u. load_user lib e = Inr u) \<and> us = map (projr \<circ> load_user lib) es"
proof (induction es arbitrary: us)
  case Nil
  then show ?case by auto
next
  case (Cons e es)
  show ?case
    using Cons.IH [of "map (projr \<circ> load_user lib) es"] Cons.IH
    by (cases "load_user lib e"; cases "load_users_list lib es") auto
qed

lemma load_user_name: "load_user lib e = Inr u \<Longrightarrow> user_name u = fst (parse_auth (fst e))"
  by (auto simp: load_user_def Let_def split: prod.splits if_splits option.splits)

lemma load_users_list_names:
  assumes "load_users_list lib es = Inr us"
  shows "map user_name us = map (\<lambda>e. fst (parse_auth (fst e))) es"
  using assms by (fastforce simp: load_users_list_Inr dest: load_user_name)

lemma load_users_list_perm:
  assumes "load_users_list lib es = Inr us" and "mset es' = mset es"
  shows "\<exists>us'. load_users_list lib es' = Inr us' \<and> mset us' = mset us"
proof -
  have "set es' = set es" using assms(2) by (rule mset_eq_setD)
  with assms show ?thesis by (auto simp: load_users_list_Inr)
qed

subsection \<open>Properties\<close>

lemma load_user_index_Inr:
  assumes "ui_config_file u \<noteq> []" and "rd (ui_config_file u) = Inr b" and "um b = Inr raw"
    and "load_users_list lib raw = Inr us"
  shows "load_user_index lib rd um u = (None, u\<lparr>ui_users := users_reset us (ui_users u)\<rparr>)"
  using assms by (simp add: load_user_index_def)

text \<open>
  The order in which the \<^verbatim>\<open>range\<close> loop visits the decoded auth file does not matter. When no
  two entries have the same user name and one order loads, then any other order of the same
  entries loads too, and both indexes give the same answer to every lookup.
\<close>

theorem load_order_irrelevant:
  assumes load: "load_user_index lib rd um u = (None, u1)"
    and um: "um b = Inr raw" and b: "rd (ui_config_file u) = Inr b"
    and perm: "mset raw' = mset raw"
    and names: "distinct (map (\<lambda>e. fst (parse_auth (fst e))) raw)"
  shows "\<exists>u2. load_user_index lib rd (um(b := Inr raw')) u = (None, u2) \<and>
      (\<forall>name. users_get name (ui_users u2) = users_get name (ui_users u1))"
proof -
  from load um b obtain us where us: "load_users_list lib raw = Inr us"
    and u1: "u1 = u\<lparr>ui_users := users_reset us (ui_users u)\<rparr>" and conf: "ui_config_file u \<noteq> []"
    by (auto simp: load_user_index_def split: if_splits sum.splits)
  obtain us' where us': "load_users_list lib raw' = Inr us'" "mset us' = mset us"
    using load_users_list_perm [OF us perm] by blast
  have "distinct (map user_name us)" using names load_users_list_names [OF us] by simp
  moreover have "mset (map user_name us') = mset (map user_name us)" using us'(2) by simp
  ultimately have "distinct (map user_name us')" by (metis mset_eq_imp_distinct_iff)
  then have "users_get name (users_reset us' (ui_users u)) = users_get name (users_reset us (ui_users u))" for name
    using us'(2) \<open>distinct (map user_name us)\<close>
    by (simp add: users_reset_get find_distinct_mset [OF us'(2)])
  then show ?thesis
    using load_user_index_Inr [of u rd b "um(b := Inr raw')" raw' lib us'] conf b us'(1) u1 by simp
qed

text \<open>A small engine for the witnesses: the empty pattern matches everything, others themselves.\<close>

definition toy_regex :: "string regex_lib" where
  "toy_regex = \<lparr>re_compile = Some, re_match = (\<lambda>r s. r = [] \<or> r = s), user_allow_all = []\<rparr>"

theorem load_order_irrelevant_witness:
  "let raw = [(''ann:1'', [''R:0.0.0.0:80'']), (''bob:2'', [''*''])];
       u = \<lparr>ui_users = [], ui_config_file = ''users.json''\<rparr>
   in \<exists>u2. load_user_index toy_regex (\<lambda>_. Inr []) ((\<lambda>_. Inr raw)([] := Inr (rev raw))) u = (None, u2)
     \<and> users_get ''bob'' (ui_users u2) = Some \<lparr>user_name = ''bob'', user_pass = ''2'', user_addrs = [[]]\<rparr>"
proof -
  let ?raw = "[(''ann:1'', [''R:0.0.0.0:80'']), (''bob:2'', [''*''])]"
  let ?u = "\<lparr>ui_users = [], ui_config_file = ''users.json''\<rparr>"
  let ?u1 = "\<lparr>ui_users = [(''ann'', \<lparr>user_name = ''ann'', user_pass = ''1'', user_addrs = [''R:0.0.0.0:80'']\<rparr>),
      (''bob'', \<lparr>user_name = ''bob'', user_pass = ''2'', user_addrs = [[]]\<rparr>)], ui_config_file = ''users.json''\<rparr>"
  have l: "load_user_index toy_regex (\<lambda>_. Inr []) (\<lambda>_. Inr ?raw) ?u = (None, ?u1)" by code_simp
  have d: "distinct (map (\<lambda>e. fst (parse_auth (fst e))) ?raw)" by code_simp
  have "users_get ''bob'' (ui_users ?u1) = Some \<lparr>user_name = ''bob'', user_pass = ''2'', user_addrs = [[]]\<rparr>"
    by code_simp
  moreover have "\<exists>u2. load_user_index toy_regex (\<lambda>_. Inr []) ((\<lambda>_. Inr ?raw)([] := Inr (rev ?raw))) ?u = (None, u2)
      \<and> (\<forall>name. users_get name (ui_users u2) = users_get name (ui_users ?u1))"
    by (rule load_order_irrelevant [OF l refl refl _ d]) simp
  ultimately show ?thesis unfolding Let_def by metis
qed

text \<open>
  A reload is all or nothing. If the file cannot be read or parsed, or any of its entries has
  no user name or an invalid pattern, the table of users is the one from before; otherwise it
  holds the users of the file only, whatever it held before.
\<close>

theorem reload_all_or_nothing:
  "case load_user_index lib rd um u of
     (Some err, u') \<Rightarrow> u' = u
   | (None, u') \<Rightarrow> \<exists>b raw us. rd (ui_config_file u) = Inr b \<and> um b = Inr raw
       \<and> load_users_list lib raw = Inr us \<and> ui_users u' = users_reset us (ui_users u0)
       \<and> ui_config_file u' = ui_config_file u"
  by (auto simp: load_user_index_def users_reset_def split: prod.splits option.splits if_splits sum.splits)

lemma load_addrs_match:
  assumes "load_addrs lib rs = Some addrs" and "regex_laws lib"
  shows "any_match lib addrs a \<longleftrightarrow>
    (\<exists>r \<in> set rs. r = [] \<or> r = ''*'' \<or> (\<exists>re. re_compile lib r = Some re \<and> re_match lib re a))"
  using assms
proof (induction rs arbitrary: addrs)
  case Nil
  then show ?case by simp
next
  case (Cons r rs)
  show ?case
  proof (cases "r = [] \<or> r = ''*''")
    case True
    then show ?thesis using Cons.prems by (auto simp: regex_laws_def)
  next
    case False
    then obtain re addrs' where re: "re_compile lib r = Some re" and a: "load_addrs lib rs = Some addrs'"
      and "addrs = re # addrs'" using Cons.prems(1) by (auto split: option.splits)
    then show ?thesis using Cons.IH [OF a Cons.prems(2)] False by auto
  qed
qed

text \<open>
  What an entry of the auth file grants. A user that an entry \<open>name:pass\<close> with the list of
  patterns \<open>rs\<close> loads to has access to an address exactly if a pattern of the list is empty or
  a star, or compiles to an expression that matches the address: no pattern, no access.
\<close>

theorem entry_grants:
  assumes "regex_laws lib" and "load_user lib (name @ '':'' @ pass, rs) = Inr u" and "CHR '':'' \<notin> set name"
  shows "user_name u = name \<and> user_pass u = pass \<and>
    (has_access lib u a \<longleftrightarrow>
      (\<exists>r \<in> set rs. r = [] \<or> r = ''*'' \<or> (\<exists>re. re_compile lib r = Some re \<and> re_match lib re a)))"
proof -
  obtain addrs where addrs: "load_addrs lib rs = Some addrs"
    and u: "u = \<lparr>user_name = name, user_pass = pass, user_addrs = addrs\<rparr>"
    using assms(2) parse_auth_join [OF assms(3), of pass]
    by (auto simp: load_user_def split: if_splits option.splits)
  show ?thesis using load_addrs_match [OF addrs assms(1), of a] by (simp add: u has_access_def)
qed

theorem entry_grants_witness:
  "let u = \<lparr>user_name = ''ann'', user_pass = ''p:1'', user_addrs = [''R:0.0.0.0:80'']\<rparr>
   in load_user toy_regex (''ann:p:1'', [''R:0.0.0.0:80'']) = Inr u
     \<and> has_access toy_regex u ''R:0.0.0.0:80'' \<and> \<not> has_access toy_regex u ''10.0.0.1:22''"
proof -
  let ?u = "\<lparr>user_name = ''ann'', user_pass = ''p:1'', user_addrs = [''R:0.0.0.0:80'']\<rparr>"
  have laws: "regex_laws toy_regex" by (simp add: regex_laws_def toy_regex_def)
  have l: "load_user toy_regex (''ann'' @ '':'' @ ''p:1'', [''R:0.0.0.0:80'']) = Inr ?u" by code_simp
  have "CHR '':'' \<notin> set ''ann''" by simp
  note g = entry_grants [OF laws l this]
  show ?thesis using l g [of "''R:0.0.0.0:80''"] g [of "''10.0.0.1:22''"]
    by (simp add: Let_def) (simp add: toy_regex_def)
qed

end
