(* ===== verification/Ccrypto.thy ===== *)
theory Ccrypto
  imports Go_Strings "HOL-Library.Word"
begin

text \<open>
  \<^verbatim>\<open>share/ccrypto\<close>: the deterministic source of random bytes, the private key derived from a
  seed, and the chisel key encoding. The hash, the ASN.1 and PEM encodings and the system's
  randomness are parameters; a private key of P-256 is its secret number. SHA-512 is given as
  its two halves of 256 bits, so that they have a fixed length, as the source's array has.
  The base64 codec of the standard library is modelled, both raw and padded.
\<close>

record crypto_lib =
  sha512_halves :: "string \<Rightarrow> 256 word \<times> 256 word"
  marshal_ec :: "int \<Rightarrow> string option"
  parse_ec :: "string \<Rightarrow> int option"
  pem_encode :: "string \<Rightarrow> string"
  random_key :: "int option"

subsection \<open>The deterministic reader\<close>

text \<open>The bytes of a number, most significant first.\<close>

fun be_bytes :: "nat \<Rightarrow> int \<Rightarrow> string" where
  "be_bytes 0 v = []"
| "be_bytes (Suc n) v = be_bytes n (v div 256) @ [char_of (v mod 256)]"

lemma length_be_bytes [simp]: "length (be_bytes n v) = n"
  by (induction n v rule: be_bytes.induct) simp_all

definition hash_step :: "crypto_lib \<Rightarrow> string \<Rightarrow> string \<times> string" where
  "hash_step lib input =
     (let (a, b) = sha512_halves lib input in (be_bytes 32 (uint a), be_bytes 32 (uint b)))"

lemma length_hash_step: "length (fst (hash_step lib x)) = 32" "length (snd (hash_step lib x)) = 32"
  by (simp_all add: hash_step_def split: prod.splits)

record determ_rand =
  dr_next :: string
  dr_out :: string

definition determ_rand_iter :: nat where "determ_rand_iter = 2048"

fun strengthen :: "crypto_lib \<Rightarrow> nat \<Rightarrow> string \<Rightarrow> string \<Rightarrow> string \<times> string" where
  "strengthen lib 0 nxt out = (nxt, out)"
| "strengthen lib (Suc i) nxt out = (let (nxt, out) = hash_step lib nxt in strengthen lib i nxt out)"

definition new_determ_rand :: "crypto_lib \<Rightarrow> string \<Rightarrow> determ_rand" where
  "new_determ_rand lib seed =
     (let (nxt, out) = strengthen lib determ_rand_iter seed [] in \<lparr>dr_next = nxt, dr_out = out\<rparr>)"

text \<open>\<^verbatim>\<open>Read\<close> into a buffer with room for \<open>l\<close> more bytes: the bytes and the next state.\<close>

function determ_read :: "crypto_lib \<Rightarrow> nat \<Rightarrow> determ_rand \<Rightarrow> string \<times> determ_rand" where
  "determ_read lib l d =
     (if l = 0 then ([], d)
      else
        (let (nxt, out) = hash_step lib (dr_next d);
             copied = take l out;
             (rest, d) = determ_read lib (l - length copied) (d\<lparr>dr_next := nxt\<rparr>)
         in (copied @ rest, d)))"
  by pat_completeness auto
termination
proof (relation "measure (\<lambda>(lib, l, d). l)", goal_cases)
  case (2 lib l d x nxt out copied)
  have "length out = 32" using length_hash_step(2) [of lib "dr_next d"] 2(2,3) by (metis snd_conv)
  with 2 show ?case by simp
qed simp

declare determ_read.simps [simp del]

subsection \<open>The private key of a seed\<close>

definition p256_order :: int where
  "p256_order = 0xffffffff00000000ffffffffffffffffbce6faada7179e84f3b9cac2fc632551"

definition be_value :: "string \<Rightarrow> int" where
  "be_value bs = fold (\<lambda>c v. v * 256 + int (of_char c)) bs 0"

text \<open>\<^verbatim>\<open>randFieldElement\<close> on P-256, whose order has 256 bits; the reader never fails.\<close>

definition rand_field_element :: "crypto_lib \<Rightarrow> determ_rand \<Rightarrow> int" where
  "rand_field_element lib d =
     (let b = fst (determ_read lib (256 div 8 + 8) d);
          k = be_value b;
          n = p256_order - 1
      in k mod n + 1)"

definition seed_private_key :: "crypto_lib \<Rightarrow> string \<Rightarrow> int option" where
  "seed_private_key lib seed =
     (if seed = [] then random_key lib
      else Some (rand_field_element lib (new_determ_rand lib seed)))"

subsection \<open>Base64\<close>

definition b64_alphabet :: string where
  "b64_alphabet = ''ABCDEFGHIJKLMNOPQRSTUVWXYZabcdefghijklmnopqrstuvwxyz0123456789+/''"

definition b64_char :: "nat \<Rightarrow> char" where
  "b64_char v = b64_alphabet ! (v mod 64)"

fun b64_encode :: "bool \<Rightarrow> string \<Rightarrow> string" where
  "b64_encode padded [] = []"
| "b64_encode padded [a] =
     (let v = of_char a * 16 in [b64_char (v div 64), b64_char v] @ (if padded then ''=='' else []))"
| "b64_encode padded [a, b] =
     (let v = (of_char a * 256 + of_char b) * 4
      in [b64_char (v div 4096), b64_char (v div 64), b64_char v] @ (if padded then ''='' else []))"
| "b64_encode padded (a # b # c # cs) =
     (let v = (of_char a * 256 + of_char b) * 256 + of_char c
      in [b64_char (v div 262144), b64_char (v div 4096), b64_char (v div 64), b64_char v]
           @ b64_encode padded cs)"

fun b64_index :: "nat \<Rightarrow> string \<Rightarrow> char \<Rightarrow> nat option" where
  "b64_index i [] c = None"
| "b64_index i (x # xs) c = (if x = c then Some i else b64_index (Suc i) xs c)"

definition b64_value :: "char \<Rightarrow> nat option" where
  "b64_value c = b64_index 0 b64_alphabet c"

text \<open>
  The end of a padded text: after \<open>n\<close> (2 or 3) digits and a first padding character, only the
  rest of the padding may follow. Line breaks have been dropped, as the decoder skips them
  everywhere. The decoder is not strict: the unused bits of the last digit are ignored.
\<close>

fun b64_decode_digits :: "bool \<Rightarrow> string \<Rightarrow> string option" where
  "b64_decode_digits padded [] = Some []"
| "b64_decode_digits padded [c] = None"
| "b64_decode_digits padded [c, d] =
     (if padded then None
      else case (b64_value c, b64_value d) of
             (Some x, Some y) \<Rightarrow> Some [char_of ((x * 64 + y) div 16)]
           | _ \<Rightarrow> None)"
| "b64_decode_digits padded [c, d, e] =
     (if padded then None
      else case (b64_value c, b64_value d, b64_value e) of
             (Some x, Some y, Some z) \<Rightarrow>
               (let v = ((x * 64 + y) * 64 + z) div 4 in Some [char_of (v div 256), char_of v])
           | _ \<Rightarrow> None)"
| "b64_decode_digits padded (c # d # e # f # cs) =
     (case (b64_value c, b64_value d, b64_value e, b64_value f) of
        (Some x, Some y, Some z, Some w) \<Rightarrow>
          (let v = ((x * 64 + y) * 64 + z) * 64 + w
           in map_option (\<lambda>r. [char_of (v div 65536), char_of (v div 256), char_of v] @ r)
                (b64_decode_digits padded cs))
      | (Some x, Some y, Some z, None) \<Rightarrow>
          (if padded \<and> f = CHR ''='' \<and> cs = []
           then (let v = ((x * 64 + y) * 64 + z) div 4 in Some [char_of (v div 256), char_of v])
           else None)
      | (Some x, Some y, None, _) \<Rightarrow>
          (if padded \<and> e = CHR ''='' \<and> f = CHR ''='' \<and> cs = []
           then Some [char_of ((x * 64 + y) div 16)] else None)
      | _ \<Rightarrow> None)"

definition b64_decode :: "bool \<Rightarrow> string \<Rightarrow> string option" where
  "b64_decode padded s =
     b64_decode_digits padded (filter (\<lambda>c. c \<noteq> CHR 0x0A \<and> c \<noteq> CHR 0x0D) s)"

subsection \<open>Chisel keys\<close>

definition chisel_key_prefix :: string where "chisel_key_prefix = ''ck-''"

definition is_chisel_key :: "string \<Rightarrow> bool" where
  "is_chisel_key key \<longleftrightarrow> prefix chisel_key_prefix key"

definition private_key_to_pem :: "crypto_lib \<Rightarrow> int \<Rightarrow> string option" where
  "private_key_to_pem lib k = map_option (pem_encode lib) (marshal_ec lib k)"

definition private_key_to_chisel_key :: "crypto_lib \<Rightarrow> int \<Rightarrow> string option" where
  "private_key_to_chisel_key lib k =
     map_option (\<lambda>b. chisel_key_prefix @ b64_encode False b) (marshal_ec lib k)"

text \<open>
  The buffer has the decoded length of the whole text, and the count of decoded bytes is ignored:
  where line breaks were skipped the rest of the buffer is zero.
\<close>

definition chisel_key_to_private_key :: "crypto_lib \<Rightarrow> string \<Rightarrow> int option" where
  "chisel_key_to_private_key lib key =
     (let raw = drop (length chisel_key_prefix) key;
          n = length raw * 6 div 8
      in case b64_decode False raw of
           None \<Rightarrow> None
         | Some d \<Rightarrow> parse_ec lib (d @ replicate (n - length d) (CHR 0x00)))"

definition chisel_key_to_pem :: "crypto_lib \<Rightarrow> string \<Rightarrow> string option" where
  "chisel_key_to_pem lib key =
     (case chisel_key_to_private_key lib key of
        None \<Rightarrow> None | Some k \<Rightarrow> private_key_to_pem lib k)"

definition seed_to_pem :: "crypto_lib \<Rightarrow> string \<Rightarrow> string option" where
  "seed_to_pem lib seed =
     (case seed_private_key lib seed of None \<Rightarrow> None | Some k \<Rightarrow> private_key_to_pem lib k)"

definition seed_to_chisel_key :: "crypto_lib \<Rightarrow> string \<Rightarrow> string option" where
  "seed_to_chisel_key lib seed =
     (case seed_private_key lib seed of None \<Rightarrow> None | Some k \<Rightarrow> private_key_to_chisel_key lib k)"

text \<open>\<^verbatim>\<open>GenerateKeyFile\<close>: the key is printed or written to the file; None is an error.\<close>

datatype key_output = Print_key string | Write_key string string

definition generate_key_file :: "crypto_lib \<Rightarrow> string \<Rightarrow> string \<Rightarrow> key_output option" where
  "generate_key_file lib path seed =
     (case seed_to_chisel_key lib seed of
        None \<Rightarrow> None
      | Some key \<Rightarrow> Some (if path = ''-'' then Print_key key else Write_key path key))"


subsection \<open>Reading\<close>

fun det_stream :: "crypto_lib \<Rightarrow> nat \<Rightarrow> string \<Rightarrow> string" where
  "det_stream lib 0 nxt = []"
| "det_stream lib (Suc k) nxt = snd (hash_step lib nxt) @ det_stream lib k (fst (hash_step lib nxt))"

fun det_next :: "crypto_lib \<Rightarrow> nat \<Rightarrow> string \<Rightarrow> string" where
  "det_next lib 0 nxt = nxt"
| "det_next lib (Suc k) nxt = det_next lib k (fst (hash_step lib nxt))"

lemma length_det_stream [simp]: "length (det_stream lib k nxt) = 32 * k"
  by (induction lib k nxt rule: det_stream.induct) (simp_all add: length_hash_step)

text \<open>
  What a read of the deterministic reader returns. Reading \<open>l\<close> bytes always gives exactly \<open>l\<close>
  bytes: the first of the concatenated second halves of the hash chain that starts at the
  reader's state. The state advances by whole blocks of 32 bytes, so what a read leaves of its last
  block is never returned by a later read.
\<close>

theorem determ_read_stream:
  "determ_read lib l d =
     (take l (det_stream lib ((l + 31) div 32) (dr_next d)),
      d\<lparr>dr_next := det_next lib ((l + 31) div 32) (dr_next d)\<rparr>)
   \<and> length (fst (determ_read lib l d)) = l"
proof -
  have main: "determ_read lib l d =
     (take l (det_stream lib ((l + 31) div 32) (dr_next d)),
      d\<lparr>dr_next := det_next lib ((l + 31) div 32) (dr_next d)\<rparr>)"
  proof (induction l arbitrary: d rule: less_induct)
    case (less l)
    obtain nxt out where h: "hash_step lib (dr_next d) = (nxt, out)" by fastforce
    then have len: "length out = 32" using length_hash_step(2) [of lib "dr_next d"] by simp
    show ?case
    proof (cases "l \<le> 32")
      case True
      then have k: "l \<noteq> 0 \<Longrightarrow> (l + 31) div 32 = 1" by arith
      show ?thesis
        using True len k
        by (cases "l = 0") (simp_all add: determ_read.simps [of lib l] determ_read.simps [of lib 0] h Let_def)
    next
      case False
      then have k: "(l + 31) div 32 = Suc ((l - 32 + 31) div 32)" by arith
      from False have "l - 32 < l" by arith
      from less.IH [OF this] False len show ?thesis
        by (simp add: determ_read.simps [of lib l] h Let_def k)
    qed
  qed
  have "l \<le> 32 * ((l + 31) div 32)" by arith
  with main show ?thesis by simp
qed

lemma p256_order_gt: "1 < p256_order - 1"
  by (simp add: p256_order_def)

text \<open>
  The private key of a seed is a valid secret number of the curve: at least 1 and less than the
  order, whatever the hash function does.
\<close>

theorem seed_key_in_range:
  assumes "seed \<noteq> []"
  shows "\<exists>k. seed_private_key lib seed = Some k \<and> 1 \<le> k \<and> k < p256_order"
proof -
  let ?b = "be_value (fst (determ_read lib (256 div 8 + 8) (new_determ_rand lib seed)))"
  have "0 \<le> ?b mod (p256_order - 1)" "?b mod (p256_order - 1) < p256_order - 1"
    using p256_order_gt by simp_all
  with assms show ?thesis
    by (simp add: seed_private_key_def rand_field_element_def Let_def)
qed

definition toy_crypto :: crypto_lib where
  "toy_crypto = \<lparr>sha512_halves = (\<lambda>s. (word_of_nat (length s), 7)),
     marshal_ec = (\<lambda>k. if k < 0 then None else Some (replicate (nat k) CHR ''x'')),
     parse_ec = (\<lambda>s. Some (int (length s))),
     pem_encode = (\<lambda>s. ''PEM '' @ s), random_key = Some 5\<rparr>"

theorem seed_key_in_range_witness:
  "\<exists>k. seed_private_key toy_crypto ''seed'' = Some k \<and> 1 \<le> k \<and> k < p256_order"
  by (rule seed_key_in_range) simp

subsection \<open>Round trip of base64\<close>

lemma b64_value_char [simp]: "b64_value (b64_char v) = Some (v mod 64)"
proof -
  have "list_all (\<lambda>i. b64_value (b64_alphabet ! i) = Some i) [0..<64]" by code_simp
  moreover have "v mod 64 \<in> set [0..<64]" by simp
  ultimately show ?thesis unfolding b64_char_def list_all_iff by blast
qed

lemma b64_char_plain [simp]: "b64_char v \<noteq> CHR 0x0A" "b64_char v \<noteq> CHR 0x0D"
proof -
  have "list_all (\<lambda>i. b64_alphabet ! i \<noteq> CHR 0x0A \<and> b64_alphabet ! i \<noteq> CHR 0x0D) [0..<64]" by code_simp
  moreover have "v mod 64 \<in> set [0..<64]" by simp
  ultimately show "b64_char v \<noteq> CHR 0x0A" "b64_char v \<noteq> CHR 0x0D"
    unfolding b64_char_def list_all_iff by blast+
qed

lemma b64_pad_value [simp]: "b64_value CHR ''='' = None"
  by code_simp

lemma b64_filter: "filter (\<lambda>c. c \<noteq> CHR 0x0A \<and> c \<noteq> CHR 0x0D) (b64_encode padded s) = b64_encode padded s"
  by (induction padded s rule: b64_encode.induct) (simp_all add: Let_def)

lemma char_of_shift: "char_of ((m :: nat) * 256 + of_char c) = c"
proof -
  have "char_of (m * 256 + of_char c) = (char_of (of_char c :: nat) :: char)"
    unfolding char_of_eq_iff by (simp add: take_bit_eq_mod)
  then show ?thesis by simp
qed

lemma char_lt: "(of_char c :: nat) < 256"
  by simp

lemma digits4:
  fixes v :: nat
  assumes "v < 16777216"
  shows "((v div 262144 mod 64 * 64 + v div 4096 mod 64) * 64 + v div 64 mod 64) * 64 + v mod 64 = v"
proof -
  have "v div 4096 = v div 64 div 64" "v div 262144 = v div 64 div 64 div 64"
    by (simp_all add: div_mult2_eq [symmetric])
  moreover have "v div 262144 < 64" using assms by (simp add: div_less_iff_less_mult)
  ultimately show ?thesis by simp
qed

lemma digits3:
  fixes v :: nat
  assumes "v < 262144"
  shows "(v div 4096 mod 64 * 64 + v div 64 mod 64) * 64 + v mod 64 = v"
  using digits4 [of v] assms by simp

lemma digits2:
  fixes v :: nat
  assumes "v < 4096"
  shows "v div 64 mod 64 * 64 + v mod 64 = v"
  using digits4 [of v] assms by simp

lemma bound3: "a < 256 \<Longrightarrow> b < 256 \<Longrightarrow> (a * 256 + b) * 4 < (262144 :: nat)"
  by simp

lemma bound4: "a < 256 \<Longrightarrow> b < 256 \<Longrightarrow> c < 256 \<Longrightarrow> (a * 256 + b) * 256 + c < (16777216 :: nat)"
  by simp

lemma low4: "c < 256 \<Longrightarrow> (x * 256 + c) div 256 = (x :: nat)"
  by simp

lemma high4: "b < 256 \<Longrightarrow> c < 256 \<Longrightarrow> ((a * 256 + b) * 256 + c) div 65536 = (a :: nat)"
  by simp

lemma b64_round_trip: "b64_decode padded (b64_encode padded s) = Some s"
proof -
  have "b64_decode_digits padded (b64_encode padded s) = Some s"
  proof (induction padded s rule: b64_encode.induct)
    case (1 padded)
    then show ?case by simp
  next
    case (2 padded a)
    have "(of_char a :: nat) * 16 < 4096" using char_lt [of a] by simp
    note d = digits2 [OF this]
    show ?case by (cases padded) (simp_all only: b64_encode.simps Let_def append.simps if_True if_False
        b64_decode_digits.simps b64_value_char b64_pad_value option.case prod.case d, simp_all)
  next
    case (3 padded a b)
    let ?v = "((of_char a :: nat) * 256 + of_char b) * 4"
    have "?v < 262144" using bound3 [OF char_lt char_lt] .
    note d = digits3 [OF this]
    have e: "?v div 4 = of_char a * 256 + of_char b" by simp
    have f: "(of_char a * 256 + of_char b) div 256 = (of_char a :: nat)" by simp
    show ?case by (cases padded) (simp_all only: b64_encode.simps Let_def append.simps if_True if_False
        b64_decode_digits.simps b64_value_char b64_pad_value option.case prod.case d e f char_of_shift, simp_all)
  next
    case (4 padded a b c cs)
    let ?v = "((of_char a :: nat) * 256 + of_char b) * 256 + of_char c"
    have "?v < 16777216" using bound4 [OF char_lt char_lt char_lt] .
    note d = digits4 [OF this]
    have e: "?v div 256 = of_char a * 256 + of_char b" using low4 [OF char_lt] .
    have f: "?v div 65536 = of_char a" using high4 [OF char_lt char_lt] .
    show ?case by (simp only: b64_encode.simps Let_def append.simps
        b64_decode_digits.simps b64_value_char option.case prod.case d e f char_of_shift "4.IH", simp)
  qed
  then show ?thesis by (simp add: b64_decode_def b64_filter)
qed

text \<open>
  The base64 facts of a chisel key; its length is that of the decoded bytes.
\<close>

lemma length_b64_raw: "length (b64_encode False s) * 6 div 8 = length s"
  by (induction False s rule: b64_encode.induct) (simp_all add: Let_def)

lemmas length_b64_raw' = length_b64_raw [simplified]

text \<open>
  A key file made from a seed stands for the seed. If the encoding of private keys is read back
  by its parser, the chisel key of a non-empty seed is recognised as one, and
  converting it to PEM gives the very PEM that the seed itself gives.
\<close>

theorem chisel_key_round_trip:
  assumes law: "\<And>k b. marshal_ec lib k = Some b \<Longrightarrow> parse_ec lib b = Some k"
    and "seed \<noteq> []" and key: "seed_to_chisel_key lib seed = Some key"
  shows "is_chisel_key key \<and> chisel_key_to_pem lib key = seed_to_pem lib seed"
proof -
  from key obtain k b where k: "seed_private_key lib seed = Some k" and b: "marshal_ec lib k = Some b"
    and key: "key = chisel_key_prefix @ b64_encode False b"
    by (auto simp: seed_to_chisel_key_def private_key_to_chisel_key_def split: option.splits)
  have "chisel_key_to_private_key lib key = Some k"
    using law [OF b] by (simp add: chisel_key_to_private_key_def key b64_round_trip length_b64_raw' Let_def)
  with k key show ?thesis by (simp add: is_chisel_key_def chisel_key_to_pem_def seed_to_pem_def)
qed

theorem chisel_key_round_trip_witness:
  "\<exists>key. seed_to_chisel_key toy_crypto ''seed'' = Some key \<and> is_chisel_key key
     \<and> chisel_key_to_pem toy_crypto key = seed_to_pem toy_crypto ''seed''"
proof -
  have law: "parse_ec toy_crypto b = Some k" if "marshal_ec toy_crypto k = Some b" for k b
    using that by (auto simp: toy_crypto_def split: if_splits)
  obtain k where "seed_private_key toy_crypto ''seed'' = Some k" "1 \<le> k"
    using p256_order_gt by (auto simp: seed_private_key_def rand_field_element_def Let_def)
  then obtain key where key: "seed_to_chisel_key toy_crypto ''seed'' = Some key"
    by (auto simp: seed_to_chisel_key_def private_key_to_chisel_key_def toy_crypto_def)
  with chisel_key_round_trip [OF law _ key] show ?thesis by simp
qed

end
