(* ===== verification/Server.thy ===== *)
theory Server
  imports Users Ccrypto Proxies
begin

text \<open>
  \<^verbatim>\<open>server/server.go\<close>: the server's configuration and state, its construction, the check of
  a user's password during the SSH handshake, and the operations on the user index. The state has
  the fields the handlers use; the SSH and TLS configuration is not part of it. The
  texts of errors made by \<^verbatim>\<open>Server.Errorf\<close> carry the prefix of the server's logger.
\<close>

record server_config =
  sc_key_seed :: string
  sc_key_file :: string
  sc_auth_file :: string
  sc_auth :: string
  sc_proxy :: string
  sc_socks5 :: bool
  sc_reverse :: bool
  sc_keep_alive :: int
  sc_otel_enabled :: bool
  sc_otel_endpoint :: string

record 're server =
  sv_config :: server_config
  sv_fingerprint :: string
  sv_reverse_proxy :: "string option"
  sv_sess_count :: "32 word"
  sv_sessions :: "'re users"
  sv_users :: "'re user_index"
  sv_tel :: telemetry

text \<open>What the construction of a server asks of its surroundings.\<close>

record server_env =
  env_read_file :: "string \<Rightarrow> string + string"
  env_unmarshal :: "string \<Rightarrow> string + (string \<times> string list) list"
  env_watch_err :: "string option"
  env_exporter_err :: "string \<Rightarrow> string option"
  env_parse_key :: "string \<Rightarrow> string option"
  env_parse_url :: "string \<Rightarrow> string + string"

datatype start_error =
    Otel_failed string
  | Users_failed load_error
  | Fatal string
  | Bad_proxy_url string
  | Missing_proxy_protocol string

text \<open>The telemetry of a new server: \<^verbatim>\<open>newOTELPublisher\<close> fails on an empty endpoint or in the SDK.\<close>

definition new_server_telemetry :: "server_env \<Rightarrow> server_config \<Rightarrow> start_error + telemetry" where
  "new_server_telemetry env c =
     (if \<not> sc_otel_enabled c then Inr \<lparr>tel_monitor = new_monitor_state, tel_otel = None\<rparr>
      else case otel_endpoint (sc_otel_endpoint c) of
             None \<Rightarrow> Inl (Otel_failed ''otel endpoint is empty'')
           | Some e \<Rightarrow>
               (case env_exporter_err env e of
                  Some err \<Rightarrow> Inl (Otel_failed err)
                | None \<Rightarrow> Inr \<lparr>tel_monitor = new_monitor_state, tel_otel = Some new_publisher\<rparr>))"

definition new_server_users ::
    "'re regex_lib \<Rightarrow> server_env \<Rightarrow> server_config \<Rightarrow> start_error + 're user_index" where
  "new_server_users rx env c =
     (let (err, ix) =
            (if sc_auth_file c = [] then (None, new_user_index)
             else load_users rx (env_read_file env) (env_unmarshal env) (env_watch_err env)
                    (sc_auth_file c) new_user_index)
      in case err of
           Some e \<Rightarrow> Inl (Users_failed e)
         | None \<Rightarrow>
             if sc_auth c = [] then Inr ix
             else
               (let (name, pass) = parse_auth (sc_auth c);
                    u = \<lparr>user_name = name, user_pass = pass, user_addrs = [user_allow_all rx]\<rparr>
                in if name = [] then Inr ix
                   else Inr (ix\<lparr>ui_users := users_add u (ui_users ix)\<rparr>)))"

text \<open>The PEM of the server's key: from the key file, an inline chisel key, or the seed.\<close>

definition server_key_pem :: "crypto_lib \<Rightarrow> server_env \<Rightarrow> server_config \<Rightarrow> start_error + string" where
  "server_key_pem cl env c =
     (if sc_key_file c \<noteq> [] then
        (case (if is_chisel_key (sc_key_file c) then Inr (sc_key_file c)
               else env_read_file env (sc_key_file c)) of
           Inl err \<Rightarrow> Inl (Fatal (''Failed to read key file '' @ sc_key_file c))
         | Inr key \<Rightarrow>
             if is_chisel_key key then
               (case chisel_key_to_pem cl key of
                  None \<Rightarrow> Inl (Fatal (''Invalid key '' @ key))
                | Some pem \<Rightarrow> Inr pem)
             else Inr key)
      else case seed_to_pem cl (sc_key_seed c) of
             None \<Rightarrow> Inl (Fatal ''Failed to generate key'')
           | Some pem \<Rightarrow> Inr pem)"

definition server_proxy :: "server_env \<Rightarrow> server_config \<Rightarrow> start_error + string option" where
  "server_proxy env c =
     (if sc_proxy c = [] then Inr None
      else case env_parse_url env (sc_proxy c) of
             Inl err \<Rightarrow> Inl (Bad_proxy_url err)
           | Inr host \<Rightarrow>
               if host = [] then Inl (Missing_proxy_protocol (sc_proxy c)) else Inr (Some host))"

definition new_server ::
    "'re regex_lib \<Rightarrow> crypto_lib \<Rightarrow> server_env \<Rightarrow> server_config \<Rightarrow> start_error + 're server" where
  "new_server rx cl env c =
     (case new_server_telemetry env c of
        Inl e \<Rightarrow> Inl e
      | Inr tel \<Rightarrow>
     (case new_server_users rx env c of
        Inl e \<Rightarrow> Inl e
      | Inr ix \<Rightarrow>
     (case server_key_pem cl env c of
        Inl e \<Rightarrow> Inl e
      | Inr pem \<Rightarrow>
     (case env_parse_key env pem of
        None \<Rightarrow> Inl (Fatal ''Failed to parse key'')
      | Some fp \<Rightarrow>
     (case server_proxy env c of
        Inl e \<Rightarrow> Inl e
      | Inr proxy \<Rightarrow>
          Inr \<lparr>sv_config = c, sv_fingerprint = fp, sv_reverse_proxy = proxy, sv_sess_count = 0,
               sv_sessions = new_users, sv_users = ix, sv_tel = tel\<rparr>)))))"

subsection \<open>Users\<close>

text \<open>\<^verbatim>\<open>authUser\<close>: accepted or not, for the SSH session \<open>ssh_id\<close>.\<close>

definition auth_user :: "string \<Rightarrow> string \<times> string \<Rightarrow> 're server \<Rightarrow> bool \<times> 're server" where
  "auth_user ssh_id attempt s =
     (if users_len (ui_users (sv_users s)) = 0 then (True, s)
      else
        (case users_get (fst attempt) (ui_users (sv_users s)) of
           None \<Rightarrow> (False, s)
         | Some u \<Rightarrow>
             if user_pass u \<noteq> snd attempt then (False, s)
             else (True, s\<lparr>sv_sessions := users_set ssh_id u (sv_sessions s)\<rparr>)))"

fun compile_addrs :: "'re regex_lib \<Rightarrow> string list \<Rightarrow> 're list option" where
  "compile_addrs rx [] = Some []"
| "compile_addrs rx (a # as) =
     (case re_compile rx a of
        None \<Rightarrow> None
      | Some re \<Rightarrow> map_option (Cons re) (compile_addrs rx as))"

text \<open>\<^verbatim>\<open>AddUser\<close>: False is the error of an address that does not compile.\<close>

definition srv_add_user ::
    "'re regex_lib \<Rightarrow> string \<Rightarrow> string \<Rightarrow> string list \<Rightarrow> 're server \<Rightarrow> bool \<times> 're server" where
  "srv_add_user rx name pass addrs s =
     (case compile_addrs rx addrs of
        None \<Rightarrow> (False, s)
      | Some res \<Rightarrow>
          (True, s\<lparr>sv_users := (sv_users s)\<lparr>ui_users :=
             users_add \<lparr>user_name = name, user_pass = pass, user_addrs = res\<rparr> (ui_users (sv_users s))\<rparr>\<rparr>))"

definition srv_delete_user :: "string \<Rightarrow> 're server \<Rightarrow> 're server" where
  "srv_delete_user name s =
     s\<lparr>sv_users := (sv_users s)\<lparr>ui_users := users_del name (ui_users (sv_users s))\<rparr>\<rparr>"

definition srv_reset_users :: "'re user list \<Rightarrow> 're server \<Rightarrow> 're server" where
  "srv_reset_users us s =
     s\<lparr>sv_users := (sv_users s)\<lparr>ui_users := users_reset us (ui_users (sv_users s))\<rparr>\<rparr>"

text \<open>\<^verbatim>\<open>MonitorSnapshot\<close> and \<^verbatim>\<open>GetFingerprint\<close>.\<close>

definition srv_monitor_snapshot :: "'re server \<Rightarrow> monitor_snapshot" where
  "srv_monitor_snapshot s = snapshot (tel_monitor (sv_tel s))"

definition get_fingerprint :: "'re server \<Rightarrow> string" where
  "get_fingerprint s = sv_fingerprint s"

end
