(* ===== verification/Server_Handler.thy ===== *)
theory Server_Handler
  imports Server
begin

text \<open>
  \<^verbatim>\<open>server/server_handler.go\<close>: the HTTP handler and the handler of one websocket connection,
  from the upgrade to the end of its tunnel. What the network and the SSH library do in one
  connection is an input (\<open>conn_env\<close>): whether the upgrade succeeds, the passwords tried, what
  arrives on the request channel, the tunnel's reports. \<open>ce_meanwhile\<close> is what other goroutines do to
  the users between the end of the SSH handshake and the lookup of the user.
\<close>

subsection \<open>Routing\<close>

definition protocol_version :: string where "protocol_version = ''chisel-v3''"
definition build_version :: string where "build_version = ''0.0.0-src''"

record http_request =
  hr_upgrade :: string
  hr_protocol :: string
  hr_path :: string

datatype http_route = To_websocket | To_reverse_proxy | Respond nat string

definition handle_client :: "golib \<Rightarrow> 're server \<Rightarrow> http_request \<Rightarrow> http_route" where
  "handle_client lib s r =
     (if to_lower lib (hr_upgrade r) = ''websocket'' \<and> hr_protocol r = protocol_version then To_websocket
      else if sv_reverse_proxy s \<noteq> None then To_reverse_proxy
      else if hr_path r = ''/health'' then Respond 200 (''OK'' @ [CHR 0x0A])
      else if hr_path r = ''/version'' then Respond 200 build_version
      else Respond 404 ''Not found'')"

subsection \<open>One connection\<close>

datatype request_wait = Timed_out | Requests_closed | Request string string

record config =
  cfg_version :: string
  cfg_remotes :: "remote option list"

datatype tunnel_event =
    Tunnel_state endpoint_state string string time time
  | Tunnel_stream stream_event

record 're conn_env =
  ce_addr :: string
  ce_upgrade_err :: "string option"
  ce_attempts :: "(string \<times> string) list"
  ce_ssh_id :: string
  ce_handshake_err :: "string option"
  ce_meanwhile :: "'re users \<Rightarrow> 're users"
  ce_request :: request_wait
  ce_decode :: "string \<Rightarrow> config option"
  ce_tunnel :: "tunnel_event list"
  ce_clock :: "nat \<Rightarrow> time"

datatype ssh_action = Reply bool string | Close_ssh

datatype outcome =
    Upgrade_failed
  | Handshake_failed
  | Panicked
  | Config_failed string
  | Served "remote list"

text \<open>
  The SSH library tries the password callback until it accepts, a limited number of times; the list
  of attempts ends where it gives up.
\<close>

fun try_passwords :: "string \<Rightarrow> (string \<times> string) list \<Rightarrow> 're server \<Rightarrow> bool \<times> 're server" where
  "try_passwords ssh_id [] s = (False, s)"
| "try_passwords ssh_id (a # as) s =
     (case auth_user ssh_id a s of
        (True, s) \<Rightarrow> (True, s)
      | (False, s) \<Rightarrow> try_passwords ssh_id as s)"

definition server_handshake :: "'re conn_env \<Rightarrow> 're server \<Rightarrow> string option \<times> 're server" where
  "server_handshake ce s =
     (case try_passwords (ce_ssh_id ce) (ce_attempts ce) s of
        (False, s) \<Rightarrow> (Some ''ssh: unable to authenticate'', s)
      | (True, s) \<Rightarrow> (ce_handshake_err ce, s))"

text \<open>
  Pulling the user out of the session table. The outer None is the panic of the source, the
  inner one is no user (authentication is off).
\<close>

definition pull_user :: "string \<Rightarrow> 're server \<Rightarrow> 're user option option \<times> 're server" where
  "pull_user ssh_id s =
     (if users_len (ui_users (sv_users s)) > 0 then
        (case users_get ssh_id (sv_sessions s) of
           None \<Rightarrow> (None, s)
         | Some u \<Rightarrow> (Some (Some u), s\<lparr>sv_sessions := users_del ssh_id (sv_sessions s)\<rparr>))
      else (Some None, s))"

datatype validation = Valid "remote list" | Invalid string | Nil_remote

definition srv_errorf :: "string \<Rightarrow> string" where "srv_errorf msg = ''server: '' @ msg"

text \<open>The loop over the remotes; a remote that is JSON null is a nil pointer.\<close>

fun validate_remotes ::
    "'re regex_lib \<Rightarrow> os \<Rightarrow> bool \<Rightarrow> 're user option \<Rightarrow> remote option list \<Rightarrow> os_trace \<Rightarrow>
     validation \<times> os_trace" where
  "validate_remotes rx os rev_ok user [] tr = (Valid [], tr)"
| "validate_remotes rx os rev_ok user (None # rs) tr = (Nil_remote, tr)"
| "validate_remotes rx os rev_ok user (Some r # rs) tr =
     (if (case user of None \<Rightarrow> False | Some u \<Rightarrow> \<not> has_access rx u (user_addr r)) then
        (Invalid (srv_errorf (''access to '' @ [CHR 0x27] @ user_addr r @ [CHR 0x27] @ '' denied'')), tr)
      else if reversed r \<and> \<not> rev_ok then
        (Invalid (srv_errorf ''Reverse port forwaring not enabled on server''), tr)
      else
        (let (ok, tr) = (if reversed r then can_listen os r tr else (True, tr))
         in if \<not> ok then (Invalid (srv_errorf (''Server cannot listen on '' @ remote_string r)), tr)
            else
              (case validate_remotes rx os rev_ok user rs tr of
                 (Valid vs, tr) \<Rightarrow> (Valid (r # vs), tr)
               | (res, tr) \<Rightarrow> (res, tr))))"

fun report_of :: "string \<Rightarrow> tunnel_event \<Rightarrow> srv_op" where
  "report_of sid (Tunnel_state st desc err t1 t2) =
     Srv_endpoint \<lparr>ec_session_id = sid, ec_descriptor = desc, ec_state = st, ec_error = err\<rparr> t1 t2"
| "report_of sid (Tunnel_stream ev) = Srv_stream (ev\<lparr>se_session_id := sid\<rparr>)"

definition on_tel :: "(telemetry \<Rightarrow> telemetry) \<Rightarrow> 're server \<Rightarrow> 're server" where
  "on_tel f s = s\<lparr>sv_tel := f (sv_tel s)\<rparr>"

definition end_span :: "string \<Rightarrow> string \<Rightarrow> string option \<Rightarrow> 're server \<Rightarrow> 're server" where
  "end_span sid addr err s = on_tel (with_otel (trace (Handshake_span sid addr err))) s"

definition fail_session :: "(nat \<Rightarrow> time) \<Rightarrow> string \<Rightarrow> string \<Rightarrow> string \<Rightarrow> string \<Rightarrow> 're server \<Rightarrow> 're server" where
  "fail_session clk sid addr msg span_err s =
     end_span sid addr (Some span_err)
       (on_tel (srv_mark_session_failed sid msg (clk 3) (clk 4) (clk 5)) s)"

text \<open>The last part: the configuration is valid, the tunnel runs and ends.\<close>

definition serve_tunnel ::
    "'re conn_env \<Rightarrow> string \<Rightarrow> 're server \<Rightarrow> 're server" where
  "serve_tunnel ce sid s =
     (let clk = ce_clock ce;
          s = on_tel (srv_mark_session_connected sid (clk 3) (clk 4) (clk 5)) s;
          s = end_span sid (ce_addr ce) None s;
          s = on_tel (with_otel (trace (Config_validated_span sid))) s;
          s = on_tel (run_srv (map (report_of sid) (ce_tunnel ce))) s
      in on_tel (srv_mark_session_disconnected sid (clk 6) (clk 7) (clk 8)) s)"

text \<open>
  The part after the handshake: the user, the configuration request, the checks. The result
  has the actions on the SSH connection and the system calls made.
\<close>

definition handle_config ::
    "'re regex_lib \<Rightarrow> os \<Rightarrow> 're conn_env \<Rightarrow> string \<Rightarrow> 're user option \<Rightarrow> 're server \<Rightarrow> os_trace \<Rightarrow>
     outcome \<times> ssh_action list \<times> 're server \<times> os_trace" where
  "handle_config rx os ce sid user s tr =
     (let failed = (\<lambda>msg s. fail_session (ce_clock ce) sid (ce_addr ce) msg msg s)
      in case ce_request ce of
           Timed_out \<Rightarrow>
             (let s = fail_session (ce_clock ce) sid (ce_addr ce) ''Timeout waiting for configuration''
                        (srv_errorf ''timeout waiting for configuration'') s
              in (Config_failed ''Timeout waiting for configuration'', [Close_ssh], s, tr))
         | Requests_closed \<Rightarrow> (Panicked, [], s, tr)
         | Request ty payload \<Rightarrow>
             (if ty \<noteq> ''config'' then
                (let msg = srv_errorf ''expecting config request''
                 in (Config_failed msg, [Reply False msg], failed msg s, tr))
              else
                (case ce_decode ce payload of
                   None \<Rightarrow>
                     (let msg = srv_errorf ''invalid config''
                      in (Config_failed msg, [Reply False msg], failed msg s, tr))
                 | Some c \<Rightarrow>
                     (case validate_remotes rx os (sc_reverse (sv_config s)) user (cfg_remotes c) tr of
                        (Nil_remote, tr) \<Rightarrow> (Panicked, [], s, tr)
                      | (Invalid msg, tr) \<Rightarrow> (Config_failed msg, [Reply False msg], failed msg s, tr)
                      | (Valid vs, tr) \<Rightarrow> (Served vs, [Reply True []], serve_tunnel ce sid s, tr)))))"

definition handle_websocket ::
    "'re regex_lib \<Rightarrow> os \<Rightarrow> 're conn_env \<Rightarrow> 're server \<Rightarrow> os_trace \<Rightarrow>
     outcome \<times> ssh_action list \<times> 're server \<times> os_trace" where
  "handle_websocket rx os ce s tr =
     (let clk = ce_clock ce;
          s = s\<lparr>sv_sess_count := sv_sess_count s + 1\<rparr>;
          sid = itoa (sint (sv_sess_count s));
          s = on_tel (srv_mark_session_pending sid (ce_addr ce) (clk 0) (clk 1) (clk 2)) s
      in case ce_upgrade_err ce of
           Some err \<Rightarrow> (Upgrade_failed, [], fail_session clk sid (ce_addr ce) err err s, tr)
         | None \<Rightarrow>
             (case server_handshake ce s of
                (Some err, s) \<Rightarrow> (Handshake_failed, [], fail_session clk sid (ce_addr ce) err err s, tr)
              | (None, s) \<Rightarrow>
                  (let s = s\<lparr>sv_users := (sv_users s)\<lparr>ui_users := ce_meanwhile ce (ui_users (sv_users s))\<rparr>\<rparr>
                   in case pull_user (ce_ssh_id ce) s of
                        (None, s) \<Rightarrow> (Panicked, [], s, tr)
                      | (Some user, s) \<Rightarrow> handle_config rx os ce sid user s tr)))"

end
