(* ===== verification/Server_Facts.thy ===== *)
theory Server_Facts
  imports Server_Handler
begin

text \<open>
  The correctness of the server's handler: elimination rules for its steps (the password
  check, the lookup of the user, the loop over the remotes, the configuration request, the
  whole connection), and its properties: who is served, what is checked, what the monitor
  records, when the handler panics, what stays in the session table, and the session ids.
\<close>


subsection \<open>What the steps keep\<close>

lemma on_tel_simps [simp]:
  "sv_config (on_tel f s) = sv_config s" "sv_sess_count (on_tel f s) = sv_sess_count s"
  "sv_sessions (on_tel f s) = sv_sessions s" "sv_users (on_tel f s) = sv_users s"
  "sv_tel (on_tel f s) = f (sv_tel s)"
  by (simp_all add: on_tel_def)

lemma with_otel_monitor [simp]: "tel_monitor (with_otel f t) = tel_monitor t"
  by (simp add: with_otel_def)

lemma end_span_simps [simp]:
  "sv_config (end_span sid a e s) = sv_config s" "sv_sess_count (end_span sid a e s) = sv_sess_count s"
  "sv_sessions (end_span sid a e s) = sv_sessions s" "sv_users (end_span sid a e s) = sv_users s"
  "tel_monitor (sv_tel (end_span sid a e s)) = tel_monitor (sv_tel s)"
  by (simp_all add: end_span_def)

lemma fail_session_simps [simp]:
  "sv_config (fail_session clk sid a m e s) = sv_config s"
  "sv_sess_count (fail_session clk sid a m e s) = sv_sess_count s"
  "sv_sessions (fail_session clk sid a m e s) = sv_sessions s"
  "sv_users (fail_session clk sid a m e s) = sv_users s"
  "tel_monitor (sv_tel (fail_session clk sid a m e s)) = apply_op (Op_failed sid m) (clk 3) (tel_monitor (sv_tel s))"
  by (simp_all add: fail_session_def)

lemma serve_tunnel_simps [simp]:
  "sv_config (serve_tunnel ce sid s) = sv_config s"
  "sv_sess_count (serve_tunnel ce sid s) = sv_sess_count s"
  "sv_sessions (serve_tunnel ce sid s) = sv_sessions s" "sv_users (serve_tunnel ce sid s) = sv_users s"
  by (simp_all add: serve_tunnel_def Let_def)

lemma auth_userE:
  assumes "auth_user i a s = (ok, s')"
  obtains (off) "users_len (ui_users (sv_users s)) = 0" "ok" "s' = s"
  | (denied) "\<not> ok" "s' = s"
  | (granted) u where "ok" "users_get (fst a) (ui_users (sv_users s)) = Some u" "user_pass u = snd a"
      "s' = s\<lparr>sv_sessions := users_set i u (sv_sessions s)\<rparr>"
proof (cases "users_len (ui_users (sv_users s)) = 0")
  case True
  with assms have "ok \<and> s' = s" by (simp add: auth_user_def)
  with True off show thesis by blast
next
  case False
  show thesis
  proof (cases "users_get (fst a) (ui_users (sv_users s))")
    case None
    with False assms have "\<not> ok \<and> s' = s" by (simp add: auth_user_def)
    with denied show thesis by blast
  next
    case (Some u)
    show thesis
    proof (cases "user_pass u = snd a")
      case True
      with Some False assms have "ok \<and> s' = s\<lparr>sv_sessions := users_set i u (sv_sessions s)\<rparr>"
        by (simp add: auth_user_def)
      with granted [OF _ Some True] show thesis by blast
    next
      case wrong: False
      with Some False assms have "\<not> ok \<and> s' = s" by (simp add: auth_user_def)
      with denied show thesis by blast
    qed
  qed
qed

lemma try_passwordsE:
  assumes "try_passwords i as s = (ok, s')"
  obtains (off) "users_len (ui_users (sv_users s)) = 0" "s' = s"
  | (denied) "\<not> ok" "s' = s"
  | (granted) n p u where "ok" "(n, p) \<in> set as" "users_get n (ui_users (sv_users s)) = Some u" "user_pass u = p"
      "s' = s\<lparr>sv_sessions := users_set i u (sv_sessions s)\<rparr>"
proof -
  have "users_len (ui_users (sv_users s)) = 0 \<and> s' = s \<or> \<not> ok \<and> s' = s \<or>
     (\<exists>n p u. ok \<and> (n, p) \<in> set as \<and> users_get n (ui_users (sv_users s)) = Some u \<and> user_pass u = p \<and>
        s' = s\<lparr>sv_sessions := users_set i u (sv_sessions s)\<rparr>)"
    using assms
  proof (induction as)
    case Nil
    then show ?case by simp
  next
    case (Cons a as)
    obtain ok1 s1 where a: "auth_user i a s = (ok1, s1)" by fastforce
    from a show ?case
    proof (cases rule: auth_userE)
      case off
      with Cons.prems a show ?thesis by simp
    next
      case denied
      with Cons.prems a have "try_passwords i as s = (ok, s')" by simp
      from Cons.IH [OF this] show ?thesis by auto
    next
      case (granted u)
      with Cons.prems a show ?thesis by (cases a) auto
    qed
  qed
  then show thesis using that by blast
qed

lemma server_handshakeE:
  assumes "server_handshake ce s = (err, s')"
  obtains (off) "users_len (ui_users (sv_users s)) = 0" "s' = s"
  | (denied) e where "err = Some e" "s' = s"
  | (granted) n p u where "(n, p) \<in> set (ce_attempts ce)" "users_get n (ui_users (sv_users s)) = Some u"
      "user_pass u = p" "s' = s\<lparr>sv_sessions := users_set (ce_ssh_id ce) u (sv_sessions s)\<rparr>"
      "err = ce_handshake_err ce"
proof -
  obtain ok s1 where t: "try_passwords (ce_ssh_id ce) (ce_attempts ce) s = (ok, s1)" by fastforce
  with assms have "(err, s') = (if ok then ce_handshake_err ce else Some ''ssh: unable to authenticate'', s1)"
    by (cases ok) (simp_all add: server_handshake_def)
  then have s1: "s1 = s'" and err: "err = (if ok then ce_handshake_err ce else Some ''ssh: unable to authenticate'')"
    by (simp_all only: prod.inject)
  from t show thesis
  proof (cases rule: try_passwordsE)
    case off
    with s1 have "s' = s" by simp
    with off that(1) show thesis by blast
  next
    case denied
    with s1 err have "err = Some ''ssh: unable to authenticate''" "s' = s" by simp_all
    with that(2) show thesis by blast
  next
    case (granted n p u)
    with s1 err have "err = ce_handshake_err ce" by simp
    with granted s1 that(3) show thesis by blast
  qed
qed

lemma pull_userE:
  assumes "pull_user i s = (res, s')"
  obtains (off) "users_len (ui_users (sv_users s)) = 0" "res = Some None" "s' = s"
  | (panic) "users_len (ui_users (sv_users s)) \<noteq> 0" "users_get i (sv_sessions s) = None" "res = None" "s' = s"
  | (user) u where "users_len (ui_users (sv_users s)) \<noteq> 0" "users_get i (sv_sessions s) = Some u"
      "res = Some (Some u)" "s' = s\<lparr>sv_sessions := users_del i (sv_sessions s)\<rparr>"
  using assms by (auto simp: pull_user_def split: if_splits option.splits)

subsection \<open>The checks of the configuration\<close>

definition remote_allowed :: "'re regex_lib \<Rightarrow> bool \<Rightarrow> 're user option \<Rightarrow> remote \<Rightarrow> bool" where
  "remote_allowed rx rev_ok user r \<longleftrightarrow>
     (case user of None \<Rightarrow> True | Some u \<Rightarrow> has_access rx u (user_addr r)) \<and> (reversed r \<longrightarrow> rev_ok)"

lemma validate_ConsE:
  assumes "validate_remotes rx os rev_ok user (x # rs) tr = (res, tr')"
  obtains (nil) "x = None" "res = Nil_remote" "tr' = tr"
  | (refused) r msg where "x = Some r" "res = Invalid msg" "open_listeners tr' = open_listeners tr"
  | (further) r tr1 res1 where "x = Some r" "remote_allowed rx rev_ok user r"
      "open_listeners tr1 = open_listeners tr" "validate_remotes rx os rev_ok user rs tr1 = (res1, tr')"
      "res = (case res1 of Valid vs \<Rightarrow> Valid (r # vs) | e \<Rightarrow> e)"
proof (cases x)
  case None
  then show thesis using assms nil by simp
next
  case (Some r)
  show thesis
  proof (cases "remote_allowed rx rev_ok user r")
    case False
    then show thesis
      using assms refused [OF Some] by (auto simp: Some remote_allowed_def split: if_splits option.splits)
  next
    case True
    obtain ok tr1 where c: "(if reversed r then can_listen os r tr else (True, tr)) = (ok, tr1)" by fastforce
    then have tr1: "open_listeners tr1 = open_listeners tr"
      by (auto split: if_splits dest: can_listen_quiet)
    obtain res1 tr2 where v: "validate_remotes rx os rev_ok user rs tr1 = (res1, tr2)" by fastforce
    have eq: "validate_remotes rx os rev_ok user (Some r # rs) tr =
        (if \<not> ok then (Invalid (srv_errorf (''Server cannot listen on '' @ remote_string r)), tr1)
         else (case res1 of Valid vs \<Rightarrow> Valid (r # vs) | e \<Rightarrow> e, tr2))"
      using True c v by (cases res1) (auto simp: remote_allowed_def split: option.splits)
    show thesis
    proof (cases ok)
      case False
      with eq assms have "res = Invalid (srv_errorf (''Server cannot listen on '' @ remote_string r))" "tr' = tr1"
        by (simp_all add: Some del: validate_remotes.simps)
      with refused [OF Some] tr1 show thesis by blast
    next
      case ok: True
      with eq assms have "tr2 = tr'" "res = (case res1 of Valid vs \<Rightarrow> Valid (r # vs) | e \<Rightarrow> e)"
        by (simp_all add: Some del: validate_remotes.simps)
      with further [OF Some True tr1] v show thesis by simp
    qed
  qed
qed

lemma validate_valid:
  "validate_remotes rx os rev_ok user rs tr = (Valid vs, tr') \<Longrightarrow>
     rs = map Some vs \<and> (\<forall>r \<in> set vs. remote_allowed rx rev_ok user r)"
proof (induction rs arbitrary: vs tr)
  case Nil
  then show ?case by simp
next
  case (Cons x rs)
  from Cons.prems show ?case
  proof (cases rule: validate_ConsE)
    case (further r tr1 res1)
    then obtain vs1 where "res1 = Valid vs1" "vs = r # vs1" by (cases res1) simp_all
    with further Cons.IH [of tr1 vs1] show ?thesis by simp
  qed simp_all
qed

lemma validate_trace:
  "validate_remotes rx os rev_ok user rs tr = (res, tr') \<Longrightarrow> open_listeners tr' = open_listeners tr"
proof (induction rs arbitrary: res tr)
  case Nil
  then show ?case by simp
next
  case (Cons x rs)
  from Cons.prems show ?case
    by (cases rule: validate_ConsE) (use Cons.IH in \<open>auto\<close>)
qed

text \<open>
  Where every reversed remote can be listened on, the loop accepts exactly the remotes that are
  allowed, and refuses with a message otherwise.
\<close>

lemma validate_decides:
  assumes "\<And>r tr. r \<in> set rs \<Longrightarrow> reversed r \<Longrightarrow> fst (can_listen os r tr)"
  shows "if \<forall>r \<in> set rs. remote_allowed rx rev_ok user r
         then fst (validate_remotes rx os rev_ok user (map Some rs) tr) = Valid rs
         else \<exists>msg. fst (validate_remotes rx os rev_ok user (map Some rs) tr) = Invalid msg"
  using assms
proof (induction rs arbitrary: tr)
  case Nil
  then show ?case by simp
next
  case (Cons r rs)
  show ?case
  proof (cases "remote_allowed rx rev_ok user r")
    case False
    then show ?thesis by (auto simp: remote_allowed_def split: option.splits)
  next
    case True
    obtain ok tr1 where c: "(if reversed r then can_listen os r tr else (True, tr)) = (ok, tr1)" by fastforce
    then have ok using Cons.prems [of r tr] by (auto split: if_splits)
    obtain res tr2 where v: "validate_remotes rx os rev_ok user (map Some rs) tr1 = (res, tr2)" by fastforce
    have "fst (validate_remotes rx os rev_ok user (map Some (r # rs)) tr) =
        (case res of Valid vs \<Rightarrow> Valid (r # vs) | e \<Rightarrow> e)"
      using True c v \<open>ok\<close> by (cases res) (auto simp: remote_allowed_def split: option.splits)
    moreover have "if \<forall>r \<in> set rs. remote_allowed rx rev_ok user r then res = Valid rs else \<exists>msg. res = Invalid msg"
    proof -
      have "\<And>r tr. r \<in> set rs \<Longrightarrow> reversed r \<Longrightarrow> fst (can_listen os r tr)" using Cons.prems by simp
      from Cons.IH [OF this, of tr1] show ?thesis unfolding v fst_conv .
    qed
    ultimately show ?thesis using True by (auto split: if_splits)
  qed
qed

lemma validate_no_nil:
  "validate_remotes rx os rev_ok user rs tr = (Nil_remote, tr') \<Longrightarrow> None \<in> set rs"
proof (induction rs arbitrary: tr)
  case Nil
  then show ?case by simp
next
  case (Cons x rs)
  from Cons.prems show ?case
    by (cases rule: validate_ConsE) (use Cons.IH in \<open>auto split: validation.splits\<close>)
qed

subsection \<open>The ways a connection can go\<close>

lemma handle_configE:
  assumes "handle_config rx os ce sid user s tr = (oc, acts, s', tr')"
  obtains (timeout) "ce_request ce = Timed_out" "oc = Config_failed ''Timeout waiting for configuration''"
      "acts = [Close_ssh]" "tr' = tr"
      "s' = fail_session (ce_clock ce) sid (ce_addr ce) ''Timeout waiting for configuration''
              (srv_errorf ''timeout waiting for configuration'') s"
  | (closed) "ce_request ce = Requests_closed" "oc = Panicked" "acts = []" "s' = s" "tr' = tr"
  | (refused) msg where "oc = Config_failed msg" "acts = [Reply False msg]"
      "s' = fail_session (ce_clock ce) sid (ce_addr ce) msg msg s" "open_listeners tr' = open_listeners tr"
  | (nil) payload c where "ce_request ce = Request ''config'' payload" "ce_decode ce payload = Some c"
      "None \<in> set (cfg_remotes c)" "oc = Panicked" "acts = []" "s' = s" "open_listeners tr' = open_listeners tr"
  | (valid) payload c vs where "ce_request ce = Request ''config'' payload" "ce_decode ce payload = Some c"
      "cfg_remotes c = map Some vs" "\<forall>r \<in> set vs. remote_allowed rx (sc_reverse (sv_config s)) user r"
      "oc = Served vs" "acts = [Reply True []]" "s' = serve_tunnel ce sid s"
      "open_listeners tr' = open_listeners tr"
proof (cases "ce_request ce")
  case Timed_out
  with assms show thesis by (intro timeout) (simp_all add: handle_config_def Let_def)
next
  case Requests_closed
  with assms show thesis by (intro closed) (simp_all add: handle_config_def Let_def)
next
  case (Request ty payload)
  show thesis
  proof (cases "ty = ''config''")
    case False
    with Request assms show thesis
      by (intro refused [of "srv_errorf ''expecting config request''"]) (simp_all add: handle_config_def Let_def)
  next
    case ty: True
    show thesis
    proof (cases "ce_decode ce payload")
      case None
      with Request ty assms show thesis
        by (intro refused [of "srv_errorf ''invalid config''"]) (simp_all add: handle_config_def Let_def)
    next
      case (Some c)
      obtain res tr1 where v: "validate_remotes rx os (sc_reverse (sv_config s)) user (cfg_remotes c) tr = (res, tr1)"
        by fastforce
      note tr1 = validate_trace [OF v]
      show thesis
      proof (cases res)
        case (Valid vs)
        with Request ty Some assms v tr1 validate_valid [OF v [unfolded Valid]] show thesis
          by (intro valid [of payload c vs]) (simp_all add: handle_config_def Let_def)
      next
        case (Invalid msg)
        with Request ty Some assms v tr1 show thesis
          by (intro refused [of msg]) (simp_all add: handle_config_def Let_def)
      next
        case Nil_remote
        with Request ty Some assms v tr1 validate_no_nil [OF v [unfolded Nil_remote]] show thesis
          by (intro nil [of payload c]) (simp_all add: handle_config_def Let_def)
      qed
    qed
  qed
qed

definition session_id_of :: "'re server \<Rightarrow> string" where
  "session_id_of s = itoa (sint (sv_sess_count s + 1))"

definition accepted_server :: "'re conn_env \<Rightarrow> 're server \<Rightarrow> 're server" where
  "accepted_server ce s =
     on_tel (srv_mark_session_pending (session_id_of s) (ce_addr ce) (ce_clock ce 0) (ce_clock ce 1) (ce_clock ce 2))
       (s\<lparr>sv_sess_count := sv_sess_count s + 1\<rparr>)"

definition meanwhile :: "'re conn_env \<Rightarrow> 're server \<Rightarrow> 're server" where
  "meanwhile ce s = s\<lparr>sv_users := (sv_users s)\<lparr>ui_users := ce_meanwhile ce (ui_users (sv_users s))\<rparr>\<rparr>"

lemma accepted_server_simps [simp]:
  "sv_config (accepted_server ce s) = sv_config s" "sv_users (accepted_server ce s) = sv_users s"
  "sv_sessions (accepted_server ce s) = sv_sessions s"
  "sv_sess_count (accepted_server ce s) = sv_sess_count s + 1"
  "tel_monitor (sv_tel (accepted_server ce s)) =
     apply_op (Op_pending (session_id_of s) (ce_addr ce)) (ce_clock ce 0) (tel_monitor (sv_tel s))"
  by (simp_all add: accepted_server_def)

lemma meanwhile_simps [simp]:
  "sv_config (meanwhile ce s) = sv_config s" "sv_sessions (meanwhile ce s) = sv_sessions s"
  "sv_sess_count (meanwhile ce s) = sv_sess_count s" "sv_tel (meanwhile ce s) = sv_tel s"
  "ui_users (sv_users (meanwhile ce s)) = ce_meanwhile ce (ui_users (sv_users s))"
  by (simp_all add: meanwhile_def)

lemma handle_websocketE:
  assumes "handle_websocket rx os ce s tr = (oc, acts, s', tr')"
  obtains (upgrade) err where "ce_upgrade_err ce = Some err" "oc = Upgrade_failed" "acts = []" "tr' = tr"
      "s' = fail_session (ce_clock ce) (session_id_of s) (ce_addr ce) err err (accepted_server ce s)"
  | (handshake) err s2 where "server_handshake ce (accepted_server ce s) = (Some err, s2)"
      "oc = Handshake_failed" "acts = []" "tr' = tr"
      "s' = fail_session (ce_clock ce) (session_id_of s) (ce_addr ce) err err s2"
  | (no_user) s2 where "server_handshake ce (accepted_server ce s) = (None, s2)"
      "pull_user (ce_ssh_id ce) (meanwhile ce s2) = (None, s')" "oc = Panicked" "acts = []" "tr' = tr"
  | (config) s2 user s3 where "server_handshake ce (accepted_server ce s) = (None, s2)"
      "pull_user (ce_ssh_id ce) (meanwhile ce s2) = (Some user, s3)"
      "handle_config rx os ce (session_id_of s) user s3 tr = (oc, acts, s', tr')"
proof -
  have count: "sv_sess_count (s\<lparr>sv_sess_count := sv_sess_count s + 1\<rparr>) = sv_sess_count s + 1" by simp
  have eq: "handle_websocket rx os ce s tr =
     (case ce_upgrade_err ce of
           Some err \<Rightarrow> (Upgrade_failed, [], fail_session (ce_clock ce) (session_id_of s) (ce_addr ce) err err (accepted_server ce s), tr)
         | None \<Rightarrow>
             (case server_handshake ce (accepted_server ce s) of
                (Some err, s2) \<Rightarrow> (Handshake_failed, [], fail_session (ce_clock ce) (session_id_of s) (ce_addr ce) err err s2, tr)
              | (None, s2) \<Rightarrow>
                   (case pull_user (ce_ssh_id ce) (meanwhile ce s2) of
                        (None, s) \<Rightarrow> (Panicked, [], s, tr)
                      | (Some user, s3) \<Rightarrow> handle_config rx os ce (session_id_of s) user s3 tr)))"
    unfolding handle_websocket_def Let_def accepted_server_def session_id_of_def meanwhile_def count ..
  obtain herr s2 where h: "server_handshake ce (accepted_server ce s) = (herr, s2)" by fastforce
  obtain pu s3 where p: "pull_user (ce_ssh_id ce) (meanwhile ce s2) = (pu, s3)" by fastforce
  show thesis
  proof (cases "ce_upgrade_err ce")
    case (Some err)
    with assms eq show thesis by (intro upgrade [of err]) simp_all
  next
    case up: None
    show thesis
    proof (cases herr)
      case (Some err)
      with assms eq up h show thesis by (intro handshake [of err s2]) simp_all
    next
      case herr: None
      show thesis
      proof (cases pu)
        case None
        with assms eq up h herr p show thesis by (intro no_user [of s2]) simp_all
      next
        case (Some user)
        with assms eq up h herr p show thesis by (intro config [of s2 user s3]) simp_all
      qed
    qed
  qed
qed

text \<open>A connection of a known user with the right password is decided by the checks alone.\<close>

lemma known_user_handled:
  assumes "ce_upgrade_err ce = None" "ce_handshake_err ce = None" "ce_attempts ce = [(name, user_pass u)]"
    and "users_get name (ui_users (sv_users s)) = Some u" "ce_meanwhile ce = id"
    and "ce_request ce = Request ''config'' payload" "ce_decode ce payload = Some c"
  shows "fst (handle_websocket rx os ce s tr) =
    (case fst (validate_remotes rx os (sc_reverse (sv_config s)) (Some u) (cfg_remotes c) tr) of
       Valid vs \<Rightarrow> Served vs | Invalid msg \<Rightarrow> Config_failed msg | Nil_remote \<Rightarrow> Panicked)"
proof -
  have len: "users_len (ui_users (sv_users s)) \<noteq> 0"
    using assms(4) by (cases "ui_users (sv_users s)") (auto simp: users_get_def users_len_def)
  let ?s2 = "(accepted_server ce s)\<lparr>sv_sessions := users_set (ce_ssh_id ce) u (sv_sessions s)\<rparr>"
  have h: "server_handshake ce (accepted_server ce s) = (None, ?s2)"
    using len assms by (simp add: server_handshake_def auth_user_def)
  have m: "meanwhile ce ?s2 = ?s2" by (simp add: meanwhile_def assms(5))
  have p: "pull_user (ce_ssh_id ce) ?s2 =
      (Some (Some u), ?s2\<lparr>sv_sessions := users_del (ce_ssh_id ce) (sv_sessions ?s2)\<rparr>)"
    using len by (simp add: pull_user_def users_get_def users_set_def)
  obtain res tr1 where
    v: "validate_remotes rx os (sc_reverse (sv_config s)) (Some u) (cfg_remotes c) tr = (res, tr1)" by fastforce
  obtain oc acts s' tr' where r: "handle_websocket rx os ce s tr = (oc, acts, s', tr')" by (metis prod_cases4)
  then have "handle_config rx os ce (session_id_of s) (Some u)
      (?s2\<lparr>sv_sessions := users_del (ce_ssh_id ce) (sv_sessions ?s2)\<rparr>) tr = (oc, acts, s', tr')"
    by (cases rule: handle_websocketE) (use assms(1) h m p in simp_all)
  then show ?thesis
    using r v by (cases res) (simp_all add: handle_config_def Let_def assms)
qed

subsection \<open>Properties\<close>

lemma users_get_simps [simp]:
  "users_get k (users_set k' v u) = (if k = k' then Some v else users_get k u)"
  "users_get k (users_del k' u) = (if k = k' then None else users_get k u)"
  by (simp_all add: users_get_def users_set_def users_del_def)

lemma users_get_len: "users_get k u = Some v \<Longrightarrow> users_len u \<noteq> 0"
  by (cases u) (auto simp: users_get_def users_len_def)

text \<open>
  C2. Nobody is served without an authorised user. If users are configured when the server looks
  the user up, a connection whose tunnel is served has presented the name and the password of a
  user of the table that was current during its SSH handshake, and the access list of that
  user matches the address of every remote it was granted. (SSH session ids are fresh.)
\<close>

theorem served_is_authorised:
  assumes run: "handle_websocket rx os ce s tr = (Served vs, acts, s', tr')"
    and fresh: "users_get (ce_ssh_id ce) (sv_sessions s) = None"
    and on: "users_len (ce_meanwhile ce (ui_users (sv_users s))) \<noteq> 0"
  shows "\<exists>name pass u. (name, pass) \<in> set (ce_attempts ce)
    \<and> users_get name (ui_users (sv_users s)) = Some u \<and> user_pass u = pass
    \<and> (\<forall>r \<in> set vs. has_access rx u (user_addr r))"
  using run
proof (cases rule: handle_websocketE)
  case (config s2 user s3)
  have users: "ui_users (sv_users s2) = ui_users (sv_users s)"
    using config(1) by (cases rule: server_handshakeE) simp_all
  from config(2) obtain u where u: "users_get (ce_ssh_id ce) (sv_sessions s2) = Some u" "user = Some u"
    using on users by (cases rule: pull_userE) auto
  from config(1) obtain name pass where "(name, pass) \<in> set (ce_attempts ce)"
    "users_get name (ui_users (sv_users s)) = Some u" "user_pass u = pass"
    using u(1) fresh by (cases rule: server_handshakeE) auto
  moreover from config(3) have "\<forall>r \<in> set vs. has_access rx u (user_addr r)"
    using u(2) by (cases rule: handle_configE) (auto simp: remote_allowed_def)
  ultimately show ?thesis by blast
qed simp_all

lemma served_config:
  assumes run: "handle_websocket rx os ce s tr = (oc, acts, s', tr')"
  shows "open_listeners tr' = open_listeners tr \<and>
    (case oc of
       Served vs \<Rightarrow> acts = [Reply True []] \<and> (\<forall>r \<in> set vs. reversed r \<longrightarrow> sc_reverse (sv_config s))
         \<and> (\<exists>payload c. ce_request ce = Request ''config'' payload \<and> ce_decode ce payload = Some c
             \<and> cfg_remotes c = map Some vs)
     | Config_failed msg \<Rightarrow> acts = [Reply False msg] \<or> acts = [Close_ssh]
     | _ \<Rightarrow> acts = [])"
  using run
proof (cases rule: handle_websocketE)
  case (config s2 user s3)
  have cfg: "sv_config s3 = sv_config s"
    using config(2)
  proof (cases rule: pull_userE)
    case off
    with config(1) show ?thesis by (cases rule: server_handshakeE) auto
  next
    case (user u)
    with config(1) show ?thesis by (cases rule: server_handshakeE) auto
  qed simp
  from config(3) show ?thesis
    by (cases rule: handle_configE) (auto simp: cfg remote_allowed_def)
qed simp_all

text \<open>
  C5. What is served was asked for and checked. A served connection sent one configuration
  request; its remotes, all of them and in that order, are the ones served; none is reversed
  unless the server allows it; the reply was positive, the only one, and the SSH connection was not
  closed by the handler. The checks left no listener open, as for any other outcome.
\<close>

theorem served_config_checked:
  "case handle_websocket rx os ce s tr of (oc, acts, s', tr') \<Rightarrow>
     open_listeners tr' = open_listeners tr \<and>
     (case oc of
        Served vs \<Rightarrow> acts = [Reply True []] \<and> (\<forall>r \<in> set vs. reversed r \<longrightarrow> sc_reverse (sv_config s))
          \<and> (\<exists>payload c. ce_request ce = Request ''config'' payload \<and> ce_decode ce payload = Some c
              \<and> cfg_remotes c = map Some vs)
      | Config_failed msg \<Rightarrow> acts = [Reply False msg] \<or> acts = [Close_ssh]
      | _ \<Rightarrow> acts = [])"
proof -
  obtain oc acts s' tr' where h: "handle_websocket rx os ce s tr = (oc, acts, s', tr')" by (metis prod_cases4)
  from served_config [OF h] show ?thesis by (simp only: h prod.case)
qed

lemma session_status_op:
  "session_status_of (apply_op x now m) =
     (case x of
        Op_pending sid a \<Rightarrow> (session_status_of m)(sid \<mapsto> Session_pending)
      | Op_connected sid \<Rightarrow> (session_status_of m)(sid \<mapsto> Session_connected)
      | Op_failed sid e \<Rightarrow> (session_status_of m)(sid \<mapsto> Session_failed)
      | Op_disconnected sid \<Rightarrow> (session_status_of m)(sid \<mapsto> Session_disconnected)
      | Op_endpoint sid d st e \<Rightarrow> session_status_of m)"
proof -
  have "session_status_of m = st_sessions (table_of m)" for m by (simp add: table_of_def)
  then show ?thesis by (simp add: table_of_apply_op split: monitor_op.splits)
qed

lemma report_status:
  "session_status_of (run_ops (monitor_ops_of (report_of sid ev)) m) = session_status_of m"
  by (cases ev) (simp_all add: session_status_op del: apply_op.simps)

lemma reports_status:
  "session_status_of (tel_monitor (run_srv (map (report_of sid) evs) t)) = session_status_of (tel_monitor t)"
  unfolding run_srv_monitor
  by (induction evs arbitrary: t rule: rev_induct) (simp_all add: run_ops_append report_status)

lemma serve_tunnel_status:
  "session_status_of (tel_monitor (sv_tel (serve_tunnel ce sid s))) =
     (session_status_of (tel_monitor (sv_tel s)))(sid \<mapsto> Session_disconnected)"
  by (simp add: serve_tunnel_def Let_def session_status_op reports_status del: apply_op.simps)

fun final_status :: "outcome \<Rightarrow> session_status" where
  "final_status (Served vs) = Session_disconnected"
| "final_status Panicked = Session_pending"
| "final_status oc = Session_failed"

lemma same_tel:
  "server_handshake ce s = (err, s2) \<Longrightarrow> sv_tel s2 = sv_tel s \<and> sv_sess_count s2 = sv_sess_count s
     \<and> sv_config s2 = sv_config s"
  by (erule server_handshakeE) simp_all

lemma same_tel_pull:
  "pull_user i s = (r, s2) \<Longrightarrow> sv_tel s2 = sv_tel s \<and> sv_sess_count s2 = sv_sess_count s
     \<and> sv_config s2 = sv_config s"
  by (erule pull_userE) simp_all

lemma handle_status:
  assumes run: "handle_websocket rx os ce s tr = (oc, acts, s', tr')"
  shows "sv_sess_count s' = sv_sess_count s + 1
    \<and> session_status_of (tel_monitor (sv_tel s')) =
        (session_status_of (tel_monitor (sv_tel s)))(session_id_of s \<mapsto> final_status oc)"
  using run
proof (cases rule: handle_websocketE)
  case (upgrade err)
  then show ?thesis by (simp add: session_status_op del: apply_op.simps)
next
  case (handshake err s2)
  with same_tel [OF handshake(1)] show ?thesis by (simp add: session_status_op del: apply_op.simps)
next
  case (no_user s2)
  with same_tel [OF no_user(1)] same_tel_pull [OF no_user(2)] show ?thesis
    by (simp add: session_status_op del: apply_op.simps)
next
  case (config s2 user s3)
  note keep = same_tel [OF config(1)] same_tel_pull [OF config(2)]
  from config(3) show ?thesis
    by (cases rule: handle_configE)
      (use keep in \<open>simp_all add: session_status_op serve_tunnel_status del: apply_op.simps\<close>)
qed

text \<open>
  C6. Every connection leaves its mark in the monitor. The handler counts the connection and
  reports its session under the new number; at the end the session is disconnected if it was
  served, failed if the upgrade, the handshake or the configuration failed, and left
  pending only if the handler panicked. No other session changes its status.
\<close>

theorem outcome_is_recorded:
  "case handle_websocket rx os ce s tr of (oc, acts, s', tr') \<Rightarrow>
     sv_sess_count s' = sv_sess_count s + 1
     \<and> session_status_of (tel_monitor (sv_tel s')) =
        (session_status_of (tel_monitor (sv_tel s)))(session_id_of s \<mapsto> final_status oc)"
proof -
  obtain oc acts s' tr' where h: "handle_websocket rx os ce s tr = (oc, acts, s', tr')" by (metis prod_cases4)
  from handle_status [OF h] show ?thesis by (simp only: h prod.case)
qed

text \<open>
  C18. The handler panics in three situations only: the request channel was closed before a request
  came, the configuration holds a null remote, or users were added between the SSH handshake,
  when there were none, and the lookup of the user. The session is then left pending for
  good, no reply is sent, and the SSH connection is not closed by the handler.
\<close>

theorem panic_situations:
  assumes run: "handle_websocket rx os ce s tr = (Panicked, acts, s', tr')"
    and fresh: "users_get (ce_ssh_id ce) (sv_sessions s) = None"
  shows "acts = [] \<and> session_status_of (tel_monitor (sv_tel s')) (session_id_of s) = Some Session_pending
    \<and> (ce_request ce = Requests_closed
       \<or> (\<exists>payload c. ce_request ce = Request ''config'' payload \<and> ce_decode ce payload = Some c
            \<and> None \<in> set (cfg_remotes c))
       \<or> users_len (ui_users (sv_users s)) = 0 \<and> users_len (ce_meanwhile ce (ui_users (sv_users s))) \<noteq> 0)"
proof -
  have acts: "acts = []"
    and why: "ce_request ce = Requests_closed
       \<or> (\<exists>payload c. ce_request ce = Request ''config'' payload \<and> ce_decode ce payload = Some c
            \<and> None \<in> set (cfg_remotes c))
       \<or> users_len (ui_users (sv_users s)) = 0 \<and> users_len (ce_meanwhile ce (ui_users (sv_users s))) \<noteq> 0"
    using run
  proof (atomize (full), cases rule: handle_websocketE)
    case (no_user s2)
    from no_user(1) show "acts = [] \<and> (ce_request ce = Requests_closed
       \<or> (\<exists>payload c. ce_request ce = Request ''config'' payload \<and> ce_decode ce payload = Some c
            \<and> None \<in> set (cfg_remotes c))
       \<or> users_len (ui_users (sv_users s)) = 0 \<and> users_len (ce_meanwhile ce (ui_users (sv_users s))) \<noteq> 0)"
    proof (cases rule: server_handshakeE)
      case off
      from no_user(2) show ?thesis by (cases rule: pull_userE) (use off no_user(4) in auto)
    next
      case (granted n p u)
      from no_user(2) show ?thesis by (cases rule: pull_userE) (use granted in auto)
    qed simp
  next
    case (config s2 user s3)
    from config(3) show "acts = [] \<and> (ce_request ce = Requests_closed
       \<or> (\<exists>payload c. ce_request ce = Request ''config'' payload \<and> ce_decode ce payload = Some c
            \<and> None \<in> set (cfg_remotes c))
       \<or> users_len (ui_users (sv_users s)) = 0 \<and> users_len (ce_meanwhile ce (ui_users (sv_users s))) \<noteq> 0)"
      by (cases rule: handle_configE) auto
  qed simp_all
  have "session_status_of (tel_monitor (sv_tel s')) (session_id_of s) = Some Session_pending"
    using handle_status [OF run] by simp
  with acts why show ?thesis by blast
qed

lemma auth_user_same:
  "sv_users t = sv_users s \<Longrightarrow> fst (auth_user i a t) = fst (auth_user i a s)"
  by (simp add: auth_user_def split: option.split)

lemma auth_user_denied: "fst (auth_user i a s) = False \<Longrightarrow> auth_user i a s = (False, s)"
  by (auto simp: auth_user_def split: option.splits if_splits)

lemma try_passwords_same:
  "sv_users t = sv_users s \<Longrightarrow> fst (try_passwords i as t) = fst (try_passwords i as s)"
proof (induction as)
  case Nil
  then show ?case by simp
next
  case (Cons a as)
  show ?case
  proof (cases "fst (auth_user i a s)")
    case True
    with auth_user_same [OF Cons.prems, of i a] obtain s1 t1
      where "auth_user i a s = (True, s1)" "auth_user i a t = (True, t1)" by (metis prod.collapse)
    then show ?thesis by simp
  next
    case False
    with auth_user_same [OF Cons.prems, of i a]
    have "auth_user i a s = (False, s)" "auth_user i a t = (False, t)" using auth_user_denied by metis+
    then show ?thesis using Cons by simp
  qed
qed

lemma try_passwords_denied:
  assumes "try_passwords i as s = (False, s')"
    and "(n, p) \<in> set as" and "users_get n (ui_users (sv_users s)) = Some u"
  shows "user_pass u \<noteq> p"
  using assms(1,2)
proof (induction as)
  case Nil
  then show ?case by simp
next
  case (Cons a as)
  obtain ok s1 where a: "auth_user i a s = (ok, s1)" by fastforce
  with Cons.prems(1) have "\<not> ok" by (cases ok) simp_all
  with a auth_user_denied [of i a s] have "s1 = s" by simp
  with Cons a \<open>\<not> ok\<close> have rest: "(n, p) \<in> set as \<Longrightarrow> user_pass u \<noteq> p" by simp
  show ?case
  proof (cases "a = (n, p)")
    case True
    with a \<open>\<not> ok\<close> assms(3) show ?thesis by (auto simp: auth_user_def split: if_splits)
  next
    case False
    with Cons.prems(2) rest show ?thesis by simp
  qed
qed

lemma try_passwords_off:
  assumes "users_len (ui_users (sv_users s)) = 0" and "try_passwords i as s = (ok, s')"
  shows "s' = s"
  using assms(2) by (cases as) (simp_all add: auth_user_def assms(1))

text \<open>What a handshake leaves in the table of SSH sessions.\<close>

lemma server_handshake_table:
  assumes run: "server_handshake ce s = (err, s')" and fresh: "users_get (ce_ssh_id ce) (sv_sessions s) = None"
  shows "(k \<noteq> ce_ssh_id ce \<longrightarrow> users_get k (sv_sessions s') = users_get k (sv_sessions s))
    \<and> (case users_get (ce_ssh_id ce) (sv_sessions s') of
         Some u \<Rightarrow> users_len (ui_users (sv_users s)) \<noteq> 0
           \<and> (\<exists>n p. (n, p) \<in> set (ce_attempts ce) \<and> users_get n (ui_users (sv_users s)) = Some u \<and> user_pass u = p)
       | None \<Rightarrow> users_len (ui_users (sv_users s)) = 0
           \<or> err \<noteq> None \<and> (\<forall>(n, p) \<in> set (ce_attempts ce). \<forall>u. users_get n (ui_users (sv_users s)) = Some u \<longrightarrow> user_pass u \<noteq> p))"
proof -
  obtain ok s1 where t: "try_passwords (ce_ssh_id ce) (ce_attempts ce) s = (ok, s1)" by fastforce
  with run have s1: "s' = s1" and err: "\<not> ok \<Longrightarrow> err \<noteq> None"
    by (cases ok; auto simp: server_handshake_def)+
  from t show ?thesis
  proof (cases rule: try_passwordsE)
    case off
    with fresh s1 show ?thesis by simp
  next
    case denied
    with t have "try_passwords (ce_ssh_id ce) (ce_attempts ce) s = (False, s1)" by simp
    note wrong = try_passwords_denied [OF this]
    from denied err have "err \<noteq> None" by simp
    with denied fresh s1 wrong show ?thesis by auto
  next
    case (granted n p u)
    show ?thesis
    proof (cases "users_len (ui_users (sv_users s)) = 0")
      case True
      from t have "s1 = s" by (rule try_passwords_off [OF True])
      with True fresh s1 show ?thesis by simp
    next
      case False
      with granted s1 show ?thesis by auto
    qed
  qed
qed

text \<open>
  C19. What a connection leaves in the table of SSH sessions. Entries of other connections are never
  touched. A connection leaves an entry of its own, under its fresh SSH session id, in exactly two
  situations, and then it is a user whose password it presented: the password was accepted but the
  handshake failed all the same; or users were configured at the password check and none are left
  at the lookup, which then takes nothing out of the table, whatever happens afterwards. In all
  other cases, panics and refusals included, the table is as it was.
\<close>

theorem session_table_restored:
  assumes run: "handle_websocket rx os ce s tr = (oc, acts, s', tr')"
    and fresh: "users_get (ce_ssh_id ce) (sv_sessions s) = None"
  shows "(k \<noteq> ce_ssh_id ce \<longrightarrow> users_get k (sv_sessions s') = users_get k (sv_sessions s))
    \<and> (let us = ui_users (sv_users s)
       in case users_get (ce_ssh_id ce) (sv_sessions s') of
            Some u \<Rightarrow> users_len us \<noteq> 0 \<and> oc \<noteq> Upgrade_failed
              \<and> (\<exists>n p. (n, p) \<in> set (ce_attempts ce) \<and> users_get n us = Some u \<and> user_pass u = p)
              \<and> (oc \<noteq> Handshake_failed \<longrightarrow> users_len (ce_meanwhile ce us) = 0)
          | None \<Rightarrow> users_len us = 0 \<or> oc = Upgrade_failed
              \<or> (if oc = Handshake_failed
                 then \<forall>(n, p) \<in> set (ce_attempts ce). \<forall>u. users_get n us = Some u \<longrightarrow> user_pass u \<noteq> p
                 else users_len (ce_meanwhile ce us) \<noteq> 0))"
proof -
  have fresh1: "users_get (ce_ssh_id ce) (sv_sessions (accepted_server ce s)) = None" using fresh by simp
  have same: "ui_users (sv_users (accepted_server ce s)) = ui_users (sv_users s)"
    "sv_sessions (accepted_server ce s) = sv_sessions s" by simp_all
  have table: "server_handshake ce (accepted_server ce s) = (err, s2) \<Longrightarrow>
      (k \<noteq> ce_ssh_id ce \<longrightarrow> users_get k (sv_sessions s2) = users_get k (sv_sessions s))
    \<and> (case users_get (ce_ssh_id ce) (sv_sessions s2) of
         Some u \<Rightarrow> users_len (ui_users (sv_users s)) \<noteq> 0
           \<and> (\<exists>n p. (n, p) \<in> set (ce_attempts ce) \<and> users_get n (ui_users (sv_users s)) = Some u \<and> user_pass u = p)
       | None \<Rightarrow> users_len (ui_users (sv_users s)) = 0
           \<or> err \<noteq> None \<and> (\<forall>(n, p) \<in> set (ce_attempts ce). \<forall>u. users_get n (ui_users (sv_users s)) = Some u \<longrightarrow> user_pass u \<noteq> p))"
    for err s2
    using server_handshake_table [OF _ fresh1, of err s2 k] unfolding same .
  show ?thesis
    using run
  proof (cases rule: handle_websocketE)
    case (upgrade err)
    with fresh show ?thesis by (simp add: Let_def)
  next
    case (handshake err s2)
    with table [OF handshake(1)] show ?thesis by (auto simp: Let_def split: option.splits)
  next
    case (no_user s2)
    note at = table [OF no_user(1)]
    have us: "ui_users (sv_users s2) = ui_users (sv_users s)"
      using no_user(1) by (cases rule: server_handshakeE) simp_all
    from no_user(2) show ?thesis
      by (cases rule: pull_userE) (use at us no_user(3) in \<open>auto simp: Let_def\<close>)
  next
    case (config s2 user s3)
    note at = table [OF config(1)]
    have us: "ui_users (sv_users s2) = ui_users (sv_users s)"
      using config(1) by (cases rule: server_handshakeE) simp_all
    have oc: "oc \<noteq> Upgrade_failed" "oc \<noteq> Handshake_failed" "sv_sessions s' = sv_sessions s3"
      using config(3) by (cases rule: handle_configE; simp)+
    from config(2) show ?thesis
    proof (cases rule: pull_userE)
      case off
      with at us oc show ?thesis by (auto simp: Let_def split: option.splits)
    next
      case (user u)
      with at us oc show ?thesis by (auto simp: Let_def)
    qed simp
  qed
qed

text \<open>
  A handshake that fails after the password was accepted leaves its entry in the table of
  SSH sessions for good: it still holds the authenticated user when the handler returns.
\<close>

theorem late_handshake_error_leaks:
  assumes run: "handle_websocket rx os ce s tr = (oc, acts, s', tr')"
    and up: "ce_upgrade_err ce = None" and err: "ce_handshake_err ce = Some e"
    and on: "users_len (ui_users (sv_users s)) \<noteq> 0"
    and ok: "fst (try_passwords (ce_ssh_id ce) (ce_attempts ce) s)"
  shows "oc = Handshake_failed \<and> (\<exists>name u. users_get name (ui_users (sv_users s)) = Some u
    \<and> users_get (ce_ssh_id ce) (sv_sessions s') = Some u)"
proof -
  let ?s1 = "accepted_server ce s"
  have "fst (try_passwords (ce_ssh_id ce) (ce_attempts ce) ?s1) = fst (try_passwords (ce_ssh_id ce) (ce_attempts ce) s)"
    by (rule try_passwords_same) simp
  then have ok1: "fst (try_passwords (ce_ssh_id ce) (ce_attempts ce) ?s1)" using ok by simp
  obtain s2 where t: "try_passwords (ce_ssh_id ce) (ce_attempts ce) ?s1 = (True, s2)"
    using ok1 by (metis prod.collapse)
  then have h: "server_handshake ce ?s1 = (Some e, s2)" by (simp add: server_handshake_def err)
  from t obtain name u where u: "users_get name (ui_users (sv_users s)) = Some u"
    "users_get (ce_ssh_id ce) (sv_sessions s2) = Some u"
    by (cases rule: try_passwordsE) (use on in auto)
  from run show ?thesis
  proof (cases rule: handle_websocketE)
    case (handshake err s2')
    with h u show ?thesis by auto
  qed (use up h in simp_all)
qed

text \<open>Connections handled one after the other, with their session ids.\<close>

fun handle_all ::
    "'re regex_lib \<Rightarrow> os \<Rightarrow> 're conn_env list \<Rightarrow> 're server \<Rightarrow> os_trace \<Rightarrow> string list" where
  "handle_all rx os [] s tr = []"
| "handle_all rx os (ce # ces) s tr =
     (case handle_websocket rx os ce s tr of
        (oc, acts, s', tr') \<Rightarrow> session_id_of s # handle_all rx os ces s' tr')"

lemma handle_all_ids:
  "handle_all rx os ces s tr =
     map (\<lambda>i. itoa (sint (sv_sess_count s + 1 + word_of_nat i))) [0..<length ces]"
proof (induction ces arbitrary: s tr)
  case Nil
  then show ?case by simp
next
  case (Cons ce ces)
  obtain oc acts s' tr' where h: "handle_websocket rx os ce s tr = (oc, acts, s', tr')"
    by (metis prod_cases4)
  have c: "sv_sess_count s' = sv_sess_count s + 1" using handle_status [OF h] by simp
  show ?case
    by (simp add: h Cons.IH c session_id_of_def upt_conv_Cons map_Suc_upt [symmetric] ac_simps
        del: upt_Suc map_Suc_upt)
qed

lemma word_of_nat_inj32:
  assumes "i < 2 ^ 32" and "j < 2 ^ 32" and "(word_of_nat i :: 32 word) = word_of_nat j"
  shows "i = j"
proof -
  have "unat (word_of_nat i :: 32 word) = i" "unat (word_of_nat j :: 32 word) = j"
    using assms(1,2) by (simp_all add: unat_of_nat)
  with assms(3) show ?thesis by metis
qed

text \<open>
  Session ids do not repeat within the range of the counter: any run of at most \<open>2 ^ 32\<close>
  connections, whatever becomes of them, gets pairwise different ids, although the 32-bit counter
  wraps to negative numbers on the way.
\<close>

theorem session_ids_distinct:
  assumes "length ces \<le> 2 ^ 32"
  shows "distinct (handle_all rx os ces s tr)"
proof -
  have "inj_on (\<lambda>i. itoa (sint (sv_sess_count s + 1 + word_of_nat i))) (set [0..<length ces])"
  proof (rule inj_onI)
    fix i j
    assume ij: "i \<in> set [0..<length ces]" "j \<in> set [0..<length ces]"
      and "itoa (sint (sv_sess_count s + 1 + word_of_nat i)) = itoa (sint (sv_sess_count s + 1 + word_of_nat j))"
    then have "sint (sv_sess_count s + 1 + word_of_nat i) = sint (sv_sess_count s + 1 + word_of_nat j)"
      by (blast dest: itoa_inj)
    then have "sv_sess_count s + 1 + word_of_nat i = sv_sess_count s + 1 + (word_of_nat j :: 32 word)"
      by (rule signed_word_eqI)
    then have "(word_of_nat i :: 32 word) = word_of_nat j" by simp
    then show "i = j" using ij assms by (intro word_of_nat_inj32) auto
  qed
  then show ?thesis unfolding handle_all_ids by (simp only: distinct_map distinct_upt)
qed

text \<open>
  A request reaches the websocket handler exactly if it asks for an upgrade to websocket, in any
  letter case, with the server's exact protocol version. With a reverse proxy
  everything else goes there; without one the health and version pages answer, and
  everything else is not found: a plain request never reaches a tunnel.
\<close>

theorem routing:
  "(handle_client lib s r = To_websocket) =
     (to_lower lib (hr_upgrade r) = ''websocket'' \<and> hr_protocol r = ''chisel-v3'')
   \<and> handle_client lib s r \<in>
       {To_websocket} \<union>
       (if sv_reverse_proxy s \<noteq> None then {To_reverse_proxy}
        else if hr_path r = ''/health'' then {Respond 200 (''OK'' @ [CHR 0x0A])}
        else if hr_path r = ''/version'' then {Respond 200 ''0.0.0-src''}
        else {Respond 404 ''Not found''})"
  by (simp add: handle_client_def protocol_version_def build_version_def)


subsection \<open>Concrete connections\<close>

definition demo_user :: "string user" where
  "demo_user = \<lparr>user_name = ''ann'', user_pass = ''p'', user_addrs = [''R:0.0.0.0:80'']\<rparr>"

definition demo_config :: server_config where
  "demo_config = \<lparr>sc_key_seed = [], sc_key_file = [], sc_auth_file = [], sc_auth = [], sc_proxy = [],
     sc_socks5 = False, sc_reverse = True, sc_keep_alive = 0, sc_otel_enabled = False, sc_otel_endpoint = []\<rparr>"

definition demo_server :: "string users \<Rightarrow> string server" where
  "demo_server us = \<lparr>sv_config = demo_config, sv_fingerprint = [], sv_reverse_proxy = None,
     sv_sess_count = 0, sv_sessions = [], sv_users = \<lparr>ui_users = us, ui_config_file = []\<rparr>,
     sv_tel = \<lparr>tel_monitor = new_monitor_state, tel_otel = None\<rparr>\<rparr>"

definition demo_conn :: "request_wait \<Rightarrow> remote option list \<Rightarrow> string conn_env" where
  "demo_conn req rs = \<lparr>ce_addr = ''10.0.0.9:4'', ce_upgrade_err = None,
     ce_attempts = [(''ann'', ''x''), (''ann'', ''p'')], ce_ssh_id = ''sess'', ce_handshake_err = None,
     ce_meanwhile = id, ce_request = req, ce_decode = (\<lambda>_. Some \<lparr>cfg_version = [], cfg_remotes = rs\<rparr>),
     ce_tunnel = [Tunnel_state Endpoint_state_active ''R:80=>10.0.0.1:80'' [] 5 6], ce_clock = Suc\<rparr>"

definition demo_run :: "string users \<Rightarrow> string conn_env \<Rightarrow> outcome \<times> ssh_action list \<times> string server \<times> os_trace" where
  "demo_run us ce = handle_websocket toy_regex calm_os ce (demo_server us) []"

definition demo_users :: "string users" where "demo_users = [(''ann'', demo_user)]"

lemma demo_runI: "fst (demo_run us ce) = oc \<Longrightarrow>
   handle_websocket toy_regex calm_os ce (demo_server us) [] =
     (oc, fst (snd (demo_run us ce)), fst (snd (snd (demo_run us ce))), snd (snd (snd (demo_run us ce))))"
  unfolding demo_run_def by (metis prod.collapse)

lemma demo_served:
  "fst (demo_run demo_users (demo_conn (Request ''config'' []) [Some (tcp_remote ''80'')])) = Served [tcp_remote ''80'']"
  by code_simp

lemma demo_null:
  "fst (demo_run demo_users (demo_conn (Request ''config'' []) [None])) = Panicked"
  by code_simp

lemma demo_setup:
  "users_get (ce_ssh_id (demo_conn req rs)) (sv_sessions (demo_server us)) = None"
  "users_len (ui_users (sv_users (demo_server demo_users))) \<noteq> 0"
  "ce_meanwhile (demo_conn req rs) = id"
  "session_id_of (demo_server us) = ''1''"
  by (simp_all add: demo_conn_def demo_server_def users_get_def users_len_def demo_users_def)
    (code_simp)

theorem served_is_authorised_witness:
  "\<exists>name pass u. (name, pass) \<in> {(''ann'', ''x''), (''ann'', ''p'')}
    \<and> users_get name demo_users = Some u \<and> user_pass u = pass
    \<and> has_access toy_regex u (user_addr (tcp_remote ''80''))"
proof -
  let ?ce = "demo_conn (Request ''config'' []) [Some (tcp_remote ''80'')]"
  have "ce_meanwhile ?ce = id" "set (ce_attempts ?ce) = {(''ann'', ''x''), (''ann'', ''p'')}"
    "ui_users (sv_users (demo_server demo_users)) = demo_users"
    by (simp_all add: demo_conn_def demo_server_def)
  with served_is_authorised [OF demo_runI [OF demo_served] demo_setup(1)] demo_setup(2)
  show ?thesis by simp
qed

theorem served_config_checked_witness:
  "case demo_run demo_users (demo_conn (Request ''config'' []) [Some (tcp_remote ''80'')]) of
     (oc, acts, s', tr') \<Rightarrow> oc = Served [tcp_remote ''80''] \<and> acts = [Reply True []] \<and> open_listeners tr' = []"
proof -
  let ?x = "demo_run demo_users (demo_conn (Request ''config'' []) [Some (tcp_remote ''80'')])"
  show ?thesis
    using served_config_checked [where rx = toy_regex and os = calm_os and s = "demo_server demo_users"
        and ce = "demo_conn (Request ''config'' []) [Some (tcp_remote ''80'')]" and tr = "[]"] demo_served
    by (auto simp: demo_run_def split: prod.splits)
qed

theorem panic_situations_witness:
  "let x = demo_run demo_users (demo_conn (Request ''config'' []) [None])
   in fst x = Panicked \<and> fst (snd x) = []
     \<and> session_status_of (tel_monitor (sv_tel (fst (snd (snd x))))) ''1'' = Some Session_pending"
  using panic_situations [OF demo_runI [OF demo_null] demo_setup(1)] demo_null demo_setup(4)
  by (simp add: Let_def)

theorem session_table_restored_witness:
  "let kept = demo_conn (Request ''config'' []) [Some (tcp_remote ''80'')];
       emptied = kept\<lparr>ce_meanwhile := (\<lambda>_. [])\<rparr>
   in users_get ''sess'' (sv_sessions (fst (snd (snd (demo_run demo_users kept))))) = None
    \<and> (\<exists>u. users_get ''sess'' (sv_sessions (fst (snd (snd (demo_run demo_users emptied))))) = Some u)"
proof -
  let ?kept = "demo_conn (Request ''config'' []) [Some (tcp_remote ''80'')]"
  let ?emptied = "?kept\<lparr>ce_meanwhile := (\<lambda>_. [])\<rparr>"
  have us: "ui_users (sv_users (demo_server demo_users)) = demo_users" by (simp add: demo_server_def)
  have id: "ce_ssh_id ?kept = ''sess''" "ce_ssh_id ?emptied = ''sess''" by (simp_all add: demo_conn_def)
  have len: "users_len demo_users \<noteq> 0" "users_len [] = 0" by code_simp+
  have m: "ce_meanwhile ?kept demo_users = demo_users" "ce_meanwhile ?emptied demo_users = []"
    by (simp_all add: demo_conn_def)
  have oc: "fst (demo_run demo_users ?emptied) = Served [tcp_remote ''80'']" by code_simp
  have f: "users_get (ce_ssh_id ?emptied) (sv_sessions (demo_server demo_users)) = None"
    using demo_setup(1) by simp
  have "users_get ''sess'' (sv_sessions (fst (snd (snd (demo_run demo_users ?kept))))) = None"
    using session_table_restored [OF demo_runI [OF demo_served] demo_setup(1), THEN conjunct2]
    unfolding us id m Let_def
    by (cases "users_get ''sess'' (sv_sessions (fst (snd (snd (demo_run demo_users ?kept)))))") (simp_all add: len)
  moreover have "\<exists>u. users_get ''sess'' (sv_sessions (fst (snd (snd (demo_run demo_users ?emptied))))) = Some u"
    using session_table_restored [OF demo_runI [OF oc] f, THEN conjunct2]
    unfolding us id m Let_def
    by (cases "users_get ''sess'' (sv_sessions (fst (snd (snd (demo_run demo_users ?emptied)))))") (simp_all add: len)
  ultimately show ?thesis unfolding Let_def ..
qed

theorem late_handshake_error_leaks_witness:
  "let ce = (demo_conn Timed_out [])\<lparr>ce_handshake_err := Some ''EOF''\<rparr>; x = demo_run demo_users ce
   in fst x = Handshake_failed \<and> (\<exists>u. users_get ''sess'' (sv_sessions (fst (snd (snd x)))) = Some u)"
proof -
  let ?ce = "(demo_conn Timed_out [])\<lparr>ce_handshake_err := Some ''EOF''\<rparr>"
  have e: "ce_upgrade_err ?ce = None" "ce_handshake_err ?ce = Some ''EOF''" "ce_ssh_id ?ce = ''sess''"
    by (simp_all add: demo_conn_def)
  have ok: "fst (try_passwords (ce_ssh_id ?ce) (ce_attempts ?ce) (demo_server demo_users))" by code_simp
  from late_handshake_error_leaks [OF demo_runI [OF refl] e(1,2) demo_setup(2) ok] e(3)
  show ?thesis by (auto simp: Let_def)
qed

theorem session_ids_distinct_witness:
  "handle_all toy_regex calm_os [demo_conn Timed_out [], demo_conn Requests_closed []] (demo_server []) []
     = [''1'', ''2''] \<and> distinct [''1'', ''2'']"
proof -
  let ?l = "handle_all toy_regex calm_os [demo_conn Timed_out [], demo_conn Requests_closed []] (demo_server []) []"
  have "?l = [''1'', ''2'']" by code_simp
  with session_ids_distinct [of "[demo_conn Timed_out [], demo_conn Requests_closed []]" toy_regex calm_os
      "demo_server []" "[]"]
  show ?thesis by simp
qed

end
