(* ===== verification/Sessions.thy ===== *)
theory Sessions
  imports Server_Facts
begin

text \<open>
  Any number of websocket connections handled at once. \<^verbatim>\<open>handleWebsocket\<close> (\<^verbatim>\<open>server/server_handler.go\<close>)
  runs in a goroutine per connection; here it is a machine whose steps are its calls on what the
  handlers share: the counter, the monitor, the users, the table of authenticated SSH sessions.
  The steps of different handlers interleave freely, and the users may change between any two.
  Run alone, the machine does what the function \<open>handle_websocket\<close> does.

  Two steps take more than one lock in the code. \<open>auth_user\<close> asks whether there are users, looks one up and
  stores it in the table of SSH sessions: if the last user is removed between the first two, the code
  refuses an attempt that the one step would let pass, and otherwise it does what the step does at the
  time of the look-up (of the first question, where that finds no users). \<open>pull_user\<close> asks whether there
  are users and then reads and deletes an entry that only its own handler touches, so it does what
  the step does at the time of the question. What the code can do beyond the steps is thus only to
  refuse more.
\<close>

subsection \<open>One handler\<close>

datatype handler_stage =
    Hs_arrived
  | Hs_numbered
  | Hs_registered
  | Hs_trying "(string \<times> string) list"
  | Hs_authenticated
  | Hs_handshaken
  | Hs_waiting
  | Hs_checking "remote option list" "remote list"
  | Hs_serving "remote list" "tunnel_event list"
  | Hs_over outcome

record 're handler =
  hn_env :: "'re conn_env"
  hn_sid :: string
  hn_user :: "'re user option"
  hn_acts :: "ssh_action list"
  hn_stage :: handler_stage

definition new_handler :: "'re conn_env \<Rightarrow> 're handler" where
  "new_handler ce = \<lparr>hn_env = ce, hn_sid = [], hn_user = None, hn_acts = [], hn_stage = Hs_arrived\<rparr>"

text \<open>A handler that fails: the monitor and the span hear of it, the client gets its reply.\<close>

definition handler_fails ::
    "outcome \<Rightarrow> string \<Rightarrow> string \<Rightarrow> ssh_action list \<Rightarrow> 're handler \<Rightarrow> 're server \<Rightarrow> os_trace \<Rightarrow>
     're handler \<times> 're server \<times> os_trace" where
  "handler_fails oc msg span_err acts h s tr =
     (h\<lparr>hn_acts := acts, hn_stage := Hs_over oc\<rparr>,
      fail_session (ce_clock (hn_env h)) (hn_sid h) (ce_addr (hn_env h)) msg span_err s, tr)"

text \<open>The step that takes the configuration request.\<close>

definition take_request ::
    "'re handler \<Rightarrow> 're server \<Rightarrow> os_trace \<Rightarrow> 're handler \<times> 're server \<times> os_trace" where
  "take_request h s tr =
     (let refuse = (\<lambda>msg. handler_fails (Config_failed msg) msg msg [Reply False msg] h s tr)
      in case ce_request (hn_env h) of
           Timed_out \<Rightarrow>
             handler_fails (Config_failed ''Timeout waiting for configuration'')
               ''Timeout waiting for configuration'' (srv_errorf ''timeout waiting for configuration'')
               [Close_ssh] h s tr
         | Requests_closed \<Rightarrow> (h\<lparr>hn_acts := [], hn_stage := Hs_over Panicked\<rparr>, s, tr)
         | Request ty payload \<Rightarrow>
             if ty \<noteq> ''config'' then refuse (srv_errorf ''expecting config request'')
             else (case ce_decode (hn_env h) payload of
                     None \<Rightarrow> refuse (srv_errorf ''invalid config'')
                   | Some c \<Rightarrow> (h\<lparr>hn_stage := Hs_checking (cfg_remotes c) []\<rparr>, s, tr)))"

text \<open>One turn of the loop over the remotes; after the last one the client is told and the tunnel starts.\<close>

definition check_next ::
    "'re regex_lib \<Rightarrow> os \<Rightarrow> remote option list \<Rightarrow> remote list \<Rightarrow> 're handler \<Rightarrow> 're server \<Rightarrow> os_trace \<Rightarrow>
     're handler \<times> 're server \<times> os_trace" where
  "check_next rx os rs vs h s tr =
     (let ce = hn_env h; clk = ce_clock ce; sid = hn_sid h
      in case rs of
           [] \<Rightarrow>
             (let s = on_tel (srv_mark_session_connected sid (clk 3) (clk 4) (clk 5)) s;
                  s = end_span sid (ce_addr ce) None s;
                  s = on_tel (with_otel (trace (Config_validated_span sid))) s
              in (h\<lparr>hn_acts := [Reply True []], hn_stage := Hs_serving vs (ce_tunnel ce)\<rparr>, s, tr))
         | x # xs \<Rightarrow>
             (case validate_remotes rx os (sc_reverse (sv_config s)) (hn_user h) [x] tr of
                (Nil_remote, tr) \<Rightarrow> (h\<lparr>hn_acts := [], hn_stage := Hs_over Panicked\<rparr>, s, tr)
              | (Invalid msg, tr) \<Rightarrow> handler_fails (Config_failed msg) msg msg [Reply False msg] h s tr
              | (Valid ws, tr) \<Rightarrow> (h\<lparr>hn_stage := Hs_checking xs (vs @ ws)\<rparr>, s, tr)))"

definition handler_step ::
    "'re regex_lib \<Rightarrow> os \<Rightarrow> 're handler \<times> 're server \<times> os_trace \<Rightarrow> 're handler \<times> 're server \<times> os_trace" where
  "handler_step rx os = (\<lambda>(h, s, tr).
     (let ce = hn_env h; clk = ce_clock ce; sid = hn_sid h
      in case hn_stage h of
           Hs_arrived \<Rightarrow>
             (let s = s\<lparr>sv_sess_count := sv_sess_count s + 1\<rparr>
              in (h\<lparr>hn_sid := itoa (sint (sv_sess_count s)), hn_stage := Hs_numbered\<rparr>, s, tr))
         | Hs_numbered \<Rightarrow>
             (h\<lparr>hn_stage := Hs_registered\<rparr>,
              on_tel (srv_mark_session_pending sid (ce_addr ce) (clk 0) (clk 1) (clk 2)) s, tr)
         | Hs_registered \<Rightarrow>
             (case ce_upgrade_err ce of
                Some err \<Rightarrow> handler_fails Upgrade_failed err err [] h s tr
              | None \<Rightarrow> (h\<lparr>hn_stage := Hs_trying (ce_attempts ce)\<rparr>, s, tr))
         | Hs_trying as \<Rightarrow>
             (case as of
                [] \<Rightarrow> handler_fails Handshake_failed ''ssh: unable to authenticate''
                        ''ssh: unable to authenticate'' [] h s tr
              | a # as \<Rightarrow>
                  (case auth_user (ce_ssh_id ce) a s of
                     (True, s) \<Rightarrow> (h\<lparr>hn_stage := Hs_authenticated\<rparr>, s, tr)
                   | (False, s) \<Rightarrow> (h\<lparr>hn_stage := Hs_trying as\<rparr>, s, tr)))
         | Hs_authenticated \<Rightarrow>
             (case ce_handshake_err ce of
                Some err \<Rightarrow> handler_fails Handshake_failed err err [] h s tr
              | None \<Rightarrow> (h\<lparr>hn_stage := Hs_handshaken\<rparr>, s, tr))
         | Hs_handshaken \<Rightarrow>
             (case pull_user (ce_ssh_id ce) s of
                (None, s) \<Rightarrow> (h\<lparr>hn_acts := [], hn_stage := Hs_over Panicked\<rparr>, s, tr)
              | (Some user, s) \<Rightarrow> (h\<lparr>hn_user := user, hn_stage := Hs_waiting\<rparr>, s, tr))
         | Hs_waiting \<Rightarrow> take_request h s tr
         | Hs_checking rs vs \<Rightarrow> check_next rx os rs vs h s tr
         | Hs_serving vs es \<Rightarrow>
             (case es of
                [] \<Rightarrow> (h\<lparr>hn_stage := Hs_over (Served vs)\<rparr>,
                       on_tel (srv_mark_session_disconnected sid (clk 6) (clk 7) (clk 8)) s, tr)
              | e # es \<Rightarrow> (h\<lparr>hn_stage := Hs_serving vs es\<rparr>, on_tel (run_srv [report_of sid e]) s, tr))
         | Hs_over oc \<Rightarrow> (h, s, tr)))"


subsection \<open>One handler alone\<close>

text \<open>What is left of the handler's work in each stage, in one go.\<close>

definition left_handshaken ::
    "'re regex_lib \<Rightarrow> os \<Rightarrow> 're conn_env \<Rightarrow> string \<Rightarrow> 're server \<Rightarrow> os_trace \<Rightarrow>
     outcome \<times> ssh_action list \<times> 're server \<times> os_trace" where
  "left_handshaken rx os ce sid s tr =
     (case pull_user (ce_ssh_id ce) s of
        (None, s) \<Rightarrow> (Panicked, [], s, tr)
      | (Some user, s) \<Rightarrow> handle_config rx os ce sid user s tr)"

definition left_authenticated ::
    "'re regex_lib \<Rightarrow> os \<Rightarrow> 're conn_env \<Rightarrow> string \<Rightarrow> 're server \<Rightarrow> os_trace \<Rightarrow>
     outcome \<times> ssh_action list \<times> 're server \<times> os_trace" where
  "left_authenticated rx os ce sid s tr =
     (case ce_handshake_err ce of
        Some err \<Rightarrow> (Handshake_failed, [], fail_session (ce_clock ce) sid (ce_addr ce) err err s, tr)
      | None \<Rightarrow> left_handshaken rx os ce sid s tr)"

definition left_trying ::
    "'re regex_lib \<Rightarrow> os \<Rightarrow> 're conn_env \<Rightarrow> string \<Rightarrow> (string \<times> string) list \<Rightarrow> 're server \<Rightarrow> os_trace \<Rightarrow>
     outcome \<times> ssh_action list \<times> 're server \<times> os_trace" where
  "left_trying rx os ce sid as s tr =
     (case try_passwords (ce_ssh_id ce) as s of
        (True, s) \<Rightarrow> left_authenticated rx os ce sid s tr
      | (False, s) \<Rightarrow>
          (Handshake_failed, [],
           fail_session (ce_clock ce) sid (ce_addr ce) ''ssh: unable to authenticate''
             ''ssh: unable to authenticate'' s, tr))"

definition left_registered ::
    "'re regex_lib \<Rightarrow> os \<Rightarrow> 're conn_env \<Rightarrow> string \<Rightarrow> 're server \<Rightarrow> os_trace \<Rightarrow>
     outcome \<times> ssh_action list \<times> 're server \<times> os_trace" where
  "left_registered rx os ce sid s tr =
     (case ce_upgrade_err ce of
        Some err \<Rightarrow> (Upgrade_failed, [], fail_session (ce_clock ce) sid (ce_addr ce) err err s, tr)
      | None \<Rightarrow> left_trying rx os ce sid (ce_attempts ce) s tr)"

definition left_checking ::
    "'re regex_lib \<Rightarrow> os \<Rightarrow> 're handler \<Rightarrow> remote option list \<Rightarrow> remote list \<Rightarrow> 're server \<Rightarrow> os_trace \<Rightarrow>
     outcome \<times> ssh_action list \<times> 're server \<times> os_trace" where
  "left_checking rx os h rs vs s tr =
     (let ce = hn_env h; sid = hn_sid h
      in case validate_remotes rx os (sc_reverse (sv_config s)) (hn_user h) rs tr of
           (Nil_remote, tr) \<Rightarrow> (Panicked, [], s, tr)
         | (Invalid msg, tr) \<Rightarrow>
             (Config_failed msg, [Reply False msg], fail_session (ce_clock ce) sid (ce_addr ce) msg msg s, tr)
         | (Valid ws, tr) \<Rightarrow> (Served (vs @ ws), [Reply True []], serve_tunnel ce sid s, tr))"

definition work_left ::
    "'re regex_lib \<Rightarrow> os \<Rightarrow> 're handler \<times> 're server \<times> os_trace \<Rightarrow>
     outcome \<times> ssh_action list \<times> 're server \<times> os_trace" where
  "work_left rx os = (\<lambda>(h, s, tr).
     (let ce = hn_env h; clk = ce_clock ce; sid = hn_sid h
      in case hn_stage h of
           Hs_arrived \<Rightarrow> left_registered rx os ce (session_id_of s) (accepted_server ce s) tr
         | Hs_numbered \<Rightarrow>
             left_registered rx os ce sid
               (on_tel (srv_mark_session_pending sid (ce_addr ce) (clk 0) (clk 1) (clk 2)) s) tr
         | Hs_registered \<Rightarrow> left_registered rx os ce sid s tr
         | Hs_trying as \<Rightarrow> left_trying rx os ce sid as s tr
         | Hs_authenticated \<Rightarrow> left_authenticated rx os ce sid s tr
         | Hs_handshaken \<Rightarrow> left_handshaken rx os ce sid s tr
         | Hs_waiting \<Rightarrow> handle_config rx os ce sid (hn_user h) s tr
         | Hs_checking rs vs \<Rightarrow> left_checking rx os h rs vs s tr
         | Hs_serving vs es \<Rightarrow>
             (Served vs, hn_acts h,
              on_tel (srv_mark_session_disconnected sid (clk 6) (clk 7) (clk 8))
                (on_tel (run_srv (map (report_of sid) es)) s), tr)
         | Hs_over oc \<Rightarrow> (oc, hn_acts h, s, tr)))"

lemma on_tel_on_tel: "on_tel f (on_tel g s) = on_tel (f \<circ> g) s"
  by (simp add: on_tel_def)

lemma run_srv_Cons: "run_srv (x # xs) = run_srv xs \<circ> run_srv [x]"
  by (simp add: run_srv_def fun_eq_iff)

lemma validate_Cons:
  "validate_remotes rx os rev_ok user (x # rs) tr =
     (case validate_remotes rx os rev_ok user [x] tr of
        (Valid ws, tr) \<Rightarrow>
          (case validate_remotes rx os rev_ok user rs tr of
             (Valid vs, tr) \<Rightarrow> (Valid (ws @ vs), tr) | (res, tr) \<Rightarrow> (res, tr))
      | (res, tr) \<Rightarrow> (res, tr))"
  by (cases x) (auto simp: Let_def split: prod.splits validation.splits option.splits)

lemma handshake_left:
  "left_registered rx os ce sid s tr =
     (case ce_upgrade_err ce of
        Some err \<Rightarrow> (Upgrade_failed, [], fail_session (ce_clock ce) sid (ce_addr ce) err err s, tr)
      | None \<Rightarrow>
          (case server_handshake ce s of
             (Some err, s) \<Rightarrow> (Handshake_failed, [], fail_session (ce_clock ce) sid (ce_addr ce) err err s, tr)
           | (None, s) \<Rightarrow> left_handshaken rx os ce sid s tr))"
  by (simp add: left_registered_def left_trying_def left_authenticated_def server_handshake_def
      split: option.split prod.split bool.split)

lemma arrived_left:
  assumes "ce_meanwhile ce = id"
  shows "handle_websocket rx os ce s tr = left_registered rx os ce (session_id_of s) (accepted_server ce s) tr"
proof -
  have same: "s\<lparr>sv_users := (sv_users s)\<lparr>ui_users := ui_users (sv_users s)\<rparr>\<rparr> = s" for s :: "'a server" by simp
  show ?thesis
    by (simp add: handshake_left left_handshaken_def accepted_server_def session_id_of_def
        handle_websocket_def Let_def assms same split: option.split prod.split)
qed


lemma work_left_step: "work_left rx os (handler_step rx os (h, s, tr)) = work_left rx os (h, s, tr)"
proof (cases "hn_stage h")
  case Hs_arrived
  then show ?thesis
    by (simp add: handler_step_def work_left_def Let_def session_id_of_def accepted_server_def)
next
  case Hs_numbered
  then show ?thesis by (simp add: handler_step_def work_left_def Let_def)
next
  case Hs_registered
  then show ?thesis
    by (simp add: handler_step_def work_left_def Let_def left_registered_def handler_fails_def split: option.split)
next
  case (Hs_trying as)
  then show ?thesis
    by (cases as) (simp_all add: handler_step_def work_left_def Let_def left_trying_def handler_fails_def
        split: option.split prod.split bool.split)
next
  case Hs_authenticated
  then show ?thesis
    by (simp add: handler_step_def work_left_def Let_def left_authenticated_def handler_fails_def split: option.split)
next
  case Hs_handshaken
  then show ?thesis
    by (simp add: handler_step_def work_left_def Let_def left_handshaken_def split: option.split prod.split)
next
  case Hs_waiting
  then show ?thesis
    by (auto simp: handler_step_def work_left_def Let_def handle_config_def take_request_def left_checking_def
        handler_fails_def split: option.split prod.split request_wait.split validation.split)
next
  case (Hs_checking rs vs)
  show ?thesis
  proof (cases rs)
    case Nil
    with Hs_checking show ?thesis
      by (simp add: handler_step_def work_left_def Let_def left_checking_def check_next_def serve_tunnel_def)
  next
    case (Cons x xs)
    with Hs_checking show ?thesis
      by (simp add: handler_step_def work_left_def Let_def left_checking_def check_next_def handler_fails_def
          validate_Cons [of rx os _ _ x xs] del: validate_remotes.simps
          split: prod.split validation.split)
  qed
next
  case (Hs_serving vs es)
  then show ?thesis
    by (cases es)
      (simp_all add: handler_step_def work_left_def Let_def on_tel_def run_srv_def)
next
  case (Hs_over oc)
  then show ?thesis by (simp add: handler_step_def work_left_def Let_def)
qed

text \<open>How many steps a handler has left, at most.\<close>

definition remotes_asked :: "'re conn_env \<Rightarrow> nat" where
  "remotes_asked ce =
     (case ce_request ce of
        Request ty payload \<Rightarrow>
          (case ce_decode ce payload of None \<Rightarrow> 0 | Some c \<Rightarrow> length (cfg_remotes c))
      | _ \<Rightarrow> 0)"

definition steps_left :: "'re handler \<Rightarrow> nat" where
  "steps_left h =
     (let ce = hn_env h; t = length (ce_tunnel ce); r = remotes_asked ce
      in case hn_stage h of
           Hs_arrived \<Rightarrow> length (ce_attempts ce) + r + t + 9
         | Hs_numbered \<Rightarrow> length (ce_attempts ce) + r + t + 8
         | Hs_registered \<Rightarrow> length (ce_attempts ce) + r + t + 7
         | Hs_trying as \<Rightarrow> length as + r + t + 6
         | Hs_authenticated \<Rightarrow> r + t + 5
         | Hs_handshaken \<Rightarrow> r + t + 4
         | Hs_waiting \<Rightarrow> r + t + 3
         | Hs_checking rs vs \<Rightarrow> length rs + t + 2
         | Hs_serving vs es \<Rightarrow> length es + 1
         | Hs_over oc \<Rightarrow> 0)"

lemma same_handler_fails [simp]:
  "hn_env (fst (handler_fails oc msg e acts h s tr)) = hn_env h"
  "hn_sid (fst (handler_fails oc msg e acts h s tr)) = hn_sid h"
  "sv_sess_count (fst (snd (handler_fails oc msg e acts h s tr))) = sv_sess_count s"
  "sv_config (fst (snd (handler_fails oc msg e acts h s tr))) = sv_config s"
  "sv_users (fst (snd (handler_fails oc msg e acts h s tr))) = sv_users s"
  "sv_sessions (fst (snd (handler_fails oc msg e acts h s tr))) = sv_sessions s"
  by (simp_all add: handler_fails_def)

lemma same_take_request [simp]:
  "hn_env (fst (take_request h s tr)) = hn_env h" "hn_sid (fst (take_request h s tr)) = hn_sid h"
  "sv_sess_count (fst (snd (take_request h s tr))) = sv_sess_count s"
  "sv_config (fst (snd (take_request h s tr))) = sv_config s"
  "sv_users (fst (snd (take_request h s tr))) = sv_users s"
  "sv_sessions (fst (snd (take_request h s tr))) = sv_sessions s"
  by (simp_all add: take_request_def Let_def split: request_wait.split option.split)

lemma same_check_next [simp]:
  "hn_env (fst (check_next rx os rs vs h s tr)) = hn_env h"
  "hn_sid (fst (check_next rx os rs vs h s tr)) = hn_sid h"
  "sv_sess_count (fst (snd (check_next rx os rs vs h s tr))) = sv_sess_count s"
  "sv_config (fst (snd (check_next rx os rs vs h s tr))) = sv_config s"
  "sv_users (fst (snd (check_next rx os rs vs h s tr))) = sv_users s"
  "sv_sessions (fst (snd (check_next rx os rs vs h s tr))) = sv_sessions s"
  by (cases rs; simp add: check_next_def Let_def split: prod.split validation.split)+

lemma env_step [simp]: "hn_env (fst (handler_step rx os (h, s, tr))) = hn_env h"
proof (cases "hn_stage h")
  case (Hs_trying as)
  then show ?thesis
    by (cases as) (simp_all add: handler_step_def Let_def split: prod.split bool.split)
next
  case (Hs_serving vs es)
  then show ?thesis by (cases es) (simp_all add: handler_step_def Let_def)
qed (simp_all add: handler_step_def Let_def split: option.split prod.split)

lemma steps_left_step:
  assumes "steps_left h \<noteq> 0"
  shows "steps_left (fst (handler_step rx os (h, s, tr))) < steps_left h"
proof (cases "hn_stage h")
  case (Hs_trying as)
  then show ?thesis
    by (cases as) (auto simp: handler_step_def steps_left_def Let_def handler_fails_def
        split: option.split prod.split bool.split)
next
  case Hs_waiting
  then show ?thesis
    by (auto simp: handler_step_def steps_left_def Let_def take_request_def remotes_asked_def
        handler_fails_def split: option.split request_wait.split)
next
  case (Hs_checking rs vs)
  then show ?thesis
    by (cases rs) (auto simp: handler_step_def steps_left_def Let_def check_next_def
        handler_fails_def simp del: validate_remotes.simps split: prod.split validation.split)
next
  case (Hs_serving vs es)
  then show ?thesis by (cases es) (simp_all add: handler_step_def steps_left_def Let_def)
next
  case (Hs_over oc)
  with assms show ?thesis by (simp add: steps_left_def Let_def)
qed (auto simp: handler_step_def steps_left_def Let_def handler_fails_def split: option.split prod.split)

lemma steps_left_0: "steps_left h = 0 \<longleftrightarrow> (\<exists>oc. hn_stage h = Hs_over oc)"
  by (simp add: steps_left_def Let_def split: handler_stage.split)


definition run_handler ::
    "'re regex_lib \<Rightarrow> os \<Rightarrow> nat \<Rightarrow> 're handler \<times> 're server \<times> os_trace \<Rightarrow> 're handler \<times> 're server \<times> os_trace" where
  "run_handler rx os n x = ((handler_step rx os) ^^ n) x"

lemma run_handler_Suc: "run_handler rx os (Suc n) x = run_handler rx os n (handler_step rx os x)"
  by (simp add: run_handler_def funpow_swap1)

lemma run_handler_ends:
  assumes "steps_left h \<le> n"
  shows "case run_handler rx os n (h, s, tr) of (h', s', tr') \<Rightarrow>
    \<exists>oc. hn_stage h' = Hs_over oc \<and> work_left rx os (h, s, tr) = (oc, hn_acts h', s', tr')"
  using assms
proof (induction n arbitrary: h s tr)
  case 0
  then obtain oc where "hn_stage h = Hs_over oc" using steps_left_0 [of h] by auto
  then show ?case by (simp add: run_handler_def work_left_def Let_def)
next
  case (Suc n)
  obtain h1 s1 tr1 where step: "handler_step rx os (h, s, tr) = (h1, s1, tr1)" by (metis prod_cases3)
  have env: "hn_env h1 = hn_env h" using env_step [of rx os h s tr] by (simp add: step)
  have left: "steps_left h1 \<le> n"
  proof (cases "steps_left h = 0")
    case True
    then obtain oc where "hn_stage h = Hs_over oc" using steps_left_0 [of h] by auto
    then have "h1 = h" using step by (simp add: handler_step_def Let_def)
    with True show ?thesis by simp
  next
    case False
    from steps_left_step [OF this, of rx os s tr] Suc.prems show ?thesis by (simp add: step)
  qed
  have "work_left rx os (h1, s1, tr1) = work_left rx os (h, s, tr)"
    using work_left_step [of rx os h s tr] by (simp add: step)
  with Suc.IH [OF left, of s1 tr1] env show ?case
    by (simp add: run_handler_Suc step)
qed

text \<open>
  A handler that nobody disturbs does what \<open>handle_websocket\<close> does: the machine and the function are the
  same handler in two forms.
\<close>

lemma handler_is_function:
  assumes "ce_meanwhile ce = id"
    and "length (ce_attempts ce) + remotes_asked ce + length (ce_tunnel ce) + 9 \<le> n"
  shows "case run_handler rx os n (new_handler ce, s, tr) of (h, s', tr') \<Rightarrow>
    \<exists>oc. hn_stage h = Hs_over oc \<and> handle_websocket rx os ce s tr = (oc, hn_acts h, s', tr')"
proof -
  have "steps_left (new_handler ce) \<le> n" using assms(2) by (simp add: steps_left_def new_handler_def)
  from run_handler_ends [OF this, of rx os s tr] assms(1) show ?thesis
    by (simp add: new_handler_def work_left_def arrived_left)
qed

text \<open>The user a client is logged in as: that of the first pair it presents that is a name of the table with its password.\<close>

fun admitted :: "'re users \<Rightarrow> (string \<times> string) list \<Rightarrow> 're user option" where
  "admitted us [] = None"
| "admitted us ((n, p) # as) =
     (case users_get n us of
        Some u \<Rightarrow> if user_pass u = p then Some u else admitted us as
      | None \<Rightarrow> admitted us as)"

lemma try_passwords_admitted:
  assumes "users_len (ui_users (sv_users s)) \<noteq> 0"
  shows "try_passwords i as s =
    (case admitted (ui_users (sv_users s)) as of
       None \<Rightarrow> (False, s)
     | Some u \<Rightarrow> (True, s\<lparr>sv_sessions := users_set i u (sv_sessions s)\<rparr>))"
proof (induction as)
  case (Cons a as)
  then show ?case using assms by (cases a) (auto simp: auth_user_def split: option.split)
qed simp

lemma try_passwords_open:
  assumes "users_len (ui_users (sv_users s)) = 0"
  shows "try_passwords i as s = (as \<noteq> [], s)"
  using assms by (cases as) (simp_all add: auth_user_def)

lemma handle_config_served:
  assumes os: "\<And>payload c r tr. ce_decode ce payload = Some c \<Longrightarrow> Some r \<in> set (cfg_remotes c) \<Longrightarrow> reversed r \<Longrightarrow>
      fst (can_listen os r tr)"
  shows "fst (handle_config rx os ce sid user s tr) = Served vs \<longleftrightarrow>
    (\<exists>payload c. ce_request ce = Request ''config'' payload \<and> ce_decode ce payload = Some c \<and> cfg_remotes c = map Some vs)
    \<and> (\<forall>r \<in> set vs. remote_allowed rx (sc_reverse (sv_config s)) user r)"
proof
  obtain oc acts s' tr' where h: "handle_config rx os ce sid user s tr = (oc, acts, s', tr')" by (metis prod_cases4)
  assume "fst (handle_config rx os ce sid user s tr) = Served vs"
  with h have "oc = Served vs" by simp
  from h show "(\<exists>payload c. ce_request ce = Request ''config'' payload \<and> ce_decode ce payload = Some c \<and> cfg_remotes c = map Some vs)
    \<and> (\<forall>r \<in> set vs. remote_allowed rx (sc_reverse (sv_config s)) user r)"
    by (cases rule: handle_configE) (use \<open>oc = Served vs\<close> in auto)
next
  assume "(\<exists>payload c. ce_request ce = Request ''config'' payload \<and> ce_decode ce payload = Some c \<and> cfg_remotes c = map Some vs)
    \<and> (\<forall>r \<in> set vs. remote_allowed rx (sc_reverse (sv_config s)) user r)"
  then obtain payload c where c: "ce_request ce = Request ''config'' payload" "ce_decode ce payload = Some c"
      "cfg_remotes c = map Some vs"
    and ok: "\<forall>r \<in> set vs. remote_allowed rx (sc_reverse (sv_config s)) user r" by blast
  have "\<And>r tr. r \<in> set vs \<Longrightarrow> reversed r \<Longrightarrow> fst (can_listen os r tr)" using os [OF c(2)] c(3) by simp
  from validate_decides [of vs os rx "sc_reverse (sv_config s)" user tr, OF this] ok
  obtain tr' where "validate_remotes rx os (sc_reverse (sv_config s)) user (map Some vs) tr = (Valid vs, tr')"
    by (cases "validate_remotes rx os (sc_reverse (sv_config s)) user (map Some vs) tr") auto
  with c show "fst (handle_config rx os ce sid user s tr) = Served vs" by (simp add: handle_config_def Let_def)
qed

lemma handle_config_acts:
  "handle_config rx os ce sid user s tr = (oc, acts, s', tr') \<Longrightarrow>
   acts = (case oc of
     Served vs \<Rightarrow> [Reply True []]
   | Config_failed msg \<Rightarrow> if ce_request ce = Timed_out then [Close_ssh] else [Reply False msg]
   | _ \<Rightarrow> [])"
  by (auto simp: handle_config_def Let_def
      split: request_wait.splits option.splits if_splits prod.splits validation.splits)

lemma left_registered_served:
  assumes os: "\<And>payload c r tr. ce_decode ce payload = Some c \<Longrightarrow> Some r \<in> set (cfg_remotes c) \<Longrightarrow> reversed r \<Longrightarrow>
      fst (can_listen os r tr)"
  shows "fst (left_registered rx os ce sid s tr) = Served vs \<longleftrightarrow>
    ce_upgrade_err ce = None \<and> ce_handshake_err ce = None
    \<and> (\<exists>payload c. ce_request ce = Request ''config'' payload \<and> ce_decode ce payload = Some c \<and> cfg_remotes c = map Some vs)
    \<and> (\<forall>r \<in> set vs. reversed r \<longrightarrow> sc_reverse (sv_config s))
    \<and> (if users_len (ui_users (sv_users s)) = 0 then ce_attempts ce \<noteq> []
       else \<exists>u. admitted (ui_users (sv_users s)) (ce_attempts ce) = Some u \<and> (\<forall>r \<in> set vs. has_access rx u (user_addr r)))"
proof (cases "ce_upgrade_err ce = None \<and> ce_handshake_err ce = None")
  case False
  then show ?thesis
    by (auto simp: left_registered_def left_trying_def left_authenticated_def split: option.splits prod.splits bool.splits)
next
  case True
  note served = handle_config_served [of ce os, OF os]
  show ?thesis
  proof (cases "users_len (ui_users (sv_users s)) = 0")
    case off: True
    with True show ?thesis
      by (cases "ce_attempts ce")
        (auto simp: left_registered_def left_trying_def left_authenticated_def left_handshaken_def
          try_passwords_open pull_user_def served remote_allowed_def simp del: try_passwords.simps)
  next
    case on: False
    show ?thesis
    proof (cases "admitted (ui_users (sv_users s)) (ce_attempts ce)")
      case None
      with True on show ?thesis
        by (simp add: left_registered_def left_trying_def try_passwords_admitted)
    next
      case (Some u)
      with True on show ?thesis
        by (auto simp: left_registered_def left_trying_def left_authenticated_def left_handshaken_def
          try_passwords_admitted pull_user_def served remote_allowed_def)
    qed
  qed
qed

lemma left_registered_acts:
  assumes "left_registered rx os ce sid s tr = (oc, acts, s', tr')"
  shows "acts = (case oc of
     Served vs \<Rightarrow> [Reply True []]
   | Config_failed msg \<Rightarrow> if ce_request ce = Timed_out then [Close_ssh] else [Reply False msg]
   | _ \<Rightarrow> [])"
  using assms handle_config_acts
  by (auto simp: left_registered_def left_trying_def left_authenticated_def left_handshaken_def
      split: option.splits prod.splits bool.splits)

lemma left_registered_meanwhile:
  "left_registered rx os (ce\<lparr>ce_meanwhile := f\<rparr>) sid s tr = left_registered rx os ce sid s tr"
proof -
  let ?ce = "ce\<lparr>ce_meanwhile := f\<rparr>"
  have same: "ce_addr ?ce = ce_addr ce" "ce_upgrade_err ?ce = ce_upgrade_err ce" "ce_attempts ?ce = ce_attempts ce"
    "ce_ssh_id ?ce = ce_ssh_id ce" "ce_handshake_err ?ce = ce_handshake_err ce" "ce_request ?ce = ce_request ce"
    "ce_decode ?ce = ce_decode ce" "ce_tunnel ?ce = ce_tunnel ce" "ce_clock ?ce = ce_clock ce" by simp_all
  show ?thesis
    unfolding left_registered_def left_trying_def left_authenticated_def left_handshaken_def
      handle_config_def serve_tunnel_def same ..
qed

lemma left_registered_status:
  assumes "left_registered rx os ce (session_id_of s) (accepted_server ce s) tr = (oc, acts, s', tr')"
  shows "session_status_of (tel_monitor (sv_tel s')) (session_id_of s) = Some (final_status oc)"
proof -
  let ?ce = "ce\<lparr>ce_meanwhile := id\<rparr>"
  have "accepted_server ?ce s = accepted_server ce s" by (simp add: accepted_server_def)
  with assms have "handle_websocket rx os ?ce s tr = (oc, acts, s', tr')"
    using arrived_left [of ?ce rx os s tr] by (simp add: left_registered_meanwhile)
  from handle_status [OF this] show ?thesis by simp
qed

text \<open>
  C9. What becomes of a handler that nobody disturbs. From the arrival of the connection it comes to
  its end after at most one step per password tried, remote asked for and report of its tunnel, and
  nine more. It serves a list of remotes exactly if the upgrade and the handshake succeed, the first
  request is a configuration that decodes to these remotes and no null one, the server permits reverse
  remotes if any of them is one, and, if users are configured, the first pair presented that is a name
  with its password belongs to a user whose access list allows every remote. The client is told just
  that: yes if it is served, the reason if its configuration is refused, and nothing but the
  closed connection if it sent none in time; and the monitor has the status that matches. (The
  system is taken to let the server listen where a reverse remote wants it.)
\<close>

theorem handler_alone:
  assumes steps: "length (ce_attempts ce) + remotes_asked ce + length (ce_tunnel ce) + 9 \<le> n"
    and os: "\<forall>payload c r tr. ce_decode ce payload = Some c \<and> Some r \<in> set (cfg_remotes c) \<and> reversed r \<longrightarrow>
      fst (can_listen os r tr)"
  shows "case run_handler rx os n (new_handler ce, s, tr) of (h, s', tr') \<Rightarrow>
    \<exists>oc. hn_stage h = Hs_over oc
    \<and> (\<forall>vs. oc = Served vs \<longleftrightarrow>
         ce_upgrade_err ce = None \<and> ce_handshake_err ce = None
         \<and> (\<exists>payload c. ce_request ce = Request ''config'' payload \<and> ce_decode ce payload = Some c
              \<and> cfg_remotes c = map Some vs)
         \<and> (\<forall>r \<in> set vs. reversed r \<longrightarrow> sc_reverse (sv_config s))
         \<and> (if users_len (ui_users (sv_users s)) = 0 then ce_attempts ce \<noteq> []
            else \<exists>u. admitted (ui_users (sv_users s)) (ce_attempts ce) = Some u
                   \<and> (\<forall>r \<in> set vs. has_access rx u (user_addr r))))
    \<and> hn_acts h = (case oc of
         Served vs \<Rightarrow> [Reply True []]
       | Config_failed msg \<Rightarrow> if ce_request ce = Timed_out then [Close_ssh] else [Reply False msg]
       | _ \<Rightarrow> [])
    \<and> session_status_of (tel_monitor (sv_tel s')) (session_id_of s) = Some (case oc of
         Served vs \<Rightarrow> Session_disconnected | Panicked \<Rightarrow> Session_pending | _ \<Rightarrow> Session_failed)"
proof -
  obtain h s' tr' where run: "run_handler rx os n (new_handler ce, s, tr) = (h, s', tr')" by (metis prod_cases3)
  have "steps_left (new_handler ce) \<le> n" using steps by (simp add: steps_left_def new_handler_def)
  from run_handler_ends [OF this, of rx os s tr, unfolded run prod.case] obtain oc
    where over: "hn_stage h = Hs_over oc" and work: "work_left rx os (new_handler ce, s, tr) = (oc, hn_acts h, s', tr')"
    by blast
  from work have left: "left_registered rx os ce (session_id_of s) (accepted_server ce s) tr = (oc, hn_acts h, s', tr')"
    by (simp add: new_handler_def work_left_def)
  have same: "sv_users (accepted_server ce s) = sv_users s" "sv_config (accepted_server ce s) = sv_config s" by simp_all
  have final: "final_status oc = (case oc of
      Served vs \<Rightarrow> Session_disconnected | Panicked \<Rightarrow> Session_pending | _ \<Rightarrow> Session_failed)" by (cases oc) simp_all
  have served: "oc = Served vs \<longleftrightarrow>
         ce_upgrade_err ce = None \<and> ce_handshake_err ce = None
         \<and> (\<exists>payload c. ce_request ce = Request ''config'' payload \<and> ce_decode ce payload = Some c
              \<and> cfg_remotes c = map Some vs)
         \<and> (\<forall>r \<in> set vs. reversed r \<longrightarrow> sc_reverse (sv_config s))
         \<and> (if users_len (ui_users (sv_users s)) = 0 then ce_attempts ce \<noteq> []
            else \<exists>u. admitted (ui_users (sv_users s)) (ce_attempts ce) = Some u
                   \<and> (\<forall>r \<in> set vs. has_access rx u (user_addr r)))" for vs
    using left_registered_served [where ce = ce and os = os and rx = rx and sid = "session_id_of s"
        and s = "accepted_server ce s" and tr = tr and vs = vs]
      os unfolding left fst_conv same by blast
  show ?thesis
    unfolding run prod.case
    using over served left_registered_acts [OF left] left_registered_status [OF left, unfolded final] by blast
qed

theorem handler_alone_witness:
  "let run = (\<lambda>us. run_handler toy_regex calm_os 13
         (new_handler (demo_conn (Request ''config'' []) [Some (tcp_remote ''80'')]), demo_server us, []))
   in hn_stage (fst (run demo_users)) = Hs_over (Served [tcp_remote ''80''])
    \<and> hn_acts (fst (run demo_users)) = [Reply True []]
    \<and> hn_stage (fst (run [(''ann'', demo_user\<lparr>user_addrs := [''x'']\<rparr>)])) \<noteq> Hs_over (Served [tcp_remote ''80''])"
proof -
  let ?ce = "demo_conn (Request ''config'' []) [Some (tcp_remote ''80'')]"
  let ?us = "[(''ann'', demo_user\<lparr>user_addrs := [''x'']\<rparr>)]"
  have n: "length (ce_attempts ?ce) + remotes_asked ?ce + length (ce_tunnel ?ce) + 9 \<le> 13"
    by (simp add: demo_conn_def remotes_asked_def)
  have os: "\<forall>payload c r tr. ce_decode ?ce payload = Some c \<and> Some r \<in> set (cfg_remotes c) \<and> reversed r \<longrightarrow>
      fst (can_listen calm_os r tr)"
    by (auto simp: demo_conn_def can_listen_def tcp_remote_def zero_remote_def calm_os_def sys_def is_uds_def
        uds_mode_listen_def uds_mode_pair_def Let_def)
  have env: "ce_upgrade_err ?ce = None" "ce_handshake_err ?ce = None" "ce_request ?ce = Request ''config'' []"
    "ce_decode ?ce = (\<lambda>_. Some \<lparr>cfg_version = [], cfg_remotes = [Some (tcp_remote ''80'')]\<rparr>)"
    "sc_reverse (sv_config (demo_server us))" "ui_users (sv_users (demo_server us)) = us" for us
    by (simp_all add: demo_conn_def demo_server_def demo_config_def)
  have yes: "users_len demo_users \<noteq> 0" "admitted demo_users (ce_attempts ?ce) = Some demo_user"
    "has_access toy_regex demo_user (user_addr (tcp_remote ''80''))" by code_simp+
  have no: "users_len ?us \<noteq> 0" "admitted ?us (ce_attempts ?ce) = Some (demo_user\<lparr>user_addrs := [''x'']\<rparr>)"
    "\<not> has_access toy_regex (demo_user\<lparr>user_addrs := [''x'']\<rparr>) (user_addr (tcp_remote ''80''))" by code_simp+
  have "hn_stage (fst (run_handler toy_regex calm_os 13 (new_handler ?ce, demo_server us, []))) =
        Hs_over (Served [tcp_remote ''80'']) \<longleftrightarrow> has_access toy_regex u (user_addr (tcp_remote ''80''))"
    and "has_access toy_regex u (user_addr (tcp_remote ''80'')) \<longrightarrow>
          hn_acts (fst (run_handler toy_regex calm_os 13 (new_handler ?ce, demo_server us, []))) = [Reply True []]"
    if us: "users_len us \<noteq> 0" "admitted us (ce_attempts ?ce) = Some u" for us u
  proof -
    note alone = handler_alone [OF n os, where rx = toy_regex and s = "demo_server us" and tr = "[]"]
    then show "hn_stage (fst (run_handler toy_regex calm_os 13 (new_handler ?ce, demo_server us, []))) =
        Hs_over (Served [tcp_remote ''80'']) \<longleftrightarrow> has_access toy_regex u (user_addr (tcp_remote ''80''))"
      by (auto simp: us env split: prod.splits dest: spec [of _ "[tcp_remote ''80'']"])
    from alone show "has_access toy_regex u (user_addr (tcp_remote ''80'')) \<longrightarrow>
          hn_acts (fst (run_handler toy_regex calm_os 13 (new_handler ?ce, demo_server us, []))) = [Reply True []]"
      by (auto simp: us env split: prod.splits dest: spec [of _ "[tcp_remote ''80'']"])
  qed
  note this [OF yes(1,2)] this [OF no(1,2)]
  with yes(3) no(3) show ?thesis unfolding Let_def by blast
qed

subsection \<open>All handlers at once\<close>

text \<open>
  The server, its system calls, and the handlers of the connections that have come so far. A move is
  a new connection, a step of one handler, a change of the users (\<^verbatim>\<open>AddUser\<close>, \<^verbatim>\<open>DeleteUser\<close>,
  \<^verbatim>\<open>ResetUsers\<close>, a reload of the file), or a report of a stream that outlives the handler of its
  session: the goroutines that copy the streams of a tunnel are not waited for.
\<close>

record 're sessions =
  sn_server :: "'re server"
  sn_trace :: os_trace
  sn_handlers :: "'re handler list"

datatype 're session_move =
    Connects "'re conn_env"
  | Moves nat
  | Users_change "'re users \<Rightarrow> 're users"
  | Late_stream nat stream_event

fun was_served :: "handler_stage \<Rightarrow> bool" where
  "was_served (Hs_serving vs es) = True"
| "was_served (Hs_over (Served vs)) = True"
| "was_served st = False"

fun sessions_move :: "'re regex_lib \<Rightarrow> os \<Rightarrow> 're session_move \<Rightarrow> 're sessions \<Rightarrow> 're sessions" where
  "sessions_move rx os (Connects ce) w = w\<lparr>sn_handlers := sn_handlers w @ [new_handler ce]\<rparr>"
| "sessions_move rx os (Moves i) w =
     (if i < length (sn_handlers w) then
        (case handler_step rx os (sn_handlers w ! i, sn_server w, sn_trace w) of
           (h, s, tr) \<Rightarrow> \<lparr>sn_server = s, sn_trace = tr, sn_handlers = (sn_handlers w)[i := h]\<rparr>)
      else w)"
| "sessions_move rx os (Users_change f) w =
     w\<lparr>sn_server := (sn_server w)\<lparr>sv_users :=
         (sv_users (sn_server w))\<lparr>ui_users := f (ui_users (sv_users (sn_server w)))\<rparr>\<rparr>\<rparr>"
| "sessions_move rx os (Late_stream i ev) w =
     (if i < length (sn_handlers w) \<and> was_served (hn_stage (sn_handlers w ! i)) then
        w\<lparr>sn_server := on_tel (run_srv [report_of (hn_sid (sn_handlers w ! i)) (Tunnel_stream ev)]) (sn_server w)\<rparr>
      else w)"

definition sessions_run ::
    "'re regex_lib \<Rightarrow> os \<Rightarrow> 're session_move list \<Rightarrow> 're sessions \<Rightarrow> 're sessions" where
  "sessions_run rx os ms w = fold (sessions_move rx os) ms w"

definition sessions_start :: "'re server \<Rightarrow> 're sessions" where
  "sessions_start s = \<lparr>sn_server = s, sn_trace = [], sn_handlers = []\<rparr>"

lemma sessions_run_simps [simp]:
  "sessions_run rx os [] w = w"
  "sessions_run rx os (ms @ [x]) w = sessions_move rx os x (sessions_run rx os ms w)"
  by (simp_all add: sessions_run_def)

text \<open>A move of a handler, with the handlers before and after it.\<close>

lemma sessions_moveE:
  obtains (skip) "sessions_move rx os x w = w"
  | (connects) ce where "x = Connects ce"
      "sessions_move rx os x w = w\<lparr>sn_handlers := sn_handlers w @ [new_handler ce]\<rparr>"
  | (moves) as h bs h' s' tr' where
      "sn_handlers w = as @ h # bs" "handler_step rx os (h, sn_server w, sn_trace w) = (h', s', tr')"
      "sessions_move rx os x w = \<lparr>sn_server = s', sn_trace = tr', sn_handlers = as @ h' # bs\<rparr>"
  | (users) f where "x = Users_change f"
      "sessions_move rx os x w = w\<lparr>sn_server := (sn_server w)\<lparr>sv_users :=
         (sv_users (sn_server w))\<lparr>ui_users := f (ui_users (sv_users (sn_server w)))\<rparr>\<rparr>\<rparr>"
  | (stream) sid ev where
      "sessions_move rx os x w = w\<lparr>sn_server := on_tel (run_srv [report_of sid (Tunnel_stream ev)]) (sn_server w)\<rparr>"
proof (cases x)
  case (Connects ce)
  then show thesis by (intro connects) simp_all
next
  case (Moves i)
  show thesis
  proof (cases "i < length (sn_handlers w)")
    case True
    obtain h' s' tr' where h: "handler_step rx os (sn_handlers w ! i, sn_server w, sn_trace w) = (h', s', tr')"
      by (metis prod_cases3)
    from True have "sn_handlers w = take i (sn_handlers w) @ sn_handlers w ! i # drop (Suc i) (sn_handlers w)"
      by (rule id_take_nth_drop)
    moreover have "sessions_move rx os x w = \<lparr>sn_server = s', sn_trace = tr',
        sn_handlers = take i (sn_handlers w) @ h' # drop (Suc i) (sn_handlers w)\<rparr>"
      using True h by (simp add: Moves upd_conv_take_nth_drop)
    ultimately show thesis using moves h by blast
  qed (use Moves skip in simp)
next
  case (Users_change f)
  then show thesis by (intro users) simp_all
next
  case (Late_stream i ev)
  show thesis
  proof (cases "i < length (sn_handlers w) \<and> was_served (hn_stage (sn_handlers w ! i))")
    case True
    then show thesis
      by (intro stream [of "hn_sid (sn_handlers w ! i)" ev]) (simp add: Late_stream)
  qed (use Late_stream skip in auto)
qed

end
