(* ===== verification/Sessions_Track.thy ===== *)
theory Sessions_Track
  imports Sessions "HOL-Library.Multiset"
begin

text \<open>
  The monitor and the handlers that run at once (\<open>Sessions\<close>): the session ids are different, each session
  has the status of its handler's stage, and the counters count the handlers.
\<close>

subsection \<open>The monitor keeps track of all of them\<close>

fun stage_status :: "handler_stage \<Rightarrow> session_status option" where
  "stage_status Hs_arrived = None"
| "stage_status Hs_numbered = None"
| "stage_status (Hs_serving vs es) = Some Session_connected"
| "stage_status (Hs_over oc) = Some (final_status oc)"
| "stage_status st = Some Session_pending"

abbreviation sn_status :: "'re sessions \<Rightarrow> string \<Rightarrow> session_status option" where
  "sn_status w \<equiv> session_status_of (tel_monitor (sv_tel (sn_server w)))"

definition numbered :: "'re handler list \<Rightarrow> 're handler list" where
  "numbered hs = filter (\<lambda>h. hn_stage h \<noteq> Hs_arrived) hs"

lemma numbered_simps [simp]:
  "numbered [] = []" "numbered (as @ bs) = numbered as @ numbered bs"
  "numbered (h # bs) = (if hn_stage h = Hs_arrived then numbered bs else h # numbered bs)"
  by (simp_all add: numbered_def)

definition nth_sid :: "32 word \<Rightarrow> nat \<Rightarrow> string" where
  "nth_sid c i = itoa (sint (c + word_of_nat i))"

lemma nth_sid_inj: "nth_sid c i = nth_sid c j \<Longrightarrow> i < 2 ^ 32 \<Longrightarrow> j < 2 ^ 32 \<Longrightarrow> i = j"
proof -
  assume "nth_sid c i = nth_sid c j" and ij: "i < 2 ^ 32" "j < 2 ^ 32"
  then have "sint (c + word_of_nat i) = sint (c + word_of_nat j)"
    unfolding nth_sid_def by (blast dest: itoa_inj)
  then have "c + word_of_nat i = c + word_of_nat j" by (rule signed_word_eqI)
  then have "(word_of_nat i :: 32 word) = word_of_nat j" by simp
  with ij show "i = j" by (intro word_of_nat_inj32)
qed

text \<open>A step of a handler that has its number reports the status of the stage it reaches.\<close>

lemma step_status:
  assumes "hn_stage h \<noteq> Hs_arrived"
    and "session_status_of (tel_monitor (sv_tel s)) (hn_sid h) = stage_status (hn_stage h)"
    and "handler_step rx os (h, s, tr) = (h', s', tr')"
  shows "hn_stage h' \<noteq> Hs_arrived \<and> hn_sid h' = hn_sid h \<and> sv_sess_count s' = sv_sess_count s
    \<and> session_status_of (tel_monitor (sv_tel s')) =
        (session_status_of (tel_monitor (sv_tel s)))(hn_sid h := stage_status (hn_stage h'))"
proof -
  have same: "f (a := b) = f" if "f a = b" for f :: "string \<Rightarrow> session_status option" and a b
    using that by (simp add: fun_upd_idem)
  show ?thesis
  proof (cases "hn_stage h")
    case Hs_arrived
    with assms(1) show ?thesis by simp
  next
    case Hs_numbered
    with assms(2,3) show ?thesis
      by (auto simp: handler_step_def Let_def session_status_op simp del: apply_op.simps)
  next
    case Hs_registered
    with assms(2,3) show ?thesis
      by (auto simp: handler_step_def Let_def handler_fails_def session_status_op same simp del: apply_op.simps
          split: option.splits)
  next
    case (Hs_trying as)
    with assms(2,3) show ?thesis
      by (auto simp: handler_step_def Let_def handler_fails_def session_status_op same simp del: apply_op.simps
          split: list.splits prod.splits bool.splits elim: auth_userE)
  next
    case Hs_authenticated
    with assms(2,3) show ?thesis
      by (auto simp: handler_step_def Let_def handler_fails_def session_status_op same simp del: apply_op.simps
          split: option.splits)
  next
    case Hs_handshaken
    with assms(2,3) show ?thesis
      by (auto simp: handler_step_def Let_def same split: option.splits prod.splits dest!: same_tel_pull)
  next
    case Hs_waiting
    with assms(2,3) show ?thesis
      by (auto simp: handler_step_def Let_def take_request_def handler_fails_def session_status_op same
          simp del: apply_op.simps split: option.splits request_wait.splits if_splits)
  next
    case (Hs_checking rs vs)
    with assms(2,3) show ?thesis
      by (cases rs) (auto simp: handler_step_def Let_def check_next_def handler_fails_def session_status_op same
          simp del: apply_op.simps validate_remotes.simps split: prod.splits validation.splits)
  next
    case (Hs_serving vs es)
    with assms(2,3) show ?thesis
      using reports_status [of "hn_sid h" "[hd es]"]
      by (cases es) (auto simp: handler_step_def Let_def session_status_op same simp del: apply_op.simps)
  next
    case (Hs_over oc)
    with assms(2,3) show ?thesis by (auto simp: handler_step_def Let_def same)
  qed
qed


lemma step_arrived:
  assumes "hn_stage h = Hs_arrived" and "handler_step rx os (h, s, tr) = (h', s', tr')"
  shows "hn_stage h' = Hs_numbered \<and> hn_sid h' = itoa (sint (sv_sess_count s + 1))
    \<and> sv_sess_count s' = sv_sess_count s + 1 \<and> sv_tel s' = sv_tel s"
  using assms by (auto simp: handler_step_def Let_def)

definition sessions_inv :: "32 word \<Rightarrow> 're sessions \<Rightarrow> bool" where
  "sessions_inv c w \<longleftrightarrow>
     (let hs = numbered (sn_handlers w)
      in sv_sess_count (sn_server w) = c + word_of_nat (length hs)
       \<and> mset (map hn_sid hs) = mset (map (nth_sid c) [1..<Suc (length hs)])
       \<and> (\<forall>h \<in> set hs. sn_status w (hn_sid h) = stage_status (hn_stage h))
       \<and> (\<forall>k. sn_status w k \<noteq> None \<longrightarrow> k \<in> hn_sid ` set hs))"

lemma sids_distinct:
  assumes "mset (map hn_sid hs) = mset (map (nth_sid c) [1..<Suc (length hs)])" and "length hs < 2 ^ 32"
  shows "distinct (map hn_sid hs)"
proof -
  have "inj_on (nth_sid c) (set [1..<Suc (length hs)])"
    by (rule inj_onI) (use assms(2) in \<open>auto dest!: nth_sid_inj\<close>)
  then have "distinct (map (nth_sid c) [1..<Suc (length hs)])" by (simp only: distinct_map distinct_upt)
  with mset_eq_imp_distinct_iff [OF assms(1)] show ?thesis by blast
qed

lemma fresh_sid:
  assumes "mset (map hn_sid hs) = mset (map (nth_sid c) [1..<Suc (length hs)])" and "Suc (length hs) < 2 ^ 32"
  shows "nth_sid c (Suc (length hs)) \<notin> hn_sid ` set hs"
proof
  assume "nth_sid c (Suc (length hs)) \<in> hn_sid ` set hs"
  also have "hn_sid ` set hs = nth_sid c ` set [1..<Suc (length hs)]"
    using mset_eq_setD [OF assms(1)] by simp
  finally obtain i where "i \<in> set [1..<Suc (length hs)]" "nth_sid c (Suc (length hs)) = nth_sid c i" by (rule imageE)
  with assms(2) nth_sid_inj [of c i "Suc (length hs)"] show False by auto
qed

lemma length_numbered: "length (numbered hs) \<le> length hs"
  by (simp add: numbered_def)

lemma sessions_inv_move:
  assumes inv: "sessions_inv c w" and len: "length (sn_handlers w) < 2 ^ 32"
  shows "sessions_inv c (sessions_move rx os x w)"
proof (cases rx os x w rule: sessions_moveE)
  case skip
  with inv show ?thesis by simp
next
  case (connects ce)
  with inv show ?thesis by (simp add: sessions_inv_def Let_def new_handler_def)
next
  case (users f)
  with inv show ?thesis by (simp add: sessions_inv_def Let_def)
next
  case (stream sid ev)
  have "sn_status (sessions_move rx os x w) = sn_status w"
    using reports_status [of sid "[Tunnel_stream ev]"] by (simp add: stream)
  moreover have "sn_handlers (sessions_move rx os x w) = sn_handlers w"
    "sv_sess_count (sn_server (sessions_move rx os x w)) = sv_sess_count (sn_server w)"
    by (simp_all add: stream)
  ultimately show ?thesis using inv by (simp add: sessions_inv_def Let_def)
next
  case (moves as h bs h' s' tr')
  let ?w = "sessions_move rx os x w" and ?hs = "numbered (sn_handlers w)"
  have w: "sn_server ?w = s'" "sn_handlers ?w = as @ h' # bs" by (simp_all add: moves)
  from inv have count: "sv_sess_count (sn_server w) = c + word_of_nat (length ?hs)"
    and ids: "mset (map hn_sid ?hs) = mset (map (nth_sid c) [1..<Suc (length ?hs)])"
    and stat: "\<forall>h \<in> set ?hs. sn_status w (hn_sid h) = stage_status (hn_stage h)"
    and dom: "\<forall>k. sn_status w k \<noteq> None \<longrightarrow> k \<in> hn_sid ` set ?hs"
    by (simp_all add: sessions_inv_def Let_def)
  show ?thesis
  proof (cases "hn_stage h = Hs_arrived")
    case True
    from step_arrived [OF True moves(2)] have h': "hn_stage h' = Hs_numbered"
      "hn_sid h' = nth_sid c (Suc (length ?hs))" "sv_sess_count s' = c + word_of_nat (Suc (length ?hs))"
      "sv_tel s' = sv_tel (sn_server w)"
      by (simp_all add: nth_sid_def count ac_simps)
    have "length ?hs < length (sn_handlers w)"
      using True length_numbered [of as] length_numbered [of bs] by (simp add: moves(1))
    with len have less: "Suc (length ?hs) < 2 ^ 32" by simp
    note fresh = fresh_sid [OF ids less]
    have hs': "mset (numbered (sn_handlers ?w)) = add_mset h' (mset ?hs)"
      using True h'(1) by (simp add: w moves(1))
    then have set': "set (numbered (sn_handlers ?w)) = insert h' (set ?hs)"
      and len': "length (numbered (sn_handlers ?w)) = Suc (length ?hs)"
      by (metis set_mset_mset set_mset_add_mset_insert, metis size_mset size_add_mset)
    have "mset (map hn_sid (numbered (sn_handlers ?w))) = add_mset (hn_sid h') (mset (map hn_sid ?hs))"
      using hs' by simp
    also have "\<dots> = mset (map (nth_sid c) [1..<Suc (Suc (length ?hs))])"
      unfolding ids by (simp add: h'(2))
    finally have "mset (map hn_sid (numbered (sn_handlers ?w))) = mset (map (nth_sid c) [1..<Suc (Suc (length ?hs))])" .
    moreover have "sn_status w (hn_sid h') = None" using dom fresh h'(2) by auto
    ultimately show ?thesis
      using h' stat dom unfolding sessions_inv_def Let_def set' len' w(1)
      by (simp del: upt_Suc)
  next
    case False
    then have "h \<in> set ?hs" by (simp add: moves(1))
    with stat have "sn_status w (hn_sid h) = stage_status (hn_stage h)" by blast
    from step_status [OF False this moves(2)] have h': "hn_stage h' \<noteq> Hs_arrived" "hn_sid h' = hn_sid h"
      "sv_sess_count s' = sv_sess_count (sn_server w)"
      and st: "sn_status ?w = (sn_status w)(hn_sid h := stage_status (hn_stage h'))"
      by (simp_all add: w)
    have len': "length (numbered (sn_handlers ?w)) = length ?hs"
      and map': "map hn_sid (numbered (sn_handlers ?w)) = map hn_sid ?hs"
      using False h' by (simp_all add: w moves(1))
    have "distinct (map hn_sid ?hs)" using ids length_numbered [of "sn_handlers w"] len by (intro sids_distinct) auto
    then have others: "\<forall>g \<in> set (numbered as) \<union> set (numbered bs). hn_sid g \<noteq> hn_sid h"
      using False by (auto simp: moves(1) image_iff)
    have set': "set (numbered (sn_handlers ?w)) = insert h' (set (numbered as) \<union> set (numbered bs))"
      "set ?hs = insert h (set (numbered as) \<union> set (numbered bs))"
      using False h'(1) by (auto simp: w moves(1))
    have "\<forall>g \<in> set (numbered (sn_handlers ?w)). sn_status ?w (hn_sid g) = stage_status (hn_stage g)"
      using others stat h'(2) unfolding set' st by auto
    moreover have "\<forall>k. sn_status ?w k \<noteq> None \<longrightarrow> k \<in> hn_sid ` set (numbered (sn_handlers ?w))"
      using dom h'(2) unfolding set' st by auto
    ultimately show ?thesis
      unfolding sessions_inv_def Let_def len' map' w(1) using ids count h'(3) by simp
  qed
qed


lemma length_handlers_move: "length (sn_handlers w) \<le> length (sn_handlers (sessions_move rx os x w))"
  by (cases rx os x w rule: sessions_moveE) simp_all

lemma sessions_inv_run:
  assumes "sessions_inv c w" and "length (sn_handlers (sessions_run rx os ms w)) < 2 ^ 32"
  shows "sessions_inv c (sessions_run rx os ms w)"
  using assms(2)
proof (induction ms rule: rev_induct)
  case Nil
  with assms(1) show ?case by simp
next
  case (snoc x ms)
  then have "length (sn_handlers (sessions_run rx os ms w)) < 2 ^ 32"
    using length_handlers_move [of "sessions_run rx os ms w" rx os x] by simp
  with snoc.IH sessions_inv_move show ?case by simp
qed

lemma apply_op_wf: "wf_map (ms_sessions m) \<Longrightarrow> wf_map (ms_sessions (apply_op x now m))"
  by (cases x) (auto simp: monitor_op_defs)

lemma run_ops_wf: "wf_map (ms_sessions m) \<Longrightarrow> wf_map (ms_sessions (run_ops xs m))"
  by (induction xs m rule: run_ops.induct) (simp_all add: apply_op_wf del: apply_op.simps)

lemma run_srv_wf: "wf_map (ms_sessions (tel_monitor t)) \<Longrightarrow> wf_map (ms_sessions (tel_monitor (run_srv xs t)))"
  by (simp add: run_srv_monitor run_ops_wf)

abbreviation sv_wf :: "'re server \<Rightarrow> bool" where
  "sv_wf s \<equiv> wf_map (ms_sessions (tel_monitor (sv_tel s)))"

lemma handler_fails_wf: "sv_wf s \<Longrightarrow> sv_wf (fst (snd (handler_fails oc msg e acts h s tr)))"
  by (simp add: handler_fails_def apply_op_wf del: apply_op.simps)

lemma step_wf: "sv_wf s \<Longrightarrow> sv_wf (fst (snd (handler_step rx os (h, s, tr))))"
proof (cases "hn_stage h")
  case (Hs_trying as)
  assume "sv_wf s"
  with Hs_trying show ?thesis
    by (cases as) (auto simp: handler_step_def Let_def handler_fails_wf elim: auth_userE
        split: prod.split bool.split)
next
  case (Hs_serving vs es)
  assume "sv_wf s"
  with Hs_serving show ?thesis
    by (cases es) (auto simp: handler_step_def Let_def apply_op_wf run_srv_wf simp del: apply_op.simps)
next
  case Hs_handshaken
  assume "sv_wf s"
  with Hs_handshaken show ?thesis
    by (auto simp: handler_step_def Let_def dest!: same_tel_pull split: prod.split option.split)
next
  case Hs_waiting
  assume "sv_wf s"
  with Hs_waiting show ?thesis
    by (simp add: handler_step_def Let_def take_request_def handler_fails_wf split: request_wait.split option.split)
next
  case (Hs_checking rs vs)
  assume "sv_wf s"
  with Hs_checking show ?thesis
    by (cases rs) (auto simp: handler_step_def Let_def check_next_def handler_fails_wf apply_op_wf
        simp del: apply_op.simps validate_remotes.simps split: prod.split validation.split)
qed (auto simp: handler_step_def Let_def handler_fails_wf apply_op_wf simp del: apply_op.simps split: option.split)

lemma run_wf:
  assumes "sv_wf (sn_server w)"
  shows "sv_wf (sn_server (sessions_run rx os ms w))"
proof (induction ms rule: rev_induct)
  case Nil
  with assms show ?case by simp
next
  case (snoc x ms)
  let ?v = "sessions_run rx os ms w"
  have "sv_wf (sn_server (sessions_move rx os x ?v))"
  proof (cases rx os x ?v rule: sessions_moveE)
    case (moves as h bs h' s' tr')
    with step_wf [OF snoc.IH, of rx os h "sn_trace ?v"] show ?thesis by simp
  qed (use snoc.IH run_srv_wf in simp_all)
  then show ?case by simp
qed

lemma sessions_with_card:
  assumes "wf_map (ms_sessions m)"
  shows "sessions_with st (map snd (ms_sessions m)) = card {k. session_status_of m k = Some st}"
proof -
  let ?xs = "filter (\<lambda>x. ss_status (snd x) = st) (ms_sessions m)"
  have "distinct (map fst ?xs)" using assms by (rule distinct_map_filter)
  then have "card (set (map fst ?xs)) = length ?xs" using distinct_card by fastforce
  moreover have "set (map fst ?xs) = {k. session_status_of m k = Some st}"
    using assms by (force simp: session_status_of_def)
  moreover have "sessions_with st (map snd (ms_sessions m)) = length ?xs"
    by (simp add: sessions_with_def filter_map comp_def)
  ultimately show ?thesis by simp
qed

lemma handlers_with_card:
  assumes "sessions_inv c w" and "length (sn_handlers w) < 2 ^ 32"
  shows "card {k. sn_status w k = Some st} = length (filter (\<lambda>h. stage_status (hn_stage h) = Some st) (sn_handlers w))"
proof -
  let ?hs = "numbered (sn_handlers w)"
  let ?xs = "filter (\<lambda>h. stage_status (hn_stage h) = Some st) ?hs"
  from assms(1) have ids: "mset (map hn_sid ?hs) = mset (map (nth_sid c) [1..<Suc (length ?hs)])"
    and stat: "\<forall>h \<in> set ?hs. sn_status w (hn_sid h) = stage_status (hn_stage h)"
    and dom: "\<forall>k. sn_status w k \<noteq> None \<longrightarrow> k \<in> hn_sid ` set ?hs"
    by (simp_all add: sessions_inv_def Let_def)
  have "distinct (map hn_sid ?hs)"
    using ids length_numbered [of "sn_handlers w"] assms(2) by (intro sids_distinct) auto
  then have "distinct (map hn_sid ?xs)" by (rule distinct_map_filter)
  then have "card (set (map hn_sid ?xs)) = length ?xs" using distinct_card by fastforce
  moreover have "set (map hn_sid ?xs) = {k. sn_status w k = Some st}"
    using stat dom by (force simp: image_iff)
  moreover have "?xs = filter (\<lambda>h. stage_status (hn_stage h) = Some st) (sn_handlers w)"
    by (auto simp: numbered_def filter_filter intro!: filter_cong)
  ultimately show ?thesis by simp
qed


text \<open>
  C7. The monitor keeps track of every connection, however the handlers interleave. From a server
  with an empty monitor, with fewer than \<open>2 ^ 32\<close> connections, after any moves: the handlers that
  have a number have different session ids, one per count; the monitor's status of each one's session
  is that of the stage it is in (none yet before it registers, pending until its configuration is
  accepted, connected while it serves, and then the status of its outcome); the monitor has no other
  session; and the snapshot's counters count the handlers in those stages.
\<close>

theorem sessions_tracked:
  assumes "tel_monitor (sv_tel s) = new_monitor_state"
    and "length (sn_handlers (sessions_run rx os ms (sessions_start s))) < 2 ^ 32"
  shows "let w = sessions_run rx os ms (sessions_start s); hs = numbered (sn_handlers w);
      c = snap_counters (srv_monitor_snapshot (sn_server w));
      in_status = (\<lambda>st. length (filter (\<lambda>h. stage_status (hn_stage h) = Some st) (sn_handlers w)))
    in distinct (map hn_sid hs)
      \<and> sv_sess_count (sn_server w) = sv_sess_count s + word_of_nat (length hs)
      \<and> (\<forall>h \<in> set hs. sn_status w (hn_sid h) = stage_status (hn_stage h))
      \<and> (\<forall>k. sn_status w k \<noteq> None \<longrightarrow> k \<in> hn_sid ` set hs)
      \<and> pending_sessions c = in_status Session_pending \<and> connected_sessions c = in_status Session_connected
      \<and> failed_sessions c = in_status Session_failed \<and> disconnected_sessions c = in_status Session_disconnected"
proof -
  let ?w = "sessions_run rx os ms (sessions_start s)"
  let ?hs = "numbered (sn_handlers ?w)"
  have "sessions_inv (sv_sess_count s) (sessions_start s)"
    by (simp add: sessions_inv_def sessions_start_def Let_def session_status_of_def assms(1) new_monitor_state_def)
  from sessions_inv_run [OF this assms(2)] have inv: "sessions_inv (sv_sess_count s) ?w" .
  then have keep: "sv_sess_count (sn_server ?w) = sv_sess_count s + word_of_nat (length ?hs)"
    "mset (map hn_sid ?hs) = mset (map (nth_sid (sv_sess_count s)) [1..<Suc (length ?hs)])"
    "\<forall>h \<in> set ?hs. sn_status ?w (hn_sid h) = stage_status (hn_stage h)"
    "\<forall>k. sn_status ?w k \<noteq> None \<longrightarrow> k \<in> hn_sid ` set ?hs"
    by (simp_all add: sessions_inv_def Let_def)
  have ids: "distinct (map hn_sid ?hs)"
    using keep(2) length_numbered [of "sn_handlers ?w"] assms(2) by (intro sids_distinct) auto
  have "sv_wf (sn_server (sessions_start s))" by (simp add: sessions_start_def assms(1) new_monitor_state_def)
  from run_wf [OF this, of rx os ms]
  have counts: "sessions_with st (map snd (ms_sessions (tel_monitor (sv_tel (sn_server ?w)))))
      = length (filter (\<lambda>h. stage_status (hn_stage h) = Some st) (sn_handlers ?w))" for st
    by (simp only: sessions_with_card handlers_with_card [OF inv assms(2)])
  have "snap_counters (srv_monitor_snapshot (sn_server ?w)) =
      counters_of (map snd (ms_sessions (tel_monitor (sv_tel (sn_server ?w)))))
        (map snd (ms_endpoints (tel_monitor (sv_tel (sn_server ?w)))))"
    by (simp add: srv_monitor_snapshot_def snapshot_def snapshot_counters)
  with counts ids keep show ?thesis by (simp add: Let_def counters_of_def)
qed

text \<open>
  Two connections: the first is served while the second is refused, its user unknown.
\<close>

definition demo_session_moves :: "string session_move list" where
  "demo_session_moves =
     [Connects (demo_conn (Request ''config'' []) [Some (tcp_remote ''80'')]),
      Connects ((demo_conn Timed_out [])\<lparr>ce_attempts := [(''bob'', ''p'')], ce_ssh_id := ''other''\<rparr>),
      Moves 0, Moves 1, Moves 0, Moves 1, Moves 1, Moves 0, Moves 0, Moves 0, Moves 1, Moves 1,
      Moves 0, Moves 0, Moves 0, Moves 0, Moves 0]"

definition demo_sessions :: "string sessions" where
  "demo_sessions = sessions_run toy_regex calm_os demo_session_moves (sessions_start (demo_server demo_users))"

lemma demo_sessions_stages:
  "map (\<lambda>h. (hn_sid h, hn_stage h)) (sn_handlers demo_sessions) =
     [(''1'', Hs_serving [tcp_remote ''80''] [Tunnel_state Endpoint_state_active ''R:80=>10.0.0.1:80'' [] 5 6]),
      (''2'', Hs_over Handshake_failed)]"
  by code_simp


theorem sessions_tracked_witness:
  "let c = snap_counters (srv_monitor_snapshot (sn_server demo_sessions))
   in sn_status demo_sessions ''2'' = Some Session_failed
     \<and> connected_sessions c = 1 \<and> failed_sessions c = 1 \<and> pending_sessions c = 0"
proof -
  obtain h1 h2 where hs: "sn_handlers demo_sessions = [h1, h2]"
    "stage_status (hn_stage h1) = Some Session_connected" "stage_status (hn_stage h2) = Some Session_failed"
    "hn_sid h2 = ''2''" "hn_stage h1 \<noteq> Hs_arrived" "hn_stage h2 \<noteq> Hs_arrived"
    using demo_sessions_stages by auto
  have start: "tel_monitor (sv_tel (demo_server demo_users)) = new_monitor_state" by (simp add: demo_server_def)
  have "length (sn_handlers demo_sessions) < 2 ^ 32" by (simp add: hs)
  from sessions_tracked [OF start this [unfolded demo_sessions_def]]
  show ?thesis unfolding demo_sessions_def [symmetric] using hs by (auto simp: Let_def)
qed

end
