(* ===== verification/Sessions_Auth.thy ===== *)
theory Sessions_Auth
  imports Sessions_Track
begin

text \<open>
  Access when many handlers run at once (\<open>Sessions\<close>) and the users change in between: what an
  authenticated session stands for, and whom a handler that serves acts for.
\<close>

subsection \<open>Nobody is served without a password, however the handlers interleave\<close>

definition user_ok :: "bool \<Rightarrow> ('re conn_env \<Rightarrow> 're user \<Rightarrow> bool) \<Rightarrow> 're handler \<Rightarrow> bool" where
  "user_ok no_users granted h = (case hn_user h of None \<Rightarrow> no_users | Some u \<Rightarrow> granted (hn_env h) u)"

definition remotes_ok :: "'re regex_lib \<Rightarrow> bool \<Rightarrow> 're handler \<Rightarrow> remote list \<Rightarrow> bool" where
  "remotes_ok rx rev_ok h vs = list_all (remote_allowed rx rev_ok (hn_user h)) vs"

definition handler_auth ::
    "'re regex_lib \<Rightarrow> bool \<Rightarrow> bool \<Rightarrow> ('re conn_env \<Rightarrow> 're user \<Rightarrow> bool) \<Rightarrow> 're handler \<Rightarrow> bool" where
  "handler_auth rx rev_ok no_users granted h =
     (case hn_stage h of
        Hs_trying as \<Rightarrow> set as \<subseteq> set (ce_attempts (hn_env h))
      | Hs_waiting \<Rightarrow> user_ok no_users granted h
      | Hs_checking rs vs \<Rightarrow> user_ok no_users granted h \<and> remotes_ok rx rev_ok h vs
      | Hs_serving vs es \<Rightarrow> user_ok no_users granted h \<and> remotes_ok rx rev_ok h vs
      | Hs_over (Served vs) \<Rightarrow> user_ok no_users granted h \<and> remotes_ok rx rev_ok h vs
      | _ \<Rightarrow> True)"

lemma user_ok_stage [simp]:
  "user_ok e g (h\<lparr>hn_stage := x\<rparr>) = user_ok e g h" "user_ok e g (h\<lparr>hn_acts := y\<rparr>) = user_ok e g h"
  "remotes_ok rx rev_ok (h\<lparr>hn_stage := x\<rparr>) vs = remotes_ok rx rev_ok h vs"
  "remotes_ok rx rev_ok (h\<lparr>hn_acts := y\<rparr>) vs = remotes_ok rx rev_ok h vs"
  by (simp_all add: user_ok_def remotes_ok_def cong: option.case_cong)

lemma remotes_ok_append [simp]:
  "remotes_ok rx rev_ok h [] = True"
  "remotes_ok rx rev_ok h (vs @ ws) = (remotes_ok rx rev_ok h vs \<and> remotes_ok rx rev_ok h ws)"
  by (simp_all add: remotes_ok_def)

lemma handler_auth_mono:
  assumes "handler_auth rx rev_ok e g h" and "e \<longrightarrow> e'" and "\<And>ce u. g ce u \<Longrightarrow> g' ce u"
  shows "handler_auth rx rev_ok e' g' h"
  using assms
  by (auto simp: handler_auth_def user_ok_def split: handler_stage.splits outcome.splits option.splits)

lemma handler_auth_fails:
  "handler_fails oc msg e acts h s tr = (h', s', tr') \<Longrightarrow> (\<forall>vs. oc \<noteq> Served vs) \<Longrightarrow>
     handler_auth rx rev_ok no_users g h' \<and> sv_config s' = sv_config s \<and> sv_users s' = sv_users s
     \<and> sv_sessions s' = sv_sessions s"
  by (auto simp: handler_fails_def handler_auth_def split: outcome.splits)

lemma auth_attempt:
  assumes "auth_user i a s = (ok, s')"
  shows "sv_config s' = sv_config s \<and> sv_users s' = sv_users s
    \<and> (\<forall>k u. users_get k (sv_sessions s') = Some u \<longrightarrow>
         users_get k (sv_sessions s) = Some u
         \<or> k = i \<and> users_get (fst a) (ui_users (sv_users s)) = Some u \<and> user_pass u = snd a)"
  using assms by (cases rule: auth_userE) (auto split: if_splits)

lemma step_auth:
  assumes auth: "handler_auth rx rev_ok no_users g h"
    and cfg: "sc_reverse (sv_config s) = rev_ok"
    and table: "\<And>u. users_get (ce_ssh_id (hn_env h)) (sv_sessions s) = Some u \<Longrightarrow> g (hn_env h) u"
    and off: "users_len (ui_users (sv_users s)) = 0 \<Longrightarrow> no_users"
    and grant: "\<And>name u. (name, user_pass u) \<in> set (ce_attempts (hn_env h)) \<Longrightarrow>
        users_get name (ui_users (sv_users s)) = Some u \<Longrightarrow> g (hn_env h) u"
    and step: "handler_step rx os (h, s, tr) = (h', s', tr')"
  shows "handler_auth rx rev_ok no_users g h' \<and> sv_config s' = sv_config s \<and> sv_users s' = sv_users s
    \<and> (\<forall>k u. users_get k (sv_sessions s') = Some u \<longrightarrow>
         users_get k (sv_sessions s) = Some u \<or> k = ce_ssh_id (hn_env h) \<and> g (hn_env h) u)"
proof (cases "hn_stage h")
  case Hs_arrived
  with step show ?thesis by (auto simp: handler_step_def Let_def handler_auth_def)
next
  case Hs_numbered
  with step show ?thesis by (auto simp: handler_step_def Let_def handler_auth_def)
next
  case Hs_registered
  show ?thesis
  proof (cases "ce_upgrade_err (hn_env h)")
    case None
    with Hs_registered step show ?thesis by (auto simp: handler_step_def Let_def handler_auth_def)
  next
    case (Some err)
    with Hs_registered step have "handler_fails Upgrade_failed err err [] h s tr = (h', s', tr')"
      by (simp add: handler_step_def Let_def)
    from handler_auth_fails [OF this] show ?thesis by simp
  qed
next
  case (Hs_trying as)
  show ?thesis
  proof (cases as)
    case Nil
    with Hs_trying step have "handler_fails Handshake_failed ''ssh: unable to authenticate''
        ''ssh: unable to authenticate'' [] h s tr = (h', s', tr')"
      by (simp add: handler_step_def Let_def)
    from handler_auth_fails [OF this] show ?thesis by simp
  next
    case (Cons a as')
    obtain ok s1 where a: "auth_user (ce_ssh_id (hn_env h)) a s = (ok, s1)" by fastforce
    have sub: "a \<in> set (ce_attempts (hn_env h))" "set as' \<subseteq> set (ce_attempts (hn_env h))"
      using auth Hs_trying Cons by (simp_all add: handler_auth_def)
    have h': "s' = s1" "h' = h\<lparr>hn_stage := if ok then Hs_authenticated else Hs_trying as'\<rparr>"
      using step a Hs_trying Cons by (cases ok; simp add: handler_step_def Let_def)+
    have "handler_auth rx rev_ok no_users g h'" using sub(2) by (simp add: h' handler_auth_def)
    moreover have "g (hn_env h) u"
      if "users_get (fst a) (ui_users (sv_users s)) = Some u" "user_pass u = snd a" for u
      using grant [of "fst a" u] sub(1) that by simp
    ultimately show ?thesis using auth_attempt [OF a] unfolding h'(1) by blast
  qed
next
  case Hs_authenticated
  show ?thesis
  proof (cases "ce_handshake_err (hn_env h)")
    case None
    with Hs_authenticated step show ?thesis by (auto simp: handler_step_def Let_def handler_auth_def)
  next
    case (Some err)
    with Hs_authenticated step have "handler_fails Handshake_failed err err [] h s tr = (h', s', tr')"
      by (simp add: handler_step_def Let_def)
    from handler_auth_fails [OF this] show ?thesis by simp
  qed
next
  case Hs_handshaken
  obtain res s1 where p: "pull_user (ce_ssh_id (hn_env h)) s = (res, s1)" by fastforce
  from p show ?thesis
  proof (cases rule: pull_userE)
    case off
    with Hs_handshaken step p \<open>users_len (ui_users (sv_users s)) = 0 \<Longrightarrow> no_users\<close> show ?thesis
      by (auto simp: handler_step_def Let_def handler_auth_def user_ok_def)
  next
    case panic
    with Hs_handshaken step p show ?thesis by (auto simp: handler_step_def Let_def handler_auth_def)
  next
    case (user u)
    with Hs_handshaken step p table [of u] show ?thesis
      by (auto simp: handler_step_def Let_def handler_auth_def user_ok_def split: if_splits)
  qed
next
  case Hs_waiting
  then have "take_request h s tr = (h', s', tr')" using step by (simp add: handler_step_def Let_def)
  with auth Hs_waiting show ?thesis
    by (auto simp: take_request_def Let_def handler_fails_def handler_auth_def
        split: request_wait.splits option.splits if_splits)
next
  case (Hs_checking rs vs)
  then have c: "check_next rx os rs vs h s tr = (h', s', tr')" using step by (simp add: handler_step_def Let_def)
  have u: "user_ok no_users g h" "remotes_ok rx rev_ok h vs" using auth Hs_checking by (simp_all add: handler_auth_def)
  show ?thesis
  proof (cases rs)
    case Nil
    with c u show ?thesis
      by (auto simp: check_next_def Let_def handler_auth_def)
  next
    case (Cons x xs)
    obtain res tr1 where v: "validate_remotes rx os rev_ok (hn_user h) [x] tr = (res, tr1)" by fastforce
    show ?thesis
    proof (cases res)
      case (Valid ws)
      from validate_valid [OF v [unfolded Valid]] have "remotes_ok rx rev_ok h ws"
        by (simp add: remotes_ok_def list_all_iff)
      with Valid Cons c u v cfg show ?thesis
        by (auto simp: check_next_def Let_def handler_auth_def simp del: validate_remotes.simps)
    qed (use Cons c v cfg in \<open>auto simp: check_next_def Let_def handler_fails_def handler_auth_def
        simp del: validate_remotes.simps\<close>)
  qed
next
  case (Hs_serving vs es)
  with auth step show ?thesis
    by (cases es) (auto simp: handler_step_def Let_def handler_auth_def)
next
  case (Hs_over oc)
  with auth step show ?thesis by (auto simp: handler_step_def Let_def)
qed


text \<open>What the users were at some moment of a run, and who was granted access in it.\<close>

definition users_in ::
    "'re regex_lib \<Rightarrow> os \<Rightarrow> 're server \<Rightarrow> 're session_move list \<Rightarrow> 're users" where
  "users_in rx os s ms = ui_users (sv_users (sn_server (sessions_run rx os ms (sessions_start s))))"

definition once_no_users :: "'re regex_lib \<Rightarrow> os \<Rightarrow> 're server \<Rightarrow> 're session_move list \<Rightarrow> bool" where
  "once_no_users rx os s ms \<longleftrightarrow> (\<exists>ms1 ms2. ms = ms1 @ ms2 \<and> users_len (users_in rx os s ms1) = 0)"

definition once_granted ::
    "'re regex_lib \<Rightarrow> os \<Rightarrow> 're server \<Rightarrow> 're session_move list \<Rightarrow> 're conn_env \<Rightarrow> 're user \<Rightarrow> bool" where
  "once_granted rx os s ms ce u \<longleftrightarrow>
     (\<exists>ms1 ms2 name. ms = ms1 @ ms2 \<and> (name, user_pass u) \<in> set (ce_attempts ce)
       \<and> users_get name (users_in rx os s ms1) = Some u)"

lemma once_snoc:
  "once_no_users rx os s ms \<Longrightarrow> once_no_users rx os s (ms @ [x])"
  "once_granted rx os s ms ce u \<Longrightarrow> once_granted rx os s (ms @ [x]) ce u"
  unfolding once_no_users_def once_granted_def by (metis append.assoc)+

lemma once_now:
  "users_len (users_in rx os s ms) = 0 \<Longrightarrow> once_no_users rx os s ms"
  "(name, user_pass u) \<in> set (ce_attempts ce) \<Longrightarrow> users_get name (users_in rx os s ms) = Some u \<Longrightarrow>
     once_granted rx os s ms ce u"
  unfolding once_no_users_def once_granted_def by (metis append_Nil2)+

definition sessions_auth ::
    "'re regex_lib \<Rightarrow> os \<Rightarrow> 're server \<Rightarrow> 're session_move list \<Rightarrow> bool" where
  "sessions_auth rx os s ms \<longleftrightarrow>
     (let w = sessions_run rx os ms (sessions_start s);
          e = once_no_users rx os s ms; g = once_granted rx os s ms
      in sv_config (sn_server w) = sv_config s
       \<and> (\<forall>h \<in> set (sn_handlers w). handler_auth rx (sc_reverse (sv_config s)) e g h)
       \<and> (\<forall>k u. users_get k (sv_sessions (sn_server w)) = Some u \<longrightarrow>
            (\<exists>ce \<in> hn_env ` set (sn_handlers w). ce_ssh_id ce = k \<and> g ce u)))"

abbreviation ssh_ids :: "'re sessions \<Rightarrow> string list" where
  "ssh_ids w \<equiv> map (\<lambda>h. ce_ssh_id (hn_env h)) (sn_handlers w)"

lemma envs_move: "\<exists>es. map hn_env (sn_handlers (sessions_move rx os x w)) = map hn_env (sn_handlers w) @ es"
proof (cases rx os x w rule: sessions_moveE)
  case (moves as h bs h' s' tr')
  then have "hn_env h' = hn_env h" using env_step [of rx os h "sn_server w" "sn_trace w"] by simp
  with moves show ?thesis by simp
qed simp_all

lemma ssh_ids_move: "distinct (ssh_ids (sessions_move rx os x w)) \<Longrightarrow> distinct (ssh_ids w)"
proof -
  obtain es where e: "map hn_env (sn_handlers (sessions_move rx os x w)) = map hn_env (sn_handlers w) @ es"
    using envs_move by blast
  have eq: "ssh_ids v = map ce_ssh_id (map hn_env (sn_handlers v))" for v :: "'a sessions" by (simp add: comp_def)
  have "ssh_ids (sessions_move rx os x w) = ssh_ids w @ map ce_ssh_id es" by (simp only: eq e map_append)
  then show "distinct (ssh_ids (sessions_move rx os x w)) \<Longrightarrow> distinct (ssh_ids w)" by simp
qed

lemma sessions_auth_move:
  assumes inv: "sessions_auth rx os s ms"
    and ids: "distinct (ssh_ids (sessions_run rx os ms (sessions_start s)))"
  shows "sessions_auth rx os s (ms @ [x])"
proof -
  let ?w = "sessions_run rx os ms (sessions_start s)" and ?rev = "sc_reverse (sv_config s)"
  let ?w' = "sessions_move rx os x ?w"
  let ?e = "once_no_users rx os s ms" and ?g = "once_granted rx os s ms"
  let ?e' = "once_no_users rx os s (ms @ [x])" and ?g' = "once_granted rx os s (ms @ [x])"
  from inv have cfg: "sv_config (sn_server ?w) = sv_config s"
    and auth: "\<forall>h \<in> set (sn_handlers ?w). handler_auth rx ?rev ?e ?g h"
    and table: "\<forall>k u. users_get k (sv_sessions (sn_server ?w)) = Some u \<longrightarrow>
            (\<exists>ce \<in> hn_env ` set (sn_handlers ?w). ce_ssh_id ce = k \<and> ?g ce u)"
    unfolding sessions_auth_def Let_def by blast+
  have later: "handler_auth rx ?rev ?e' ?g' h" if "handler_auth rx ?rev ?e ?g h" for h
    by (rule handler_auth_mono [OF that]) (auto intro: once_snoc)
  have auth': "\<forall>h \<in> set (sn_handlers ?w). handler_auth rx ?rev ?e' ?g' h" using auth later by blast
  have table': "\<forall>k u. users_get k (sv_sessions (sn_server ?w)) = Some u \<longrightarrow>
            (\<exists>ce \<in> hn_env ` set (sn_handlers ?w). ce_ssh_id ce = k \<and> ?g' ce u)"
  proof (intro allI impI)
    fix k u
    assume "users_get k (sv_sessions (sn_server ?w)) = Some u"
    with table obtain ce where "ce \<in> hn_env ` set (sn_handlers ?w)" "ce_ssh_id ce = k" "?g ce u" by blast
    with once_snoc(2) [OF this(3), of x] show "\<exists>ce \<in> hn_env ` set (sn_handlers ?w). ce_ssh_id ce = k \<and> ?g' ce u"
      by blast
  qed
  have "sv_config (sn_server ?w') = sv_config s
       \<and> (\<forall>h \<in> set (sn_handlers ?w'). handler_auth rx ?rev ?e' ?g' h)
       \<and> (\<forall>k u. users_get k (sv_sessions (sn_server ?w')) = Some u \<longrightarrow>
            (\<exists>ce \<in> hn_env ` set (sn_handlers ?w'). ce_ssh_id ce = k \<and> ?g' ce u))"
  proof (cases rx os x ?w rule: sessions_moveE)
    case (connects ce)
    have "handler_auth rx ?rev ?e' ?g' (new_handler ce)" by (simp add: handler_auth_def new_handler_def)
    with connects cfg auth' table' show ?thesis by auto
  next
    case (moves as h bs h' s' tr')
    have env: "hn_env h' = hn_env h"
      using env_step [of rx os h "sn_server ?w" "sn_trace ?w"] by (simp add: moves(2))
    have tab: "?g (hn_env h) u" if "users_get (ce_ssh_id (hn_env h)) (sv_sessions (sn_server ?w)) = Some u" for u
    proof -
      from table that obtain ce where ce: "ce \<in> hn_env ` set (sn_handlers ?w)"
        "ce_ssh_id ce = ce_ssh_id (hn_env h)" "?g ce u" by blast
      from ids have "ce = hn_env h" using ce(1,2) by (auto simp: moves(1) image_iff)
      with ce(3) show ?thesis by simp
    qed
    have "handler_auth rx ?rev ?e ?g h" using auth by (simp add: moves(1))
    from step_auth [OF this _ tab _ _ moves(2)] cfg
    have h': "handler_auth rx ?rev ?e ?g h'" "sv_config s' = sv_config s"
      "\<forall>k u. users_get k (sv_sessions s') = Some u \<longrightarrow>
         users_get k (sv_sessions (sn_server ?w)) = Some u \<or> k = ce_ssh_id (hn_env h) \<and> ?g (hn_env h) u"
      using once_now [where rx = rx and os = os and s = s and ms = ms] by (auto simp: users_in_def)
    have envs: "hn_env ` set (sn_handlers ?w') = hn_env ` set (sn_handlers ?w)"
      by (simp add: moves env)
    have "\<exists>ce \<in> hn_env ` set (sn_handlers ?w'). ce_ssh_id ce = k \<and> ?g' ce u"
      if "users_get k (sv_sessions s') = Some u" for k u
    proof (cases "users_get k (sv_sessions (sn_server ?w)) = Some u")
      case True
      with table' show ?thesis unfolding envs by blast
    next
      case False
      with h'(3) that have "k = ce_ssh_id (hn_env h)" "?g (hn_env h) u" by blast+
      moreover have "hn_env h \<in> hn_env ` set (sn_handlers ?w)" by (simp add: moves(1))
      ultimately show ?thesis unfolding envs using once_snoc(2) by blast
    qed
    with later [OF h'(1)] h'(2) auth' show ?thesis by (auto simp: moves)
  qed (use cfg auth' table' in simp_all)
  then show ?thesis unfolding sessions_auth_def Let_def sessions_run_simps .
qed

lemma sessions_auth_run:
  assumes "\<And>k. users_get k (sv_sessions s) = None"
    and "distinct (ssh_ids (sessions_run rx os ms (sessions_start s)))"
  shows "sessions_auth rx os s ms"
  using assms(2)
proof (induction ms rule: rev_induct)
  case Nil
  show ?case by (simp add: sessions_auth_def sessions_start_def assms(1))
next
  case (snoc x ms)
  from ssh_ids_move snoc.prems have "distinct (ssh_ids (sessions_run rx os ms (sessions_start s)))" by fastforce
  with snoc.IH sessions_auth_move show ?case by blast
qed

text \<open>
  C3. Nobody is served without a password, however the handlers interleave and the users change.
  With different SSH session ids, every remote that a handler serves or has served was allowed to the
  user the handler acts for, and reversed only if the server allows it; that user was, at some
  moment of the run, the one that the table held under a name which this very connection presented with
  the user's password; a handler acts for no user only if at some moment there were no users at all.
\<close>

theorem sessions_authorised:
  assumes "sv_sessions s = new_users"
    and "distinct (ssh_ids (sessions_run rx os ms (sessions_start s)))"
    and "h \<in> set (sn_handlers (sessions_run rx os ms (sessions_start s)))"
    and "hn_stage h = Hs_serving vs es \<or> hn_stage h = Hs_over (Served vs)"
  shows "(\<forall>r \<in> set vs. remote_allowed rx (sc_reverse (sv_config s)) (hn_user h) r)
    \<and> (case hn_user h of
         None \<Rightarrow> \<exists>ms1 ms2. ms = ms1 @ ms2 \<and> users_len (users_in rx os s ms1) = 0
       | Some u \<Rightarrow> \<exists>ms1 ms2 name. ms = ms1 @ ms2 \<and> (name, user_pass u) \<in> set (ce_attempts (hn_env h))
           \<and> users_get name (users_in rx os s ms1) = Some u)"
proof -
  have "users_get k (sv_sessions s) = None" for k by (simp add: assms(1) new_users_def users_get_def)
  from sessions_auth_run [OF this assms(2)] assms(3)
  have "handler_auth rx (sc_reverse (sv_config s)) (once_no_users rx os s ms) (once_granted rx os s ms) h"
    by (simp add: sessions_auth_def Let_def)
  with assms(4) show ?thesis
    by (auto simp: handler_auth_def user_ok_def remotes_ok_def list_all_iff once_no_users_def once_granted_def
        split: option.splits)
qed


lemma demo_sessions_users:
  "map (\<lambda>h. (hn_user h, ce_ssh_id (hn_env h))) (sn_handlers demo_sessions) =
     [(Some demo_user, ''sess''), (None, ''other'')]"
  by code_simp

theorem sessions_authorised_witness:
  "has_access toy_regex demo_user (user_addr (tcp_remote ''80''))
   \<and> (\<exists>ms1 ms2 name. demo_session_moves = ms1 @ ms2
       \<and> users_get name (users_in toy_regex calm_os (demo_server demo_users) ms1) = Some demo_user)"
proof -
  obtain h1 h2 where hs: "sn_handlers demo_sessions = [h1, h2]" "hn_user h1 = Some demo_user"
    "ce_ssh_id (hn_env h1) = ''sess''" "ce_ssh_id (hn_env h2) = ''other''"
    using demo_sessions_users by auto
  have stage: "hn_stage h1 = Hs_serving [tcp_remote ''80'']
      [Tunnel_state Endpoint_state_active ''R:80=>10.0.0.1:80'' [] 5 6]"
    using demo_sessions_stages by (simp add: hs(1))
  have "sv_sessions (demo_server demo_users) = new_users" by (simp add: demo_server_def new_users_def)
  from sessions_authorised [OF this, of toy_regex calm_os demo_session_moves h1, folded demo_sessions_def] stage
  show ?thesis by (auto simp: hs remote_allowed_def)
qed

end
