(* ===== verification/Sessions_Endpoints.thy ===== *)
theory Sessions_Endpoints
  imports Sessions_Track
begin

text \<open>
  The endpoints in the monitor when many handlers run at once (\<open>Sessions\<close>): each belongs to the session
  of one that serves or has served, and is open only while it serves.
\<close>

subsection \<open>Endpoints belong to live sessions\<close>

fun is_serving :: "handler_stage \<Rightarrow> bool" where
  "is_serving (Hs_serving vs es) = True"
| "is_serving st = False"

lemma serving_was_served: "is_serving st \<Longrightarrow> was_served st"
  by (cases st) simp_all

abbreviation sn_monitor :: "'re server \<Rightarrow> monitor_state" where
  "sn_monitor s \<equiv> tel_monitor (sv_tel s)"

text \<open>What a step does to the endpoints: nothing, one report, or the closing of its session's.\<close>

lemma same_endpoints:
  "ms_endpoints (apply_op (Op_pending sid a) t m) = ms_endpoints m"
  "ms_endpoints (apply_op (Op_connected sid) t m) = ms_endpoints m"
  "ms_endpoints (apply_op (Op_failed sid msg) t m) = ms_endpoints m"
  by (simp_all add: monitor_op_defs)

lemma step_endpointsE:
  assumes "handler_step rx os (h, s, tr) = (h', s', tr')"
  obtains (same) "ms_endpoints (sn_monitor s') = ms_endpoints (sn_monitor s)"
      "was_served (hn_stage h) \<longrightarrow> was_served (hn_stage h')" "is_serving (hn_stage h) \<longrightarrow> is_serving (hn_stage h')"
  | (closes) t where "is_serving (hn_stage h)" "was_served (hn_stage h')"
      "sn_monitor s' = mark_session_disconnected (hn_sid h) t (sn_monitor s)"
  | (reports) desc st err t where "is_serving (hn_stage h)" "is_serving (hn_stage h')"
      "sn_monitor s' = update_endpoint (hn_sid h) desc st err t (sn_monitor s)"
proof (cases "hn_stage h")
  case (Hs_serving vs es)
  show thesis
  proof (cases es)
    case Nil
    with Hs_serving assms show thesis by (intro closes) (auto simp: handler_step_def Let_def)
  next
    case (Cons e es')
    show thesis
    proof (cases e)
      case (Tunnel_state st desc err t1 t2)
      with Hs_serving Cons assms show thesis
        by (intro reports [of desc "status_of_state st" err t1]) (auto simp: handler_step_def Let_def run_srv_def)
    next
      case (Tunnel_stream ev)
      with Hs_serving Cons assms show thesis
        by (intro same) (auto simp: handler_step_def Let_def run_srv_def)
    qed
  qed
next
  case (Hs_trying as)
  with assms show thesis
    by (intro same; cases as)
      (auto simp: handler_step_def Let_def handler_fails_def same_endpoints simp del: apply_op.simps elim: auth_userE
        split: prod.splits bool.splits)
next
  case Hs_handshaken
  with assms show thesis
    by (intro same) (auto simp: handler_step_def Let_def dest!: same_tel_pull split: prod.splits option.splits)
next
  case Hs_waiting
  with assms show thesis
    by (intro same) (auto simp: handler_step_def Let_def take_request_def handler_fails_def same_endpoints
        simp del: apply_op.simps split: request_wait.splits option.splits if_splits)
next
  case (Hs_checking rs vs)
  with assms show thesis
    by (intro same; cases rs) (auto simp: handler_step_def Let_def check_next_def handler_fails_def same_endpoints
        simp del: apply_op.simps validate_remotes.simps split: prod.splits validation.splits)
qed (use assms in \<open>intro same; auto simp: handler_step_def Let_def handler_fails_def same_endpoints
    simp del: apply_op.simps split: option.splits\<close>)+

definition no_bar :: "string \<Rightarrow> bool" where "no_bar s \<longleftrightarrow> CHR ''|'' \<notin> set s"

lemma endpoint_key_owner:
  assumes "no_bar a" and "no_bar b" and "endpoint_key a d = endpoint_key b e"
  shows "a = b"
proof -
  have "takeWhile (\<lambda>c. c \<noteq> CHR ''|'') (endpoint_key x y) = x" if "no_bar x" for x y
    using that by (auto simp: endpoint_key_def no_bar_def takeWhile_append)
  with assms show ?thesis by metis
qed

text \<open>An entry of the endpoint table, with the handlers of the moment.\<close>

definition owned :: "'re handler list \<Rightarrow> string \<times> endpoint_snapshot \<Rightarrow> bool" where
  "owned hs = (\<lambda>(k, e).
     k = endpoint_key (es_session_id e) (es_descriptor e) \<and> no_bar (es_session_id e)
     \<and> (\<exists>h \<in> set hs. hn_sid h = es_session_id e \<and> was_served (hn_stage h)
          \<and> (es_status e \<in> {Endpoint_pending, Endpoint_active} \<longrightarrow> is_serving (hn_stage h))))"

lemma owned_replace:
  assumes "owned (as @ h # bs) x" and "hn_sid h' = hn_sid h"
    and "was_served (hn_stage h) \<longrightarrow> was_served (hn_stage h')" and "is_serving (hn_stage h) \<longrightarrow> is_serving (hn_stage h')"
  shows "owned (as @ h' # bs) x"
  using assms by (auto simp: owned_def split: prod.splits)

lemma owned_more: "owned hs x \<Longrightarrow> owned (hs @ hs') x"
  by (auto simp: owned_def)

lemma owned_closed:
  assumes "owned (as @ h # bs) (k, e)" and "hn_sid h' = hn_sid h" and "was_served (hn_stage h')"
  shows "owned (as @ h' # bs) (k, close_endpoint (hn_sid h) t e)"
proof -
  from assms(1) obtain g where g: "g \<in> set (as @ h # bs)" "hn_sid g = es_session_id e" "was_served (hn_stage g)"
      "es_status e \<in> {Endpoint_pending, Endpoint_active} \<longrightarrow> is_serving (hn_stage g)"
    and k: "k = endpoint_key (es_session_id e) (es_descriptor e)" "no_bar (es_session_id e)"
    unfolding owned_def prod.case by blast
  show ?thesis
  proof (cases "es_session_id e = hn_sid h")
    case True
    have "es_status (close_endpoint (hn_sid h) t e) \<notin> {Endpoint_pending, Endpoint_active}"
      using True by (cases "es_status e") (simp_all add: close_endpoint_def)
    moreover have "hn_sid h' = es_session_id (close_endpoint (hn_sid h) t e)" using True assms(2) by simp
    moreover have "h' \<in> set (as @ h' # bs)" by simp
    ultimately show ?thesis unfolding owned_def prod.case close_endpoint_key using k assms(3) by blast
  next
    case False
    then have "g \<noteq> h" using g(2) by auto
    then have "g \<in> set (as @ h' # bs)" using g(1) by simp
    moreover have "close_endpoint (hn_sid h) t e = e" using False by (simp add: close_endpoint_def)
    ultimately show ?thesis unfolding owned_def prod.case using k g(2-4) by metis
  qed
qed

lemma in_map_set: "x \<in> set (map_set k v m) \<Longrightarrow> x = (k, v) \<or> x \<in> set m"
proof (induction m)
  case Nil
  then show ?case by simp
next
  case (Cons y m)
  obtain k' v' where "y = (k', v')" by fastforce
  with Cons show ?case by (cases "k' = k") auto
qed

lemma owned_update:
  assumes all: "\<forall>x \<in> set (ms_endpoints m). owned hs x"
    and h: "h \<in> set hs" "hn_sid h = sid" "is_serving (hn_stage h)" "no_bar sid"
    and x: "x \<in> set (ms_endpoints (update_endpoint sid desc st err t m))"
  shows "owned hs x"
proof -
  let ?k = "endpoint_key sid desc"
  obtain e where e: "ms_endpoints (update_endpoint sid desc st err t m) =
      map_set ?k (e\<lparr>es_status := st, es_last_error := err, es_updated_at := t\<rparr>) (ms_endpoints m)"
    "e = (case map_get (ms_endpoints m) ?k of
       None \<Rightarrow> \<lparr>es_session_id = sid, es_descriptor = desc, es_status = st, es_last_error = [], es_updated_at = 0\<rparr>
     | Some e \<Rightarrow> e)"
    by (simp add: update_endpoint_def Let_def)
  have own: "es_session_id e = sid \<and> ?k = endpoint_key (es_session_id e) (es_descriptor e)"
  proof (cases "map_get (ms_endpoints m) ?k")
    case None
    then show ?thesis by (simp add: e(2))
  next
    case (Some e0)
    then have "owned hs (?k, e0)" using all by (auto dest: map_of_SomeD)
    then have "?k = endpoint_key (es_session_id e0) (es_descriptor e0)" "no_bar (es_session_id e0)"
      by (simp_all add: owned_def)
    with endpoint_key_owner [OF h(4) this(2), of desc "es_descriptor e0"] Some show ?thesis by (simp add: e(2))
  qed
  from x e(1) consider "x = (?k, e\<lparr>es_status := st, es_last_error := err, es_updated_at := t\<rparr>)" | "x \<in> set (ms_endpoints m)"
    using in_map_set by metis
  then show ?thesis
  proof cases
    case 1
    with own h serving_was_served show ?thesis by (auto simp: owned_def)
  next
    case 2
    with all show ?thesis by blast
  qed
qed


lemma itoa_no_bar: "no_bar (itoa i)"
  using show_nat_digits [of "CHR ''|''"] by (auto simp: no_bar_def itoa_def less_eq_char_def)

definition endpoints_owned :: "'re sessions \<Rightarrow> bool" where
  "endpoints_owned w \<longleftrightarrow>
     (\<forall>x \<in> set (ms_endpoints (sn_monitor (sn_server w))). owned (sn_handlers w) x)
     \<and> (\<forall>h \<in> set (sn_handlers w). hn_stage h \<noteq> Hs_arrived \<longrightarrow> no_bar (hn_sid h))"

lemma step_sid:
  assumes "handler_step rx os (h, s, tr) = (h', s', tr')"
  shows "(hn_stage h \<noteq> Hs_arrived \<longrightarrow> hn_sid h' = hn_sid h) \<and> (hn_stage h = Hs_arrived \<longrightarrow> no_bar (hn_sid h'))"
proof (cases "hn_stage h")
  case Hs_arrived
  from step_arrived [OF this assms] show ?thesis by (simp add: Hs_arrived itoa_no_bar)
next
  case (Hs_trying as)
  with assms show ?thesis
    by (cases as) (auto simp: handler_step_def Let_def handler_fails_def split: prod.splits bool.splits)
next
  case Hs_waiting
  with assms same_take_request(2) [of h s tr] show ?thesis by (auto simp: handler_step_def Let_def)
next
  case (Hs_checking rs vs)
  with assms same_check_next(2) [of rx os rs vs h s tr] show ?thesis by (auto simp: handler_step_def Let_def)
next
  case (Hs_serving vs es)
  with assms show ?thesis by (cases es) (auto simp: handler_step_def Let_def)
qed (use assms in \<open>auto simp: handler_step_def Let_def handler_fails_def split: option.splits prod.splits\<close>)

lemma endpoints_owned_move:
  assumes inv: "endpoints_owned w"
  shows "endpoints_owned (sessions_move rx os x w)"
proof -
  from inv have own: "\<forall>x \<in> set (ms_endpoints (sn_monitor (sn_server w))). owned (sn_handlers w) x"
    and bars: "\<forall>h \<in> set (sn_handlers w). hn_stage h \<noteq> Hs_arrived \<longrightarrow> no_bar (hn_sid h)"
    unfolding endpoints_owned_def by blast+
  show ?thesis
  proof (cases rx os x w rule: sessions_moveE)
    case skip
    with inv show ?thesis by simp
  next
    case (connects ce)
    with own bars show ?thesis
      by (auto simp: endpoints_owned_def new_handler_def owned_more)
  next
    case (users f)
    with own bars show ?thesis by (simp add: endpoints_owned_def)
  next
    case (stream sid ev)
    have "sn_monitor (sn_server (sessions_move rx os x w)) = sn_monitor (sn_server w)"
      "sn_handlers (sessions_move rx os x w) = sn_handlers w"
      by (simp_all add: stream run_srv_def)
    with own bars show ?thesis by (simp add: endpoints_owned_def)
  next
    case (moves as h bs h' s' tr')
    have sid: "hn_stage h \<noteq> Hs_arrived \<longrightarrow> hn_sid h' = hn_sid h" "hn_stage h = Hs_arrived \<longrightarrow> no_bar (hn_sid h')"
      using step_sid [OF moves(2)] by blast+
    have bars': "\<forall>g \<in> set (as @ h' # bs). hn_stage g \<noteq> Hs_arrived \<longrightarrow> no_bar (hn_sid g)"
      using bars sid by (auto simp: moves(1))
    have own': "\<forall>x \<in> set (ms_endpoints (sn_monitor (sn_server w))). owned (as @ h # bs) x"
      using own by (simp add: moves(1))
    have "\<forall>x \<in> set (ms_endpoints (sn_monitor s')). owned (as @ h' # bs) x"
      using moves(2)
    proof (cases rule: step_endpointsE)
      case same
      show ?thesis
      proof (cases "hn_stage h = Hs_arrived")
        case True
        then have "\<not> was_served (hn_stage h)" by simp
        then have "owned (as @ h # bs) x \<Longrightarrow> owned (as @ h' # bs) x" for x
          by (auto simp: owned_def split: prod.splits)
        with own' same(1) show ?thesis by simp
      next
        case False
        with sid have "hn_sid h' = hn_sid h" by blast
        with own' same owned_replace show ?thesis by metis
      qed
    next
      case (closes t)
      then have "hn_stage h \<noteq> Hs_arrived" by auto
      with sid have s: "hn_sid h' = hn_sid h" by blast
      have "ms_endpoints (sn_monitor s') =
          map (map_prod id (close_endpoint (hn_sid h) t)) (ms_endpoints (sn_monitor (sn_server w)))"
        by (simp add: closes mark_session_disconnected_def put_session_def Let_def)
      with own' owned_closed [OF _ s closes(2)] show ?thesis by auto
    next
      case (reports desc st err t)
      then have arr: "hn_stage h \<noteq> Hs_arrived" by auto
      with sid have s: "hn_sid h' = hn_sid h" by blast
      have "no_bar (hn_sid h)" using bars arr by (simp add: moves(1))
      moreover have "\<forall>x \<in> set (ms_endpoints (sn_monitor (sn_server w))). owned (as @ h' # bs) x"
        using own' owned_replace [OF _ s] reports(1,2) serving_was_served by blast
      ultimately show ?thesis
        using owned_update [of "sn_monitor (sn_server w)" "as @ h' # bs" h' "hn_sid h"] s reports(2,3) by auto
    qed
    with bars' show ?thesis by (simp add: endpoints_owned_def moves)
  qed
qed


lemma endpoints_owned_run:
  assumes "sn_monitor s = new_monitor_state"
  shows "endpoints_owned (sessions_run rx os ms (sessions_start s))"
proof (induction ms rule: rev_induct)
  case Nil
  show ?case by (simp add: endpoints_owned_def sessions_start_def assms new_monitor_state_def)
next
  case (snoc x ms)
  then show ?case by (simp add: endpoints_owned_move)
qed

text \<open>
  C8. The monitor shows no endpoint of a lost session as open. However the handlers interleave, every
  endpoint in the monitor belongs to the session of a handler that serves a tunnel or has served
  one, and while it is pending or active that handler still serves; so when the last tunnel
  has ended every endpoint is closed or failed.
\<close>

theorem open_endpoints_served:
  assumes "tel_monitor (sv_tel s) = new_monitor_state"
    and "e \<in> set (map snd (ms_endpoints (tel_monitor (sv_tel
           (sn_server (sessions_run rx os ms (sessions_start s)))))))"
  shows "\<exists>h \<in> set (sn_handlers (sessions_run rx os ms (sessions_start s))).
      hn_sid h = es_session_id e \<and> was_served (hn_stage h)
      \<and> (es_status e = Endpoint_pending \<or> es_status e = Endpoint_active \<longrightarrow> is_serving (hn_stage h))"
proof -
  let ?w = "sessions_run rx os ms (sessions_start s)"
  from assms(2) obtain k where "(k, e) \<in> set (ms_endpoints (sn_monitor (sn_server ?w)))" by auto
  with endpoints_owned_run [OF assms(1), of rx os ms] have "owned (sn_handlers ?w) (k, e)"
    unfolding endpoints_owned_def by blast
  then show ?thesis unfolding owned_def prod.case by blast
qed

definition demo_open_sessions :: "string sessions" where
  "demo_open_sessions =
     sessions_run toy_regex calm_os (demo_session_moves @ [Moves 0]) (sessions_start (demo_server demo_users))"

lemma demo_open_endpoint:
  "map snd (ms_endpoints (tel_monitor (sv_tel (sn_server demo_open_sessions)))) =
     [\<lparr>es_session_id = ''1'', es_descriptor = ''R:80=>10.0.0.1:80'', es_status = Endpoint_active,
       es_last_error = [], es_updated_at = 5\<rparr>]"
  by code_simp

theorem open_endpoints_served_witness:
  "\<exists>h \<in> set (sn_handlers demo_open_sessions). hn_sid h = ''1'' \<and> is_serving (hn_stage h)"
proof -
  let ?e = "\<lparr>es_session_id = ''1'', es_descriptor = ''R:80=>10.0.0.1:80'', es_status = Endpoint_active,
       es_last_error = [], es_updated_at = 5\<rparr>"
  have "tel_monitor (sv_tel (demo_server demo_users)) = new_monitor_state" by (simp add: demo_server_def)
  moreover have "?e \<in> set (map snd (ms_endpoints (tel_monitor (sv_tel (sn_server demo_open_sessions)))))"
    unfolding demo_open_endpoint by simp
  ultimately show ?thesis
    using open_endpoints_served [of "demo_server demo_users" ?e toy_regex calm_os "demo_session_moves @ [Moves 0]"]
    unfolding demo_open_sessions_def by auto
qed

end
