(* ===== verification/Publication.thy ===== *)
theory Publication
  imports Telemetry
begin

text \<open>
  The server's reports as goroutines run them (\<^verbatim>\<open>server/monitor_state.go\<close>, lines 224 to 298). The
  monitor and the publisher each have a lock of their own, and a report takes them one after the
  other: it changes the monitor, tells the publisher, takes a snapshot and hands it over, and between
  any two of these another report may run. \<open>Telemetry\<close> has the same reports in one go.
\<close>

subsection \<open>One report\<close>

datatype report_stage =
    Rp_new
  | Rp_marked
  | Rp_told
  | Rp_snapped monitor_snapshot
  | Rp_ready monitor_snapshot
  | Rp_finished

record report =
  rp_op :: srv_op
  rp_stage :: report_stage

text \<open>The change of the monitor, under its lock.\<close>

fun mark_op :: "srv_op \<Rightarrow> telemetry \<Rightarrow> telemetry" where
  "mark_op (Srv_pending sid addr t1 t2 t3) s = s\<lparr>tel_monitor := mark_session_pending sid addr t1 (tel_monitor s)\<rparr>"
| "mark_op (Srv_connected sid t1 t2 t3) s = s\<lparr>tel_monitor := mark_session_connected sid t1 (tel_monitor s)\<rparr>"
| "mark_op (Srv_failed sid msg t1 t2 t3) s = s\<lparr>tel_monitor := mark_session_failed sid msg t1 (tel_monitor s)\<rparr>"
| "mark_op (Srv_disconnected sid t1 t2 t3) s = s\<lparr>tel_monitor := mark_session_disconnected sid t1 (tel_monitor s)\<rparr>"
| "mark_op (Srv_endpoint ch t1 t2) s =
     s\<lparr>tel_monitor := update_endpoint (ec_session_id ch) (ec_descriptor ch) (status_of_state (ec_state ch))
         (ec_error ch) t1 (tel_monitor s)\<rparr>"
| "mark_op (Srv_stream ev) s = s"

text \<open>
  What the publisher is told, under its lock. The reports that a session connected or failed take
  their snapshot before, and look the session up in it; the others do not use the snapshot.
\<close>

fun tell_op :: "srv_op \<Rightarrow> monitor_snapshot \<Rightarrow> publisher \<Rightarrow> publisher" where
  "tell_op (Srv_pending sid addr t1 t2 t3) snap = on_session_status sid Session_pending [] addr t2 t3"
| "tell_op (Srv_connected sid t1 t2 t3) snap =
     on_session_status sid Session_connected [] []
       (case find_session sid snap of None \<Rightarrow> t2 | Some sess \<Rightarrow> ss_started_at sess) t3"
| "tell_op (Srv_failed sid msg t1 t2 t3) snap =
     (case find_session sid snap of
        None \<Rightarrow> on_session_status sid Session_failed msg [] t2 t3
      | Some sess \<Rightarrow> on_session_status sid Session_failed msg (ss_remote_addr sess) (ss_started_at sess) t3)"
| "tell_op (Srv_disconnected sid t1 t2 t3) snap = on_session_status sid Session_disconnected [] [] t2 t3"
| "tell_op (Srv_endpoint ch t1 t2) snap =
     on_endpoint_status (ec_session_id ch) (ec_descriptor ch) (status_of_state (ec_state ch)) (ec_error ch) t2"
| "tell_op (Srv_stream ev) snap = on_stream_event ev"

fun snaps_first :: "srv_op \<Rightarrow> bool" where
  "snaps_first (Srv_connected sid t1 t2 t3) = True"
| "snaps_first (Srv_failed sid msg t1 t2 t3) = True"
| "snaps_first x = False"

fun is_stream :: "srv_op \<Rightarrow> bool" where
  "is_stream (Srv_stream ev) = True"
| "is_stream x = False"

definition report_step :: "report \<times> telemetry \<Rightarrow> report \<times> telemetry" where
  "report_step = (\<lambda>(r, s).
     (let x = rp_op r
      in case rp_stage r of
           Rp_new \<Rightarrow>
             if is_stream x then (r\<lparr>rp_stage := Rp_finished\<rparr>, with_otel (tell_op x empty_snapshot) s)
             else (r\<lparr>rp_stage := Rp_marked\<rparr>, mark_op x s)
         | Rp_marked \<Rightarrow>
             if tel_otel s = None then (r\<lparr>rp_stage := Rp_finished\<rparr>, s)
             else if snaps_first x then (r\<lparr>rp_stage := Rp_snapped (snapshot (tel_monitor s))\<rparr>, s)
             else (r\<lparr>rp_stage := Rp_told\<rparr>, with_otel (tell_op x empty_snapshot) s)
         | Rp_told \<Rightarrow> (r\<lparr>rp_stage := Rp_ready (snapshot (tel_monitor s))\<rparr>, s)
         | Rp_snapped snap \<Rightarrow> (r\<lparr>rp_stage := Rp_ready snap\<rparr>, with_otel (tell_op x snap) s)
         | Rp_ready snap \<Rightarrow> (r\<lparr>rp_stage := Rp_finished\<rparr>, with_otel (update_snapshot snap) s)
         | Rp_finished \<Rightarrow> (r, s)))"

text \<open>
  A report that no other overlaps has the effect of the wrapper in one go: after its four steps
  it is finished, and the monitor and the publisher are what \<open>apply_srv\<close> makes of them, for
  every kind of report, with and without telemetry.
\<close>

theorem report_alone:
  "(report_step ^^ 4) (\<lparr>rp_op = x, rp_stage = Rp_new\<rparr>, s) = (\<lparr>rp_op = x, rp_stage = Rp_finished\<rparr>, apply_srv x s)"
proof -
  have four: "(f ^^ 4) y = f (f (f (f y)))" for f :: "report \<times> telemetry \<Rightarrow> report \<times> telemetry" and y
    by (simp add: numeral_eq_Suc)
  show ?thesis
    unfolding four
    by (cases x; cases "tel_otel s")
      (simp_all add: report_step_def srv_defs srv_on_stream_event_def split: option.split)
qed

subsection \<open>Reports that overlap\<close>

datatype reporting = Begins srv_op | Runs nat

fun report_move :: "reporting \<Rightarrow> telemetry \<times> report list \<Rightarrow> telemetry \<times> report list" where
  "report_move (Begins x) (s, rs) = (s, rs @ [\<lparr>rp_op = x, rp_stage = Rp_new\<rparr>])"
| "report_move (Runs i) (s, rs) =
     (if i < length rs then
        (case report_step (rs ! i, s) of (r, s) \<Rightarrow> (s, rs[i := r]))
      else (s, rs))"

definition reports_run :: "reporting list \<Rightarrow> telemetry \<times> report list" where
  "reports_run ms = fold report_move ms (new_telemetry True, [])"

lemma reports_run_simps [simp]:
  "reports_run [] = (new_telemetry True, [])"
  "reports_run (ms @ [x]) = report_move x (reports_run ms)"
  by (simp_all add: reports_run_def)

lemma tell_keeps_snapshot [simp]: "last_snapshot (tell_op x snap p) = last_snapshot p"
  by (cases x) (auto simp: on_session_status_def on_endpoint_status_def on_stream_event_def Let_def
      split: session_status.split endpoint_status.split stream_state.split option.split)

lemma mark_op_monitor:
  "tel_monitor (mark_op x s) = run_ops (monitor_ops_of x) (tel_monitor s) \<and> tel_otel (mark_op x s) = tel_otel s"
  by (cases x) simp_all

text \<open>
  The monitors that a run has been through, and the reports that have changed the monitor so far.
\<close>

definition past_snapshot :: "reporting list \<Rightarrow> monitor_snapshot \<Rightarrow> bool" where
  "past_snapshot ms snap \<longleftrightarrow>
     (\<exists>ms1 ms2. ms = ms1 @ ms2 \<and> snap = snapshot (tel_monitor (fst (reports_run ms1))))"

definition stage_past :: "reporting list \<Rightarrow> report \<Rightarrow> bool" where
  "stage_past ms r =
     (case rp_stage r of Rp_snapped snap \<Rightarrow> past_snapshot ms snap | Rp_ready snap \<Rightarrow> past_snapshot ms snap
      | _ \<Rightarrow> True)"

definition begun_ops :: "report list \<Rightarrow> srv_op multiset" where
  "begun_ops rs = mset (map rp_op (filter (\<lambda>r. rp_stage r \<noteq> Rp_new) rs))"

lemma past_snapshot_snoc: "past_snapshot ms snap \<Longrightarrow> past_snapshot (ms @ [x]) snap"
  unfolding past_snapshot_def by (metis append.assoc)

lemma past_snapshot_now: "past_snapshot ms (snapshot (tel_monitor (fst (reports_run ms))))"
  unfolding past_snapshot_def by (metis append_Nil2)

lemma stage_past_snoc: "stage_past ms r \<Longrightarrow> stage_past (ms @ [x]) r"
  by (auto simp: stage_past_def past_snapshot_snoc split: report_stage.splits)

text \<open>What one step does: it only hands over the snapshot it holds, and takes one of the monitor it sees.\<close>

lemma report_stepE:
  assumes "report_step (r, s) = (r', s')"
  obtains (over) "rp_stage r = Rp_finished" "r' = r" "s' = s"
  | (first) "rp_stage r = Rp_new" "rp_op r' = rp_op r" "rp_stage r' = Rp_marked \<or> rp_stage r' = Rp_finished"
      "tel_monitor s' = run_ops (monitor_ops_of (rp_op r)) (tel_monitor s)"
      "map_option last_snapshot (tel_otel s') = map_option last_snapshot (tel_otel s)"
  | (takes) "rp_stage r \<noteq> Rp_new" "rp_op r' = rp_op r" "s' = s"
      "rp_stage r' = Rp_snapped (snapshot (tel_monitor s)) \<or> rp_stage r' = Rp_ready (snapshot (tel_monitor s))"
  | (tells) "rp_stage r \<noteq> Rp_new" "rp_op r' = rp_op r" "tel_monitor s' = tel_monitor s"
      "map_option last_snapshot (tel_otel s') = map_option last_snapshot (tel_otel s)"
      "rp_stage r' = Rp_told \<or> rp_stage r' = Rp_finished
       \<or> (\<exists>snap. rp_stage r = Rp_snapped snap \<and> rp_stage r' = Rp_ready snap)"
  | (hands) snap where "rp_stage r = Rp_ready snap" "rp_op r' = rp_op r" "rp_stage r' = Rp_finished"
      "s' = with_otel (update_snapshot snap) s"
proof (cases "rp_stage r")
  case Rp_new
  show thesis
  proof (cases "is_stream (rp_op r)")
    case True
    then obtain ev where "rp_op r = Srv_stream ev" by (cases "rp_op r") simp_all
    with Rp_new assms show thesis
      using tell_keeps_snapshot [of "Srv_stream ev" empty_snapshot]
      by (intro first) (auto simp: report_step_def with_otel_def option.map_comp comp_def)
  next
    case False
    with Rp_new assms show thesis by (intro first) (auto simp: report_step_def Let_def mark_op_monitor)
  qed
next
  case Rp_marked
  show thesis
  proof (cases "tel_otel s \<noteq> None \<and> snaps_first (rp_op r)")
    case True
    with Rp_marked assms show thesis by (intro takes) (auto simp: report_step_def Let_def)
  next
    case False
    with Rp_marked assms show thesis
      by (intro tells) (auto simp: report_step_def Let_def with_otel_def option.map_comp comp_def split: if_splits)
  qed
next
  case Rp_told
  with assms show thesis by (intro takes) (auto simp: report_step_def Let_def)
next
  case (Rp_snapped snap)
  with assms show thesis
    by (intro tells) (auto simp: report_step_def Let_def with_otel_def option.map_comp comp_def)
next
  case (Rp_ready snap)
  with assms show thesis by (intro hands) (auto simp: report_step_def Let_def)
next
  case Rp_finished
  with assms show thesis by (intro over) (auto simp: report_step_def Let_def)
qed

definition reports_inv :: "reporting list \<Rightarrow> bool" where
  "reports_inv ms \<longleftrightarrow>
     (case reports_run ms of (s, rs) \<Rightarrow>
        (\<exists>xs. tel_monitor s = run_ops (concat (map monitor_ops_of xs)) new_monitor_state \<and> mset xs = begun_ops rs)
        \<and> list_all (stage_past ms) rs
        \<and> (\<exists>p. tel_otel s = Some p \<and> past_snapshot ms (last_snapshot p)))"

lemma begun_ops_split:
  "begun_ops (as @ r # bs) =
     (if rp_stage r = Rp_new then begun_ops (as @ bs) else add_mset (rp_op r) (begun_ops (as @ bs)))"
  by (simp add: begun_ops_def)

lemma begun_ops_nth:
  assumes "i < length rs"
  shows "begun_ops (rs[i := r]) =
      (if rp_stage r = Rp_new then begun_ops (take i rs @ drop (Suc i) rs)
       else add_mset (rp_op r) (begun_ops (take i rs @ drop (Suc i) rs)))"
  by (simp only: upd_conv_take_nth_drop [OF assms] begun_ops_split)

lemma begun_ops_upd:
  assumes "i < length rs" and "rp_stage (rs ! i) \<noteq> Rp_new" and "rp_op r = rp_op (rs ! i)" and "rp_stage r \<noteq> Rp_new"
  shows "begun_ops (rs[i := r]) = begun_ops rs"
  using begun_ops_nth [OF assms(1), of "rs ! i"] begun_ops_nth [OF assms(1), of r] assms(2-4) by simp

lemma begun_ops_first:
  assumes "i < length rs" and "rp_stage (rs ! i) = Rp_new" and "rp_op r = rp_op (rs ! i)" and "rp_stage r \<noteq> Rp_new"
  shows "begun_ops (rs[i := r]) = add_mset (rp_op (rs ! i)) (begun_ops rs)"
  using begun_ops_nth [OF assms(1), of "rs ! i"] begun_ops_nth [OF assms(1), of r] assms(2-4) by simp

lemma reports_inv_move:
  assumes "reports_inv ms"
  shows "reports_inv (ms @ [x])"
proof -
  obtain s rs where run: "reports_run ms = (s, rs)" by fastforce
  from assms obtain xs p where xs: "tel_monitor s = run_ops (concat (map monitor_ops_of xs)) new_monitor_state"
    "mset xs = begun_ops rs" and past: "list_all (stage_past ms) rs"
    and p: "tel_otel s = Some p" "past_snapshot ms (last_snapshot p)"
    by (auto simp: reports_inv_def run)
  have now: "past_snapshot ms (snapshot (tel_monitor s))" using past_snapshot_now [of ms] by (simp add: run)
  have past': "list_all (stage_past (ms @ [x])) rs" using past stage_past_snoc by (auto simp: list_all_iff)
  have keep: "reports_inv (ms @ [x])" if "reports_run (ms @ [x]) = (s', rs')"
    "tel_monitor s' = run_ops (concat (map monitor_ops_of ys)) new_monitor_state" "mset ys = begun_ops rs'"
    "list_all (stage_past (ms @ [x])) rs'" "tel_otel s' = Some q" "past_snapshot ms (last_snapshot q)" for s' rs' ys q
    using that past_snapshot_snoc unfolding reports_inv_def by auto
  show ?thesis
  proof (cases x)
    case (Begins y)
    have "begun_ops (rs @ [\<lparr>rp_op = y, rp_stage = Rp_new\<rparr>]) = begun_ops rs" by (simp add: begun_ops_def)
    with xs past' p Begins show ?thesis
      by (intro keep [of s "rs @ [\<lparr>rp_op = y, rp_stage = Rp_new\<rparr>]" xs p]) (simp_all add: run stage_past_def)
  next
    case (Runs i)
    show ?thesis
    proof (cases "i < length rs")
      case False
      with xs past' p Runs show ?thesis by (intro keep [of s rs xs p]) (simp_all add: run)
    next
      case True
      obtain r' s' where st: "report_step (rs ! i, s) = (r', s')" by fastforce
      have run': "reports_run (ms @ [x]) = (s', rs[i := r'])" using True st by (simp add: run Runs)
      have upd: "list_all (stage_past (ms @ [x])) (rs[i := r'])" if "stage_past (ms @ [x]) r'"
        using past' that set_update_subset_insert [of rs i r'] by (auto simp: list_all_iff)
      have old: "stage_past ms (rs ! i)" using past True by (simp add: list_all_iff)
      from st show ?thesis
      proof (cases rule: report_stepE)
        case over
        with run' xs past' p show ?thesis by (intro keep [of s rs xs p]) simp_all
      next
        case first
        obtain q where q: "tel_otel s' = Some q" "last_snapshot q = last_snapshot p"
          using first(5) p(1) by auto
        have "rp_stage r' \<noteq> Rp_new" "stage_past (ms @ [x]) r'" using first(3) by (auto simp: stage_past_def)
        with True first q xs p(2) show ?thesis
          by (intro keep [OF run', of "xs @ [rp_op (rs ! i)]" q])
            (simp_all add: run_ops_append begun_ops_first upd)
      next
        case takes
        have "rp_stage r' \<noteq> Rp_new" "stage_past (ms @ [x]) r'"
          using takes(4) past_snapshot_snoc [OF now] by (auto simp: stage_past_def)
        with True takes xs p show ?thesis
          by (intro keep [OF run', of xs p]) (simp_all add: begun_ops_upd upd)
      next
        case tells
        obtain q where q: "tel_otel s' = Some q" "last_snapshot q = last_snapshot p"
          using tells(4) p(1) by auto
        have "rp_stage r' \<noteq> Rp_new" "stage_past (ms @ [x]) r'"
          using tells(5) old past_snapshot_snoc by (auto simp: stage_past_def)
        with True tells q xs p(2) show ?thesis
          by (intro keep [OF run', of xs q]) (simp_all add: begun_ops_upd upd)
      next
        case (hands snap)
        have "past_snapshot ms snap" using old hands(1) by (simp add: stage_past_def)
        moreover have "rp_stage r' \<noteq> Rp_new" "stage_past (ms @ [x]) r'" using hands(3) by (auto simp: stage_past_def)
        ultimately show ?thesis
          using True hands xs p(1)
          by (intro keep [OF run', of xs "update_snapshot snap p"])
            (simp_all add: begun_ops_upd upd with_otel_def)
      qed
    qed
  qed
qed

lemma reports_inv_run: "reports_inv ms"
proof (induction ms rule: rev_induct)
  case Nil
  have "reports_run [] = (new_telemetry True, [])" by simp
  moreover have "past_snapshot [] empty_snapshot"
    using new_telemetry_in_sync [of True] past_snapshot_now [of "[]"]
    by (simp add: in_sync_def new_telemetry_def new_publisher_def)
  ultimately show ?case
    by (auto simp: reports_inv_def begun_ops_def new_telemetry_def new_publisher_def intro: exI [of _ "[]"])
next
  case (snoc x ms)
  then show ?case by (rule reports_inv_move)
qed

text \<open>
  C39. What overlapping reports can and cannot do. However the server's reports interleave, the monitor
  is one that the reports which have begun give in some order, one after the other; and what the
  gauges show is a snapshot of the monitor at the end or at some earlier moment of the run, whole:
  never a mixture of two moments and never a state that the monitor was not in.
\<close>

theorem published_is_past:
  "case reports_run ms of (s, rs) \<Rightarrow>
     (\<exists>xs. mset xs = mset (map rp_op (filter (\<lambda>r. rp_stage r \<noteq> Rp_new) rs))
        \<and> tel_monitor s = run_ops (concat (map monitor_ops_of xs)) new_monitor_state)
     \<and> (\<exists>ms1 ms2 p. ms = ms1 @ ms2 \<and> tel_otel s = Some p
          \<and> last_snapshot p = snapshot (tel_monitor (fst (reports_run ms1))))"
  using reports_inv_run [of ms]
  by (auto simp: reports_inv_def begun_ops_def past_snapshot_def split: prod.splits)

text \<open>
  It can be an earlier moment for good: the first report takes its snapshot, the second one
  runs from beginning to end, and the first hands over the snapshot from before it. All reports are
  finished and a session is pending, but the gauges count none until another report comes.
\<close>

definition overtaken :: "reporting list" where
  "overtaken =
     [Begins (Srv_connected ''1'' 5 6 7), Begins (Srv_pending ''2'' ''10.0.0.9:4'' 8 9 10),
      Runs 0, Runs 0, Runs 1, Runs 1, Runs 1, Runs 1, Runs 0, Runs 0]"

lemma gauges_stay_behind:
  "case reports_run overtaken of (s, rs) \<Rightarrow>
     list_all (\<lambda>r. rp_stage r = Rp_finished) rs
     \<and> pending_sessions (snap_counters (snapshot (tel_monitor s))) = 1
     \<and> map_option (\<lambda>p. pending_sessions (snap_counters (last_snapshot p))) (tel_otel s) = Some 0"
  by code_simp

end
