(* ===== verification/Wait_Group.thy ===== *)
theory Wait_Group
  imports Main
begin

text \<open>
  \<^verbatim>\<open>share/tunnel/wg.go\<close>: the wait group whose counter can be read, as a step relation over any
  number of threads, one atomic action of the source at a time: an \<^verbatim>\<open>Add\<close> is an atomic addition
  to \<^verbatim>\<open>n\<close> and then an addition to the inner group, a \<^verbatim>\<open>Done\<close> is a load, a
  compare-and-swap and then the inner \<^verbatim>\<open>Done\<close>. The inner group panics when its counter would
  become negative. Counters are unbounded here; the tunnel keeps them at most 2.
\<close>

record wait_group =
  wg_n :: int
  wg_inner :: int
  wg_panicked :: bool

definition new_wait_group :: wait_group where
  "new_wait_group = \<lparr>wg_n = 0, wg_inner = 0, wg_panicked = False\<rparr>"

text \<open>The atomic actions.\<close>

definition wg_add_n :: "int \<Rightarrow> wait_group \<Rightarrow> wait_group" where
  "wg_add_n k w = w\<lparr>wg_n := wg_n w + k\<rparr>"

definition wg_add_inner :: "int \<Rightarrow> wait_group \<Rightarrow> wait_group" where
  "wg_add_inner k w =
     (if wg_inner w + k < 0 then w\<lparr>wg_inner := wg_inner w + k, wg_panicked := True\<rparr>
      else w\<lparr>wg_inner := wg_inner w + k\<rparr>)"

definition wg_swap :: "int \<Rightarrow> wait_group \<Rightarrow> wait_group option" where
  "wg_swap n w = (if wg_n w = n then Some (w\<lparr>wg_n := n - 1\<rparr>) else None)"

definition wg_waits :: "wait_group \<Rightarrow> bool" where
  "wg_waits w \<longleftrightarrow> wg_inner w \<noteq> 0"

lemma wg_add_inner_simps [simp]:
  "wg_inner (wg_add_inner k w) = wg_inner w + k" "wg_n (wg_add_inner k w) = wg_n w"
  "wg_panicked (wg_add_inner k w) = (wg_panicked w \<or> wg_inner w + k < 0)"
  "wg_inner (wg_add_n k w) = wg_inner w" "wg_n (wg_add_n k w) = wg_n w + k"
  "wg_panicked (wg_add_n k w) = wg_panicked w"
  by (auto simp: wg_add_inner_def wg_add_n_def)

text \<open>Where a thread is; \<^verbatim>\<open>DoneAll\<close> is a loop of loads and \<^verbatim>\<open>Done\<close>s.\<close>

datatype wg_thread = Idle | Adding int | Loaded int | Swapped

inductive wg_step :: "wait_group \<times> wg_thread list \<Rightarrow> wait_group \<times> wg_thread list \<Rightarrow> bool" where
  add_n: "i < length ts \<Longrightarrow> ts ! i = Idle \<Longrightarrow> 0 < k \<Longrightarrow>
    wg_step (w, ts) (wg_add_n k w, ts[i := Adding k])"
| add_inner: "i < length ts \<Longrightarrow> ts ! i = Adding k \<Longrightarrow>
    wg_step (w, ts) (wg_add_inner k w, ts[i := Idle])"
| load: "i < length ts \<Longrightarrow> ts ! i = Idle \<Longrightarrow> 0 < wg_n w \<Longrightarrow>
    wg_step (w, ts) (w, ts[i := Loaded (wg_n w)])"
| swap: "i < length ts \<Longrightarrow> ts ! i = Loaded n \<Longrightarrow> wg_swap n w = Some w' \<Longrightarrow>
    wg_step (w, ts) (w', ts[i := Swapped])"
| swap_lost: "i < length ts \<Longrightarrow> ts ! i = Loaded n \<Longrightarrow> wg_swap n w = None \<Longrightarrow>
    wg_step (w, ts) (w, ts[i := Idle])"
| inner_done: "i < length ts \<Longrightarrow> ts ! i = Swapped \<Longrightarrow>
    wg_step (w, ts) (wg_add_inner (- 1) w, ts[i := Idle])"

inductive wg_reachable :: "nat \<Rightarrow> wait_group \<times> wg_thread list \<Rightarrow> bool" for m where
  start: "wg_reachable m (new_wait_group, replicate m Idle)"
| step: "wg_reachable m s \<Longrightarrow> wg_step s s' \<Longrightarrow> wg_reachable m s'"

inductive_cases wg_stepE: "wg_step (w, ts) s'"

subsection \<open>The inner counter follows the outer one\<close>

fun debt :: "wg_thread \<Rightarrow> int" where
  "debt (Adding k) = - k"
| "debt Swapped = 1"
| "debt _ = 0"

fun thread_ok :: "wg_thread \<Rightarrow> bool" where
  "thread_ok (Adding k) = (0 < k)"
| "thread_ok (Loaded n) = (0 < n)"
| "thread_ok _ = True"

definition debts :: "wg_thread list \<Rightarrow> int" where "debts ts = sum_list (map debt ts)"

lemma debts_update: "i < length ts \<Longrightarrow> debts (ts[i := t]) = debts ts + debt t - debt (ts ! i)"
  unfolding debts_def
proof (induction ts arbitrary: i)
  case Nil
  then show ?case by simp
next
  case (Cons a ts)
  then show ?case by (cases i) auto
qed

definition wg_ok :: "wait_group \<times> wg_thread list \<Rightarrow> bool" where
  "wg_ok s \<longleftrightarrow> 0 \<le> wg_n (fst s) \<and> list_all thread_ok (snd s)
     \<and> wg_inner (fst s) = wg_n (fst s) + debts (snd s)"

lemma list_all_update: "list_all P ts \<Longrightarrow> P t \<Longrightarrow> list_all P (ts[i := t])"
  by (auto simp: list_all_iff dest: set_update_subset_insert [THEN subsetD])

lemma wg_step_ok:
  assumes "wg_ok s" and "wg_step s s'"
  shows "wg_ok s'"
  using assms(2,1)
proof (cases rule: wg_step.cases)
  case (swap i ts n w w')
  then have "0 < n" using assms(1) by (auto simp: wg_ok_def list_all_length)
  with swap assms(1) show ?thesis
    by (auto simp: wg_ok_def wg_swap_def debts_update intro!: list_all_update split: if_splits)
qed (auto simp: wg_ok_def debts_update intro!: list_all_update)

lemma wg_reachable_ok: "wg_reachable m s \<Longrightarrow> wg_ok s"
proof (induction rule: wg_reachable.induct)
  case start
  then show ?case by (induction m) (auto simp: wg_ok_def new_wait_group_def debts_def)
next
  case (step s s')
  then show ?case using wg_step_ok by blast
qed

lemma debts_nonneg:
  "\<forall>t \<in> set ts. \<forall>k. t \<noteq> Adding k \<Longrightarrow> 0 \<le> debts ts \<and> (Swapped \<in> set ts \<longrightarrow> 1 \<le> debts ts)"
  unfolding debts_def
proof (induction ts)
  case Nil
  then show ?case by simp
next
  case (Cons t ts)
  then show ?case by (cases t) auto
qed

text \<open>
  The two counters of the wait group agree up to what is in flight. In every reachable state
  of any number of threads the outer counter is not negative, and the inner one is the
  outer one less the additions announced and not yet made, plus the decrements won and not
  yet made. So when no thread is in the middle of an addition the inner counter is at least the
  outer one, and no step can make the group panic.
\<close>

theorem wait_group_counters:
  assumes "wg_reachable m (w, ts)"
  shows "0 \<le> wg_n w \<and> wg_inner w = wg_n w + debts ts
    \<and> ((\<forall>t \<in> set ts. \<forall>k. t \<noteq> Adding k) \<longrightarrow>
        wg_n w \<le> wg_inner w \<and>
        (\<forall>w' ts'. wg_step (w, ts) (w', ts') \<and> \<not> wg_panicked w \<longrightarrow> \<not> wg_panicked w'))"
proof -
  have ok: "0 \<le> wg_n w" "list_all thread_ok ts" "wg_inner w = wg_n w + debts ts"
    using wg_reachable_ok [OF assms] by (simp_all add: wg_ok_def)
  have "\<not> wg_panicked w'"
    if quiet: "\<forall>t \<in> set ts. \<forall>k. t \<noteq> Adding k" and st: "wg_step (w, ts) (w', ts')" "\<not> wg_panicked w" for w' ts'
    using st(1)
  proof (cases rule: wg_step.cases)
    case (add_inner i k)
    with quiet show ?thesis by (metis nth_mem)
  next
    case (inner_done i)
    then have "Swapped \<in> set ts" by (metis nth_mem)
    with debts_nonneg [OF quiet] ok inner_done st(2) show ?thesis by simp
  qed (use st(2) in \<open>auto simp: wg_swap_def split: if_splits\<close>)
  with ok debts_nonneg [of ts] show ?thesis by auto
qed

theorem wait_group_counters_witness:
  "let w = \<lparr>wg_n = 1, wg_inner = 1, wg_panicked = False\<rparr>
   in wg_reachable 1 (w, [Idle]) \<and> wg_n w \<le> wg_inner w
     \<and> (\<forall>w' ts'. wg_step (w, [Idle]) (w', ts') \<longrightarrow> \<not> wg_panicked w')"
proof -
  let ?w = "\<lparr>wg_n = 1, wg_inner = 1, wg_panicked = False\<rparr>"
  have "wg_reachable 1 (wg_add_n 1 new_wait_group, [Adding 1])"
    using wg_reachable.step [OF wg_reachable.start [of 1] wg_step.add_n [of 0 _ 1]] by simp
  from wg_reachable.step [OF this wg_step.add_inner [of 0 _ 1]]
  have r: "wg_reachable 1 (?w, [Idle])"
    by (simp add: wg_add_n_def wg_add_inner_def new_wait_group_def)
  with wait_group_counters [OF r] show ?thesis by (simp add: Let_def)
qed

end
