(* ===== verification/Tunnel.thy ===== *)
theory Tunnel
  imports Wait_Group Remotes
begin

text \<open>
  \<^verbatim>\<open>share/tunnel/tunnel.go\<close> and \<^verbatim>\<open>share/tunnel/tunnel_out_ssh.go\<close>: binding an SSH connection to
  a tunnel and taking it out again, while a second goroutine waits for the context to be
  cancelled; the keep-alive loop; and the decision about a channel the peer opens, which, against
  the test \<^verbatim>\<open>test/e2e/acl_channel_test.go\<close>, consults no access list. The bind
  is a machine of two goroutines with atomic steps, run by a schedule; the network closes the
  connection at any time. After a panic nothing moves.
\<close>

subsection \<open>Binding an SSH connection\<close>

datatype bind_pc =
    Bind_lock | Bind_load | Bind_swap int | Bind_inner | Bind_wait
  | Bind_add_n | Bind_add_inner | Bind_clear | Bind_end

datatype cancel_pc = Cancel_wait | Cancel_check | Cancel_load | Cancel_swap int | Cancel_inner | Cancel_end

record tunnel =
  tn_active :: bool
  tn_wg :: wait_group
  tn_closed :: bool
  tn_double :: bool
  tn_bind :: bind_pc
  tn_cancel :: cancel_pc

text \<open>\<^verbatim>\<open>New\<close> adds one to the wait group: no connection is active.\<close>

definition new_tunnel :: tunnel where
  "new_tunnel =
     \<lparr>tn_active = False, tn_wg = wg_add_inner 1 (wg_add_n 1 new_wait_group), tn_closed = False,
      tn_double = False, tn_bind = Bind_lock, tn_cancel = Cancel_wait\<rparr>"

fun bind_step :: "tunnel \<Rightarrow> tunnel" where
  "bind_step t =
     (case tn_bind t of
        Bind_lock \<Rightarrow>
          if tn_active t then t\<lparr>tn_double := True\<rparr>
          else t\<lparr>tn_active := True, tn_bind := Bind_load\<rparr>
      | Bind_load \<Rightarrow>
          if wg_n (tn_wg t) > 0 then t\<lparr>tn_bind := Bind_swap (wg_n (tn_wg t))\<rparr>
          else t\<lparr>tn_bind := Bind_wait\<rparr>
      | Bind_swap n \<Rightarrow>
          (case wg_swap n (tn_wg t) of
             None \<Rightarrow> t\<lparr>tn_bind := Bind_wait\<rparr>
           | Some w \<Rightarrow> t\<lparr>tn_wg := w, tn_bind := Bind_inner\<rparr>)
      | Bind_inner \<Rightarrow> t\<lparr>tn_wg := wg_add_inner (- 1) (tn_wg t), tn_bind := Bind_wait\<rparr>
      | Bind_wait \<Rightarrow> if tn_closed t then t\<lparr>tn_bind := Bind_add_n\<rparr> else t
      | Bind_add_n \<Rightarrow> t\<lparr>tn_wg := wg_add_n 1 (tn_wg t), tn_bind := Bind_add_inner\<rparr>
      | Bind_add_inner \<Rightarrow> t\<lparr>tn_wg := wg_add_inner 1 (tn_wg t), tn_bind := Bind_clear\<rparr>
      | Bind_clear \<Rightarrow> t\<lparr>tn_active := False, tn_bind := Bind_end\<rparr>
      | Bind_end \<Rightarrow> t)"

fun cancel_step :: "tunnel \<Rightarrow> tunnel" where
  "cancel_step t =
     (case tn_cancel t of
        Cancel_wait \<Rightarrow> t\<lparr>tn_closed := True, tn_cancel := Cancel_check\<rparr>
      | Cancel_check \<Rightarrow>
          if wg_n (tn_wg t) > 0 then t\<lparr>tn_cancel := Cancel_load\<rparr> else t\<lparr>tn_cancel := Cancel_end\<rparr>
      | Cancel_load \<Rightarrow>
          if wg_n (tn_wg t) > 0 then t\<lparr>tn_cancel := Cancel_swap (wg_n (tn_wg t))\<rparr>
          else t\<lparr>tn_cancel := Cancel_check\<rparr>
      | Cancel_swap n \<Rightarrow>
          (case wg_swap n (tn_wg t) of
             None \<Rightarrow> t\<lparr>tn_cancel := Cancel_check\<rparr>
           | Some w \<Rightarrow> t\<lparr>tn_wg := w, tn_cancel := Cancel_inner\<rparr>)
      | Cancel_inner \<Rightarrow> t\<lparr>tn_wg := wg_add_inner (- 1) (tn_wg t), tn_cancel := Cancel_check\<rparr>
      | Cancel_end \<Rightarrow> t)"

datatype actor = Binder | Canceller | Network

fun act :: "actor \<Rightarrow> tunnel \<Rightarrow> tunnel" where
  "act a t =
     (if wg_panicked (tn_wg t) \<or> tn_double t then t
      else case a of
          Binder \<Rightarrow> bind_step t
        | Canceller \<Rightarrow> cancel_step t
        | Network \<Rightarrow> t\<lparr>tn_closed := True\<rparr>)"

definition run_bind :: "actor list \<Rightarrow> tunnel \<Rightarrow> tunnel" where
  "run_bind as t = fold act as t"

text \<open>
  \<^verbatim>\<open>getSSH\<close>: the connection that a proxy gets. If none is active it waits for the first of the
  context, a time limit and the wait group, and then reads the connection again.
\<close>

datatype 'c ssh_wait = Context_done | Wait_timeout | Wait_over "'c option"

definition get_ssh :: "bool \<Rightarrow> 'c option \<Rightarrow> 'c ssh_wait \<Rightarrow> 'c option" where
  "get_ssh cancelled active waited =
     (if cancelled then None
      else if active \<noteq> None then active
      else case waited of Context_done \<Rightarrow> None | Wait_timeout \<Rightarrow> None | Wait_over c \<Rightarrow> c)"

subsection \<open>Keep-alive and requests\<close>

text \<open>The answer of \<^verbatim>\<open>handleSSHRequests\<close> to a request; None is no answer.\<close>

definition handle_ssh_request :: "string \<Rightarrow> string option" where
  "handle_ssh_request ty = (if ty = ''ping'' then Some ''pong'' else None)"

text \<open>\<^verbatim>\<open>keepAliveLoop\<close> over the replies to its pings: whether it closes the connection.\<close>

fun keep_alive_closes :: "(string + string) list \<Rightarrow> bool" where
  "keep_alive_closes [] = False"
| "keep_alive_closes (Inl err # rs) = True"
| "keep_alive_closes (Inr b # rs) = (if length b > 0 \<and> b \<noteq> ''pong'' then True else keep_alive_closes rs)"

subsection \<open>Channels the peer opens\<close>

datatype channel_action =
    Reject_channel string
  | Serve_socks
  | Dial_udp string
  | Dial_tcp string

definition handle_ssh_channel :: "golib \<Rightarrow> bool \<Rightarrow> bool \<Rightarrow> string \<Rightarrow> channel_action" where
  "handle_ssh_channel lib outbound socks_server extra =
     (if \<not> outbound then Reject_channel ''Denied outbound connection''
      else
        (let (host_port, proto) = l4_proto lib extra;
             udp = (proto = ''udp'');
             socks = (host_port = ''socks'')
         in if socks \<and> \<not> socks_server then Reject_channel ''SOCKS5 is not enabled''
            else if socks then Serve_socks
            else if udp then Dial_udp host_port
            else Dial_tcp host_port))"

text \<open>
  The name of the channel that an inbound proxy opens for its remote: \<^verbatim>\<open>openRemoteStream\<close> for a
  stream and \<^verbatim>\<open>getUDPChan\<close> for packets.
\<close>

definition channel_name :: "remote \<Rightarrow> string" where
  "channel_name r = (if local_proto r = ''udp'' \<and> \<not> is_uds r \<and> \<not> stdio r then remote_addr r @ ''/udp'' else remote_addr r)"

subsection \<open>Every schedule of bind and cancel\<close>

definition tunnel_ok :: "tunnel \<Rightarrow> bool" where
  "tunnel_ok t \<longleftrightarrow>
     \<not> tn_double t \<and> 0 \<le> wg_n (tn_wg t) \<and>
     (tn_active t \<longleftrightarrow> tn_bind t \<noteq> Bind_lock \<and> tn_bind t \<noteq> Bind_end) \<and>
     (\<forall>k. tn_bind t = Bind_swap k \<longrightarrow> 0 < k) \<and> (\<forall>k. tn_cancel t = Cancel_swap k \<longrightarrow> 0 < k) \<and>
     wg_inner (tn_wg t) = wg_n (tn_wg t) + (if tn_bind t = Bind_inner then 1 else 0)
       + (if tn_cancel t = Cancel_inner then 1 else 0) - (if tn_bind t = Bind_add_inner then 1 else 0) \<and>
     (wg_panicked (tn_wg t) \<longrightarrow> tn_bind t = Bind_add_inner \<and> tn_cancel t \<noteq> Cancel_wait) \<and>
     (tn_cancel t = Cancel_wait \<longrightarrow>
        wg_n (tn_wg t) = (if tn_bind t \<in> {Bind_inner, Bind_wait, Bind_add_n} then 0 else 1)
        \<and> (\<forall>k. tn_bind t = Bind_swap k \<longrightarrow> k = 1))"

lemma new_tunnel_ok: "tunnel_ok new_tunnel"
  by (simp add: tunnel_ok_def new_tunnel_def new_wait_group_def)

lemma bind_step_ok: "tunnel_ok t \<Longrightarrow> \<not> wg_panicked (tn_wg t) \<Longrightarrow> tunnel_ok (bind_step t)"
  by (cases "tn_bind t") (auto simp: tunnel_ok_def wg_swap_def split: if_splits)

lemma cancel_step_ok: "tunnel_ok t \<Longrightarrow> \<not> wg_panicked (tn_wg t) \<Longrightarrow> tunnel_ok (cancel_step t)"
  by (cases "tn_cancel t") (auto simp: tunnel_ok_def wg_swap_def split: if_splits)

lemma act_ok: "tunnel_ok t \<Longrightarrow> tunnel_ok (act a t)"
  by (cases a) (auto intro: bind_step_ok cancel_step_ok simp del: bind_step.simps cancel_step.simps,
      auto simp: tunnel_ok_def)

lemma run_bind_ok: "tunnel_ok t \<Longrightarrow> tunnel_ok (run_bind as t)"
  unfolding run_bind_def by (induction as arbitrary: t) (auto intro: act_ok simp del: act.simps)

lemma act_no_cancel: "a \<noteq> Canceller \<Longrightarrow> tn_cancel (act a t) = tn_cancel t"
  by (cases a) (auto split: bind_pc.splits option.splits)

lemma run_bind_no_cancel: "Canceller \<notin> set as \<Longrightarrow> tn_cancel (run_bind as t) = tn_cancel t"
  unfolding run_bind_def by (induction as arbitrary: t) (auto simp: act_no_cancel simp del: act.simps)

text \<open>The schedule of the panic: cancelled, closed, and the two goroutines meet at the count.\<close>

definition panic_schedule :: "actor list" where
  "panic_schedule =
     replicate 4 Binder @ [Canceller] @ replicate 2 Binder @ replicate 4 Canceller"

lemma panic_schedule_panics:
  "wg_panicked (tn_wg (run_bind panic_schedule new_tunnel))"
  "wg_inner (tn_wg (run_bind panic_schedule new_tunnel)) = - 1"
  by code_simp+

text \<open>
  C20. The race between closing a connection and cancelling it. Under every schedule of the binding
  goroutine, the cancelling one and the network, the bind never finds another connection
  active; and the wait group panics only while the binding goroutine is between the two halves
  of its closing \<^verbatim>\<open>Add\<close> and the cancelling one takes the count it has announced. This does happen:
  there is a schedule that ends in the panic. If the context is
  not cancelled there is no panic, and a finished bind leaves the tunnel ready for the next:
  no connection active and the wait group as a new tunnel has it.
\<close>

theorem bind_cancel_race:
  "(let t = run_bind as new_tunnel
    in \<not> tn_double t
      \<and> (wg_panicked (tn_wg t) \<longrightarrow> tn_bind t = Bind_add_inner \<and> Canceller \<in> set as)
      \<and> (Canceller \<notin> set as \<and> tn_bind t = Bind_end \<longrightarrow>
           \<not> tn_active t \<and> wg_n (tn_wg t) = 1 \<and> wg_inner (tn_wg t) = 1))
   \<and> (\<exists>schedule. wg_panicked (tn_wg (run_bind schedule new_tunnel)))"
proof -
  have ok: "tunnel_ok (run_bind as new_tunnel)" by (rule run_bind_ok [OF new_tunnel_ok])
  have "tn_cancel (run_bind as new_tunnel) = Cancel_wait" if "Canceller \<notin> set as"
    using run_bind_no_cancel [OF that] by (simp add: new_tunnel_def)
  with ok panic_schedule_panics(1) show ?thesis unfolding tunnel_ok_def Let_def by auto
qed

theorem bind_cancel_race_witness:
  "let t = run_bind panic_schedule new_tunnel
   in wg_panicked (tn_wg t) \<and> wg_inner (tn_wg t) = - 1 \<and> \<not> tn_double t \<and> tn_bind t = Bind_add_inner"
  using bind_cancel_race [of panic_schedule] panic_schedule_panics by (simp add: Let_def)

subsection \<open>Keep-alive between two tunnels\<close>

lemma keep_alive_pongs: "\<forall>r \<in> set rs. r = Inr ''pong'' \<or> r = Inr [] \<Longrightarrow> \<not> keep_alive_closes rs"
  by (induction rs rule: keep_alive_closes.induct) auto

subsection \<open>Channels reach the target of the remote\<close>

lemma l4_proto_last: "d \<in> set l4_protos \<Longrightarrow> last d = CHR ''p''"
  by (auto simp: l4_protos_def)

lemma l4_match_last:
  assumes "l4_match s"
  shows "lower_byte (last s) = CHR ''p''"
proof -
  let ?d = "drop (length s - 3) s"
  have "4 \<le> length s" and "map lower_byte ?d \<in> set l4_protos" using assms by (simp_all add: l4_match_def)
  then have "last (map lower_byte ?d) = CHR ''p''" by (intro l4_proto_last)
  moreover have "?d \<noteq> []" using \<open>4 \<le> length s\<close> by simp
  ultimately show ?thesis by (simp add: last_map last_drop)
qed

lemma l4_match_target: "p = [] \<or> is_port p \<Longrightarrow> \<not> l4_match (h @ '':'' @ p)"
proof
  assume p: "p = [] \<or> is_port p" and "l4_match (h @ '':'' @ p)"
  then have l: "lower_byte (last (h @ '':'' @ p)) = CHR ''p''" by (intro l4_match_last)
  show False
  proof (cases "p = []")
    case True
    with l show False by (simp add: lower_byte_def less_eq_char_def)
  next
    case False
    with p have "is_port p" "last p \<in> set p" by simp_all
    with port_char [of p "last p"] l False show False
      by (auto simp: lower_byte_def less_eq_char_def split: if_splits)
  qed
qed

lemma l4_proto_udp: "l4_proto lib (x @ ''/udp'') = (to_lower lib x, ''udp'')"
proof -
  have "map lower_byte ''udp'' \<in> set l4_protos" by code_simp
  then have "l4_match (x @ ''/udp'')" by (simp add: l4_match_def)
  then show ?thesis by (simp add: l4_proto_def)
qed

lemma lower_colon: "CHR '':'' \<in> set s \<Longrightarrow> CHR '':'' \<in> set (map lower_byte s)"
  by (force simp: lower_byte_def less_eq_char_def image_iff)

text \<open>What becomes of any channel at a peer that allows outbound connections.\<close>

lemma channel_decision:
  "\<forall>name. (case handle_ssh_channel lib True socks_server name of
       Reject_channel why \<Rightarrow> \<not> socks_server \<and> fst (l4_proto lib name) = ''socks''
     | Serve_socks \<Rightarrow> socks_server \<and> fst (l4_proto lib name) = ''socks''
     | Dial_udp target \<Rightarrow> l4_proto lib name = (target, ''udp'')
     | Dial_tcp target \<Rightarrow> target = fst (l4_proto lib name))"
  by (auto simp: handle_ssh_channel_def Let_def split: prod.split)

lemma channel_for_remote:
  assumes "decode_remote lib s = Inr r"
    and colon: "\<And>x. CHR '':'' \<in> set x \<Longrightarrow> CHR '':'' \<in> set (uni_lower lib x)"
  shows "handle_ssh_channel lib True socks_server (channel_name r) =
    (if socks r then (if socks_server then Serve_socks else Reject_channel ''SOCKS5 is not enabled'')
     else if local_proto r = ''udp'' \<and> \<not> is_uds r \<and> \<not> stdio r then Dial_udp (to_lower lib (remote_addr r))
     else Dial_tcp (remote_addr r))"
proof (cases "socks r")
  case True
  then have plain: "plain_remote_ok r"
    using decode_plain_remote_ok [OF assms(1)] decode_uds_remote_ok [OF assms(1)]
    by (auto simp: uds_remote_ok_def)
  have "\<not> l4_match ''socks''" by code_simp
  with True plain show ?thesis
    by (simp add: plain_remote_ok_def channel_name_def remote_addr_def handle_ssh_channel_def l4_proto_def)
next
  case False
  have port: "remote_port r = [] \<or> is_port (remote_port r)"
    using decode_plain_remote_ok [OF assms(1)] decode_uds_remote_ok [OF assms(1)] False
    by (cases "is_uds r") (auto simp: uds_remote_ok_def plain_remote_ok_def)
  obtain h where addr: "remote_addr r = h @ '':'' @ remote_port r" using False by (simp add: remote_addr_def)
  have "\<not> l4_match (remote_addr r)" unfolding addr using port by (rule l4_match_target)
  moreover have "remote_addr r \<noteq> ''socks''"
  proof
    assume "remote_addr r = ''socks''"
    then have "CHR '':'' \<in> set ''socks''" using addr by (metis Un_iff list.set_intros(1) set_append)
    then show False by simp
  qed
  moreover have "to_lower lib (remote_addr r) \<noteq> ''socks''"
  proof
    assume e: "to_lower lib (remote_addr r) = ''socks''"
    have "CHR '':'' \<in> set (remote_addr r)" unfolding addr by simp
    then have "CHR '':'' \<in> set (to_lower lib (remote_addr r))"
      using colon lower_colon by (simp only: to_lower_def split: if_split) blast
    then show False unfolding e by simp
  qed
  ultimately show ?thesis
    using False by (simp add: handle_ssh_channel_def channel_name_def l4_proto_udp) (simp add: l4_proto_def)
qed

text \<open>
  C21. A channel goes where its remote points, and nothing but its name decides. For every remote that
  \<^verbatim>\<open>DecodeRemote\<close> returns, the channel that its proxy opens makes the peer, if it allows outbound
  connections, dial exactly the remote's target over TCP, or its lower-cased target over UDP for a
  UDP remote, or serve SOCKS if the remote asks for it and the peer has it enabled; in no other case
  is SOCKS served. But the peer dials for every other channel just the same, whatever remotes were
  granted: a name is refused only for SOCKS that is off. The access list of the user is not consulted
  here, so a client whose configuration was accepted reaches targets that its list excludes. The
  repository's own test \<^verbatim>\<open>TestAuthChannelDenied\<close> (\<^verbatim>\<open>test/e2e/acl_channel_test.go\<close>) requires
  the rejection of such a channel, which this code does not give. (Lower-casing, where it is a
  parameter, keeps colons.)
\<close>

theorem channel_reaches_target:
  assumes "decode_remote lib s = Inr r"
    and colon: "\<And>x. CHR '':'' \<in> set x \<Longrightarrow> CHR '':'' \<in> set (uni_lower lib x)"
  shows "handle_ssh_channel lib True socks_server (channel_name r) =
    (if socks r then (if socks_server then Serve_socks else Reject_channel ''SOCKS5 is not enabled'')
     else if local_proto r = ''udp'' \<and> \<not> is_uds r \<and> \<not> stdio r then Dial_udp (to_lower lib (remote_addr r))
     else Dial_tcp (remote_addr r))
   \<and> (\<forall>name. (case handle_ssh_channel lib True socks_server name of
         Reject_channel why \<Rightarrow> \<not> socks_server \<and> fst (l4_proto lib name) = ''socks''
       | Serve_socks \<Rightarrow> socks_server \<and> fst (l4_proto lib name) = ''socks''
       | Dial_udp target \<Rightarrow> l4_proto lib name = (target, ''udp'')
       | Dial_tcp target \<Rightarrow> target = fst (l4_proto lib name)))"
proof (intro conjI)
  show "handle_ssh_channel lib True socks_server (channel_name r) =
    (if socks r then (if socks_server then Serve_socks else Reject_channel ''SOCKS5 is not enabled'')
     else if local_proto r = ''udp'' \<and> \<not> is_uds r \<and> \<not> stdio r then Dial_udp (to_lower lib (remote_addr r))
     else Dial_tcp (remote_addr r))"
    using assms by (rule channel_for_remote)
qed (rule channel_decision)

theorem channel_reaches_target_witness:
  "let lib = \<lparr>uni_lower = id, url_parse_ok = \<lambda>_. True\<rparr>
   in case decode_remote lib ''5353:1.1.1.1:53/udp'' of
        Inl _ \<Rightarrow> False
      | Inr r \<Rightarrow> handle_ssh_channel lib True False (channel_name r) = Dial_udp ''1.1.1.1:53''"
proof -
  let ?lib = "\<lparr>uni_lower = id, url_parse_ok = \<lambda>_. True\<rparr>"
  let ?r = "zero_remote\<lparr>local_host := ''0.0.0.0'', local_port := ''5353'', local_proto := ''udp'',
     remote_host := ''1.1.1.1'', remote_port := ''53'', remote_proto := ''udp''\<rparr>"
  have d: "decode_remote ?lib ''5353:1.1.1.1:53/udp'' = Inr ?r" by code_simp
  have "\<not> socks ?r" "local_proto ?r = ''udp''" "\<not> is_uds ?r" "\<not> stdio ?r"
    "to_lower ?lib (remote_addr ?r) = ''1.1.1.1:53''" by code_simp+
  with channel_reaches_target [OF d, of False] show ?thesis unfolding Let_def d by simp
qed

text \<open>
  The channel is not checked against what was granted. Whatever remotes the configuration named
  and whoever the user is, a peer that allows outbound connections dials any address a channel
  names, if it does not read as a protocol suffix or as socks; the decision depends on the
  channel's name and the tunnel's two settings alone.
\<close>

theorem channel_target_unchecked:
  assumes "\<not> l4_match target" and "target \<noteq> ''socks''"
  shows "handle_ssh_channel lib True socks_server target = Dial_tcp target"
  using assms by (simp add: handle_ssh_channel_def l4_proto_def)

theorem channel_target_unchecked_witness:
  "handle_ssh_channel \<lparr>uni_lower = id, url_parse_ok = \<lambda>_. True\<rparr> True False ''10.0.0.1:22'' = Dial_tcp ''10.0.0.1:22''"
proof -
  have "\<not> l4_match ''10.0.0.1:22''" "''10.0.0.1:22'' \<noteq> ''socks''" by code_simp+
  then show ?thesis by (rule channel_target_unchecked)
qed

subsection \<open>A closed connection is unbound\<close>

text \<open>The steps that the binding goroutine still has to make.\<close>

fun bind_rank :: "bind_pc \<Rightarrow> nat" where
  "bind_rank Bind_lock = 8"
| "bind_rank Bind_load = 7"
| "bind_rank (Bind_swap k) = 6"
| "bind_rank Bind_inner = 5"
| "bind_rank Bind_wait = 4"
| "bind_rank Bind_add_n = 3"
| "bind_rank Bind_add_inner = 2"
| "bind_rank Bind_clear = 1"
| "bind_rank Bind_end = 0"

definition bind_left :: "tunnel \<Rightarrow> nat" where "bind_left t = bind_rank (tn_bind t)"

lemma act_closed: "tn_closed t \<Longrightarrow> tn_closed (act a t)"
  by (cases a) (auto split: bind_pc.splits cancel_pc.splits option.splits)

lemma act_left:
  assumes "tn_closed t" and "\<not> wg_panicked (tn_wg (act a t))" and "\<not> tn_double (act a t)"
  shows "bind_left (act a t) \<le> bind_left t - (if a = Binder then 1 else 0)"
  using assms
  by (cases a) (auto simp: bind_left_def split: bind_pc.splits cancel_pc.splits option.splits if_splits)

lemma act_stops: "wg_panicked (tn_wg t) \<Longrightarrow> act a t = t"
  by simp

lemma run_bind_append [simp]: "run_bind (as @ bs) t = run_bind bs (run_bind as t)"
  by (simp add: run_bind_def)

lemma run_bind_stops: "wg_panicked (tn_wg t) \<Longrightarrow> run_bind as t = t"
  unfolding run_bind_def by (induction as) simp_all

lemma run_bind_closed: "tn_closed t \<Longrightarrow> tn_closed (run_bind as t)"
  unfolding run_bind_def by (induction as arbitrary: t) (simp_all add: act_closed del: act.simps)

lemma run_bind_left:
  assumes "tn_closed t" and "tunnel_ok t" and "\<not> wg_panicked (tn_wg (run_bind as t))"
  shows "bind_left (run_bind as t) \<le> bind_left t - count_list as Binder"
  using assms
proof (induction as rule: rev_induct)
  case Nil
  then show ?case by (simp add: run_bind_def)
next
  case (snoc a as)
  let ?u = "run_bind as t"
  have u: "\<not> wg_panicked (tn_wg ?u)"
    using snoc.prems(3) act_stops [of ?u a] by (auto simp: run_bind_def simp del: act.simps)
  have last: "run_bind (as @ [a]) t = act a ?u" by (simp add: run_bind_def del: act.simps)
  have ok: "tunnel_ok (act a ?u)" using snoc.prems(2) by (intro act_ok run_bind_ok)
  then have "\<not> tn_double (act a ?u)" by (simp add: tunnel_ok_def del: act.simps)
  with act_left [of ?u a] run_bind_closed [OF snoc.prems(1)] snoc.prems(3) last
  have "bind_left (act a ?u) \<le> bind_left ?u - (if a = Binder then 1 else 0)" by (simp del: act.simps)
  moreover have "bind_left ?u \<le> bind_left t - count_list as Binder"
    using snoc.IH snoc.prems(1,2) u by simp
  ultimately show ?case unfolding last by (simp add: count_list_append del: act.simps split: if_splits)
qed

lemma tunnel_okD_end: "tunnel_ok t \<Longrightarrow> bind_left t = 0 \<Longrightarrow> tn_bind t = Bind_end \<and> \<not> tn_active t"
  by (cases "tn_bind t") (simp_all add: tunnel_ok_def bind_left_def)

lemma closing_closes: "Network \<in> set as \<Longrightarrow> \<not> wg_panicked (tn_wg (run_bind as t)) \<Longrightarrow> tunnel_ok t \<Longrightarrow>
    tn_closed (run_bind as t)"
proof -
  assume "Network \<in> set as" and np: "\<not> wg_panicked (tn_wg (run_bind as t))" and ok: "tunnel_ok t"
  then obtain bs cs where as: "as = bs @ Network # cs" by (meson split_list)
  let ?u = "run_bind bs t"
  have "\<not> wg_panicked (tn_wg ?u)" using np run_bind_stops [of ?u "Network # cs"] by (auto simp: as)
  moreover have "\<not> tn_double ?u" using run_bind_ok [OF ok, of bs] by (simp add: tunnel_ok_def)
  ultimately have "tn_closed (act Network ?u)" by simp
  from run_bind_closed [OF this, of cs] show ?thesis by (simp add: as run_bind_def del: act.simps)
qed

text \<open>
  C23. A lost connection is unbound. Whatever else happens, once the network has closed the connection
  \<^verbatim>\<open>BindSSH\<close> returns after at most eight more steps of its own and leaves no connection active,
  unless the wait group panics: it waits for nothing else.
\<close>

theorem bind_completes:
  assumes "Network \<in> set as" and "8 \<le> count_list bs Binder"
    and "\<not> wg_panicked (tn_wg (run_bind (as @ bs) new_tunnel))"
  shows "tn_bind (run_bind (as @ bs) new_tunnel) = Bind_end \<and> \<not> tn_active (run_bind (as @ bs) new_tunnel)"
proof -
  let ?u = "run_bind as new_tunnel"
  have ok: "tunnel_ok ?u" by (rule run_bind_ok [OF new_tunnel_ok])
  have "\<not> wg_panicked (tn_wg ?u)" using assms(3) run_bind_stops [of ?u bs] by auto
  with assms(1) have "tn_closed ?u" by (intro closing_closes new_tunnel_ok)
  with ok assms(3) have "bind_left (run_bind bs ?u) \<le> bind_left ?u - count_list bs Binder"
    by (intro run_bind_left) simp_all
  moreover have "bind_left ?u \<le> 8" by (cases "tn_bind ?u") (simp_all add: bind_left_def)
  ultimately have "bind_left (run_bind bs ?u) = 0" using assms(2) by simp
  with run_bind_ok [OF ok, of bs] show ?thesis using tunnel_okD_end by simp
qed

theorem bind_completes_witness:
  "tn_bind (run_bind ([Binder, Binder, Network] @ replicate 8 Binder) new_tunnel) = Bind_end"
proof -
  have "Network \<in> set [Binder, Binder, Network]" by simp
  moreover have "8 \<le> count_list (replicate 8 Binder) Binder" by code_simp
  moreover have "\<not> wg_panicked (tn_wg (run_bind ([Binder, Binder, Network] @ replicate 8 Binder) new_tunnel))"
    by code_simp
  ultimately show ?thesis by (rule bind_completes [THEN conjunct1])
qed

end
