(* ===== verification/Cnet.thy ===== *)
theory Cnet
  imports Go_Strings "HOL-Library.Word"
begin

text \<open>
  \<^verbatim>\<open>share/cnet/conn_ws.go\<close> and \<^verbatim>\<open>share/cnet/connstats.go\<close>: the stream of bytes over the
  messages of a websocket, and the connection counters. The websocket library delivers whole
  messages and then an error; the reader cuts them into the reads that are asked for.
\<close>

subsection \<open>The websocket connection\<close>

record 'e ws_conn =
  wc_buff :: string
  wc_msgs :: "string list"
  wc_end :: 'e

definition new_ws_conn :: "string list \<Rightarrow> 'e \<Rightarrow> 'e ws_conn" where
  "new_ws_conn msgs e = \<lparr>wc_buff = [], wc_msgs = msgs, wc_end = e\<rparr>"

text \<open>The second half of \<^verbatim>\<open>Read\<close>: copying \<open>src\<close> into a destination of \<open>ldst\<close> bytes.\<close>

definition ws_copy :: "nat \<Rightarrow> string \<Rightarrow> 'e ws_conn \<Rightarrow> ('e + string) \<times> 'e ws_conn" where
  "ws_copy ldst src c =
     (if length src > ldst
      then (Inr (take ldst src), c\<lparr>wc_buff := drop ldst src\<rparr>)
      else (Inr src, c))"

definition ws_read :: "nat \<Rightarrow> 'e ws_conn \<Rightarrow> ('e + string) \<times> 'e ws_conn" where
  "ws_read ldst c =
     (if length (wc_buff c) > 0 then ws_copy ldst (wc_buff c) (c\<lparr>wc_buff := []\<rparr>)
      else case wc_msgs c of
             msg # msgs \<Rightarrow> ws_copy ldst msg (c\<lparr>wc_msgs := msgs\<rparr>)
           | [] \<Rightarrow> (Inl (wc_end c), c))"

text \<open>\<^verbatim>\<open>Write\<close>: one message for each call, if the library can send it.\<close>

definition ws_write :: "'e option \<Rightarrow> string \<Rightarrow> string list \<Rightarrow> ('e + nat) \<times> string list" where
  "ws_write err b sent = (case err of Some e \<Rightarrow> (Inl e, sent) | None \<Rightarrow> (Inr (length b), sent @ [b]))"

text \<open>\<^verbatim>\<open>SetDeadline\<close>: the library's two deadlines, given the error of each; which of them were set.\<close>

datatype deadline = Read_deadline time | Write_deadline time

definition ws_set_deadline :: "time \<Rightarrow> string option \<Rightarrow> string option \<Rightarrow> string option \<times> deadline list" where
  "ws_set_deadline t read_err write_err =
     (case read_err of
        Some e \<Rightarrow> (Some e, [Read_deadline t])
      | None \<Rightarrow> (write_err, [Read_deadline t, Write_deadline t]))"

subsection \<open>Streams as connections\<close>

text \<open>
  \<^verbatim>\<open>share/cnet/conn_rwc.go\<close>: what makes a connection of the stream that the SOCKS server gets. Reads,
  writes and closes are those of the stream; the addresses are empty and deadlines are ignored.
\<close>

record net_addr =
  na_network :: string
  na_string :: string

record 's rwc_conn =
  rwc_stream :: 's
  rwc_buff :: string

definition new_rwc_conn :: "'s \<Rightarrow> 's rwc_conn" where
  "new_rwc_conn stream = \<lparr>rwc_stream = stream, rwc_buff = []\<rparr>"

definition rwc_addr :: net_addr where
  "rwc_addr = \<lparr>na_network = ''tcp'', na_string = []\<rparr>"

definition rwc_local_addr :: "'s rwc_conn \<Rightarrow> net_addr" where "rwc_local_addr c = rwc_addr"

definition rwc_remote_addr :: "'s rwc_conn \<Rightarrow> net_addr" where "rwc_remote_addr c = rwc_addr"

definition rwc_set_deadline :: "deadline list \<Rightarrow> 's rwc_conn \<Rightarrow> string option \<times> 's rwc_conn" where
  "rwc_set_deadline ds c = (None, c)"

subsection \<open>Sources of bytes\<close>

text \<open>
  What a reader of a stream relies on: a read returns the next bytes, at most as many as asked for
  and none lost; an error comes only when nothing is left; and a read that is asked for at least one
  byte makes progress.
\<close>

fun read_many :: "(nat \<Rightarrow> 's \<Rightarrow> ('e + string) \<times> 's) \<Rightarrow> nat list \<Rightarrow> 's \<Rightarrow> string \<times> 's" where
  "read_many rd [] s = ([], s)"
| "read_many rd (n # ns) s =
     (case rd n s of
        (Inl e, s) \<Rightarrow> ([], s)
      | (Inr bs, s) \<Rightarrow> (case read_many rd ns s of (cs, s) \<Rightarrow> (bs @ cs, s)))"

locale byte_source =
  fixes rd :: "nat \<Rightarrow> 's \<Rightarrow> ('e + string) \<times> 's"
    and contents :: "'s \<Rightarrow> string"
    and weight :: "'s \<Rightarrow> nat"
  assumes rd_bytes: "rd n s = (Inr bs, s') \<Longrightarrow> length bs \<le> n \<and> contents s = bs @ contents s'"
    and rd_error: "rd n s = (Inl e, s') \<Longrightarrow> contents s = [] \<and> s' = s"
    and rd_progress: "0 < n \<Longrightarrow> rd n s = (Inr bs, s') \<Longrightarrow> weight s' < weight s"
begin

lemma read_many_prefix: "read_many rd ns s = (bs, s') \<Longrightarrow> contents s = bs @ contents s'"
proof (induction ns arbitrary: s bs s')
  case Nil
  then show ?case by simp
next
  case (Cons n ns)
  obtain r s1 where r: "rd n s = (r, s1)" by fastforce
  show ?case
  proof (cases r)
    case (Inl e)
    with Cons.prems r rd_error [of n s e s1] show ?thesis by simp
  next
    case (Inr cs)
    obtain ds s2 where d: "read_many rd ns s1 = (ds, s2)" by fastforce
    with Cons.prems Cons.IH [OF d] r Inr rd_bytes [of n s cs s1] show ?thesis by simp
  qed
qed

lemma read_many_all:
  "read_many rd ns s = (bs, s') \<Longrightarrow> \<forall>n \<in> set ns. 0 < n \<Longrightarrow> weight s < length ns \<Longrightarrow> bs = contents s"
proof (induction ns arbitrary: s bs s')
  case Nil
  then show ?case by simp
next
  case (Cons n ns)
  obtain r s1 where r: "rd n s = (r, s1)" by fastforce
  show ?case
  proof (cases r)
    case (Inl e)
    with Cons.prems r rd_error [of n s e s1] show ?thesis by simp
  next
    case (Inr cs)
    obtain ds s2 where d: "read_many rd ns s1 = (ds, s2)" by fastforce
    have "weight s1 < weight s" using rd_progress [of n s cs s1] Cons.prems(2) r Inr by simp
    with Cons.prems(2,3) have "ds = contents s1" by (intro Cons.IH [OF d]) simp_all
    with Cons.prems(1) r Inr d rd_bytes [of n s cs s1] show ?thesis by simp
  qed
qed

end

definition ws_contents :: "'e ws_conn \<Rightarrow> string" where
  "ws_contents c = wc_buff c @ concat (wc_msgs c)"

definition ws_weight :: "'e ws_conn \<Rightarrow> nat" where
  "ws_weight c = length (ws_contents c) + length (wc_msgs c)"

interpretation ws: byte_source ws_read ws_contents ws_weight
proof (unfold_locales, goal_cases)
  case (1 n s bs s')
  then show ?case
    by (auto simp: ws_read_def ws_copy_def ws_contents_def split: if_splits list.splits)
next
  case (2 n s e s')
  then show ?case
    by (auto simp: ws_read_def ws_copy_def ws_contents_def split: if_splits list.splits)
next
  case (3 n s bs s')
  then show ?case
    by (auto simp: ws_read_def ws_copy_def ws_contents_def ws_weight_def split: if_splits list.splits)
qed

text \<open>
  C29. A websocket connection is a stream of bytes. However the peer cut what it sent into messages,
  empty ones included, and whatever sizes the reads ask for, the bytes read are a prefix of what
  was sent, in order, with none lost or repeated; and when every read asks for at least one byte, as
  many reads as there are bytes and messages and one more return all of it.
\<close>

theorem ws_is_byte_stream:
  "case read_many ws_read ns (new_ws_conn msgs e) of (bs, c) \<Rightarrow>
     concat msgs = bs @ ws_contents c
     \<and> ((\<forall>n \<in> set ns. 0 < n) \<and> length (concat msgs) + length msgs < length ns \<longrightarrow> bs = concat msgs)"
proof -
  obtain bs c where r: "read_many ws_read ns (new_ws_conn msgs e) = (bs, c)" by fastforce
  have "ws_contents (new_ws_conn msgs e) = concat msgs"
    "ws_weight (new_ws_conn msgs e) = length (concat msgs) + length msgs"
    by (simp_all add: ws_weight_def ws_contents_def new_ws_conn_def)
  with ws.read_many_prefix [OF r] ws.read_many_all [OF r] show ?thesis
    unfolding r by (simp only: prod.case) metis
qed

theorem ws_is_byte_stream_witness:
  "fst (read_many ws_read [2, 2, 2, 2, 2, 2, 2, 2] (new_ws_conn [''abc'', [], ''d''] ())) = ''abcd''"
proof -
  obtain bs c where r: "read_many ws_read [2, 2, 2, 2, 2, 2, 2, 2] (new_ws_conn [''abc'', [], ''d''] ()) = (bs, c)"
    by fastforce
  have "(\<forall>n \<in> set [2, 2, 2, 2, 2, 2, 2, 2 :: nat]. 0 < n)
      \<and> length (concat [''abc'', [], ''d'']) + length [''abc'', [], ''d''] < length [2, 2, 2, 2, 2, 2, 2, 2 :: nat]"
    by simp
  with ws_is_byte_stream [where ns = "[2, 2, 2, 2, 2, 2, 2, 2]" and msgs = "[''abc'', [], ''d'']" and e = "()"]
  have "bs = concat [''abc'', [], ''d'']" unfolding r prod.case by blast
  then show ?thesis unfolding r by simp
qed

subsection \<open>Connection counters\<close>

record conn_count =
  cc_count :: "32 word"
  cc_open :: "32 word"

definition conn_count_new :: "conn_count \<Rightarrow> 32 word \<times> conn_count" where
  "conn_count_new c = (let n = cc_count c + 1 in (n, c\<lparr>cc_count := n\<rparr>))"

definition conn_count_open :: "conn_count \<Rightarrow> conn_count" where
  "conn_count_open c = c\<lparr>cc_open := cc_open c + 1\<rparr>"

definition conn_count_close :: "conn_count \<Rightarrow> conn_count" where
  "conn_count_close c = c\<lparr>cc_open := cc_open c + (- 1)\<rparr>"

definition conn_count_string :: "conn_count \<Rightarrow> string" where
  "conn_count_string c = ''['' @ itoa (sint (cc_open c)) @ ''/'' @ itoa (sint (cc_count c)) @ '']''"

lemma conn_count_balance: "conn_count_close (conn_count_open c) = c"
  by (simp add: conn_count_open_def conn_count_close_def)

end
