(* ===== verification/Udp_Out.thy ===== *)
theory Udp_Out
  imports Chisel_Prelude
begin

text \<open>
  \<^verbatim>\<open>share/tunnel/tunnel_out_ssh_udp.go\<close>: the outbound half of a UDP remote. Packets arrive with
  their source; each source has its own socket, dialled when its first packet comes, and a
  goroutine that reads the answers, unless there are too many. A socket is a number. The state is
  shared between the writing loop and the readers, whose steps interleave; it also counts the
  readers that have ended and lists the sockets that have been closed.
\<close>

record udp_packet =
  up_src :: string
  up_payload :: string

record udp_handler =
  uh_conns :: "nat go_map"
  uh_readers :: "string list"
  uh_sockets :: nat
  uh_sent :: "(nat \<times> string) list"
  uh_ended :: nat
  uh_closed :: "nat list"

definition new_udp_handler :: udp_handler where
  "new_udp_handler = \<lparr>uh_conns = [], uh_readers = [], uh_sockets = 0, uh_sent = [], uh_ended = 0, uh_closed = []\<rparr>"

definition max_conns :: nat where "max_conns = 100"

text \<open>\<^verbatim>\<open>udpChannel.encode\<close>: the packet that is put on the stream.\<close>

definition udp_encode :: "string \<Rightarrow> string \<Rightarrow> udp_packet" where
  "udp_encode src b = \<lparr>up_src = src, up_payload = b\<rparr>"

text \<open>\<^verbatim>\<open>udpConns.len\<close>\<close>

definition udp_conns_len :: "udp_handler \<Rightarrow> nat" where
  "udp_conns_len h = length (uh_conns h)"

declare udp_encode_def [simp] udp_conns_len_def [simp]

text \<open>\<^verbatim>\<open>udpConns.dial\<close>: the socket, and whether it was there before.\<close>

definition udp_dial ::
    "string option \<Rightarrow> string \<Rightarrow> udp_handler \<Rightarrow> (string + nat \<times> bool) \<times> udp_handler" where
  "udp_dial dial_err src h =
     (case map_get (uh_conns h) src of
        Some s \<Rightarrow> (Inr (s, True), h)
      | None \<Rightarrow>
          (case dial_err of
             Some e \<Rightarrow> (Inl e, h)
           | None \<Rightarrow>
               (let s = uh_sockets h
                in (Inr (s, False), h\<lparr>uh_conns := map_set src s (uh_conns h), uh_sockets := Suc s\<rparr>))))"

definition udp_remove :: "string \<Rightarrow> udp_handler \<Rightarrow> udp_handler" where
  "udp_remove src h = h\<lparr>uh_conns := map_del src (uh_conns h)\<rparr>"

text \<open>\<^verbatim>\<open>handleWrite\<close> for a decoded packet; an error ends the handler.\<close>

definition udp_handle_write ::
    "string option \<Rightarrow> string option \<Rightarrow> udp_packet \<Rightarrow> udp_handler \<Rightarrow> string option \<times> udp_handler" where
  "udp_handle_write dial_err write_err p h =
     (case udp_dial dial_err (up_src p) h of
        (Inl e, h) \<Rightarrow> (Some e, h)
      | (Inr (s, exists), h) \<Rightarrow>
          (let h = (if \<not> exists \<and> udp_conns_len h \<le> max_conns
                    then h\<lparr>uh_readers := up_src p # uh_readers h\<rparr> else h)
           in case write_err of
                Some e \<Rightarrow> (Some e, h)
              | None \<Rightarrow> (None, h\<lparr>uh_sent := uh_sent h @ [(s, up_payload p)]\<rparr>)))"

text \<open>
  \<^verbatim>\<open>handleRead\<close> over the results of its reads, each with whether its packet could be sent back:
  the packets sent. The loop ends at the first error; the socket is then removed.
\<close>

fun udp_handle_read :: "nat \<Rightarrow> string \<Rightarrow> ((string + string) \<times> bool) list \<Rightarrow> udp_packet list" where
  "udp_handle_read mtu src [] = []"
| "udp_handle_read mtu src ((Inl err, ok) # rs) = []"
| "udp_handle_read mtu src ((Inr b, ok) # rs) =
     (if \<not> ok then []
      else udp_encode src (take mtu b) # udp_handle_read mtu src rs)"

definition udp_reader_ends :: "string \<Rightarrow> udp_handler \<Rightarrow> udp_handler" where
  "udp_reader_ends src h =
     udp_remove src (h\<lparr>uh_readers := remove1 src (uh_readers h), uh_ended := Suc (uh_ended h)\<rparr>)"

definition udp_close_all :: "udp_handler \<Rightarrow> udp_handler" where
  "udp_close_all h = h\<lparr>uh_conns := [], uh_closed := uh_closed h @ map snd (uh_conns h)\<rparr>"

subsection \<open>The readers are bounded\<close>

inductive udp_reachable :: "udp_handler \<Rightarrow> bool" where
  start: "udp_reachable new_udp_handler"
| packet: "udp_reachable h \<Longrightarrow> udp_handle_write de we p h = (res, h') \<Longrightarrow> udp_reachable h'"
| reader_ends: "udp_reachable h \<Longrightarrow> src \<in> set (uh_readers h) \<Longrightarrow> udp_reachable (udp_reader_ends src h)"

definition udp_ok :: "udp_handler \<Rightarrow> bool" where
  "udp_ok h \<longleftrightarrow>
     wf_map (uh_conns h) \<and> distinct (uh_readers h) \<and> set (uh_readers h) \<subseteq> set (map fst (uh_conns h)) \<and>
     length (uh_readers h) \<le> max_conns \<and>
     (\<forall>x \<in> set (uh_conns h). snd x < uh_sockets h) \<and> inj_on snd (set (uh_conns h)) \<and>
     length (uh_conns h) + uh_ended h = uh_sockets h \<and> uh_closed h = []"

lemma set_map_set_absent: "map_get m k = None \<Longrightarrow> map_set k v m = m @ [(k, v)]"
  by (induction m) (auto split: if_splits)

lemma udp_dialE:
  assumes "udp_dial de src h = (res, h')" and "udp_ok h"
  obtains (old) s where "res = Inr (s, True)" "h' = h"
  | (failed) e where "res = Inl e" "h' = h"
  | (new) "res = Inr (uh_sockets h, False)" "uh_conns h' = uh_conns h @ [(src, uh_sockets h)]"
      "uh_readers h' = uh_readers h" "uh_sockets h' = Suc (uh_sockets h)" "src \<notin> set (map fst (uh_conns h))"
      "uh_ended h' = uh_ended h" "uh_closed h' = uh_closed h"
proof (cases "map_get (uh_conns h) src")
  case (Some s)
  with assms(1) show thesis by (intro old [of s]) (simp_all add: udp_dial_def)
next
  case None
  show thesis
  proof (cases de)
    case (Some e)
    with None assms(1) show thesis by (intro failed [of e]) (simp_all add: udp_dial_def)
  next
    case no_err: None
    have absent: "src \<notin> set (map fst (uh_conns h))" using None map_get_none_iff [of "uh_conns h" src] by blast
    have "(res, h') = (Inr (uh_sockets h, False),
        h\<lparr>uh_conns := uh_conns h @ [(src, uh_sockets h)], uh_sockets := Suc (uh_sockets h)\<rparr>)"
      unfolding assms(1) [symmetric] udp_dial_def None no_err
      by (simp add: Let_def set_map_set_absent [OF None])
    with absent show thesis by (intro new) simp_all
  qed
qed

lemma udp_write_ok:
  assumes "udp_handle_write de we p h = (res, h')" and ok: "udp_ok h"
  shows "udp_ok h'"
proof -
  obtain r h1 where d: "udp_dial de (up_src p) h = (r, h1)" by fastforce
  have upd: "udp_ok (h\<lparr>uh_sent := x\<rparr>) = udp_ok h" for x h by (simp add: udp_ok_def)
  from d ok show ?thesis
  proof (cases rule: udp_dialE)
    case (old s)
    with assms d show ?thesis by (auto simp: udp_handle_write_def upd split: option.splits)
  next
    case (failed e)
    with assms d show ?thesis by (simp add: udp_handle_write_def)
  next
    case new
    let ?h2 = "if length (uh_conns h1) \<le> max_conns then h1\<lparr>uh_readers := up_src p # uh_readers h1\<rparr> else h1"
    have sub: "set (uh_readers h) \<subseteq> set (map fst (uh_conns h))" and dist: "distinct (uh_readers h)"
      using ok by (simp_all add: udp_ok_def)
    have "length (uh_readers h) \<le> length (uh_conns h)"
      using card_mono [OF _ sub] distinct_card [OF dist] card_length [of "map fst (uh_conns h)"] by simp
    then have "udp_ok ?h2"
      using new ok by (force simp: udp_ok_def inj_on_def)
    with assms(1) d new(1) upd show ?thesis
      by (auto simp: udp_handle_write_def Let_def split: option.splits)
  qed
qed

lemma set_map_del: "set (map_del k m) = {x \<in> set m. fst x \<noteq> k}"
  by (induction m) auto

lemma udp_reader_ends_ok:
  assumes ok: "udp_ok h" and src: "src \<in> set (uh_readers h)"
  shows "udp_ok (udp_reader_ends src h)"
proof -
  have "src \<in> set (map fst (uh_conns h))" "wf_map (uh_conns h)" using assms by (auto simp: udp_ok_def)
  then obtain s where "map_get (uh_conns h) src = Some s" using map_get_none_iff [of "uh_conns h" src] by blast
  with \<open>wf_map (uh_conns h)\<close> have "Suc (length (map_del src (uh_conns h))) = length (uh_conns h)"
    by (rule length_map_del_present)
  with ok show ?thesis
    by (auto simp: udp_ok_def udp_reader_ends_def udp_remove_def delete_keys length_remove1 distinct_removeAll
        set_map_del inj_on_def)
qed

lemma udp_reachable_ok: "udp_reachable h \<Longrightarrow> udp_ok h"
proof (induction rule: udp_reachable.induct)
  case start
  then show ?case by (simp add: udp_ok_def new_udp_handler_def)
next
  case (packet h de we p res h')
  then show ?case using udp_write_ok by blast
next
  case (reader_ends h src)
  then show ?case using udp_reader_ends_ok by blast
qed

text \<open>
  C30. The goroutines of a UDP channel are bounded. However packets and the ends of readers
  interleave, no source has two readers, every reader's source has its socket in the table, no
  two sources share a socket, and there are never more than a hundred readers, although the table of
  sockets itself has no bound.
\<close>

theorem udp_readers_bounded:
  assumes "udp_reachable h"
  shows "length (uh_readers h) \<le> 100 \<and> distinct (uh_readers h)
    \<and> set (uh_readers h) \<subseteq> set (map fst (uh_conns h))
    \<and> wf_map (uh_conns h) \<and> distinct (map snd (uh_conns h))"
proof -
  have "udp_ok h" using assms by (rule udp_reachable_ok)
  moreover from this have "distinct (uh_conns h)" by (auto simp: udp_ok_def distinct_map)
  ultimately show ?thesis by (simp add: udp_ok_def max_conns_def distinct_map)
qed

fun udp_packets :: "string list \<Rightarrow> udp_handler \<Rightarrow> udp_handler" where
  "udp_packets [] h = h"
| "udp_packets (s # ss) h =
     udp_packets ss (snd (udp_handle_write None None \<lparr>up_src = s, up_payload = ''x''\<rparr> h))"

lemma udp_packets_reachable: "udp_reachable h \<Longrightarrow> udp_reachable (udp_packets ss h)"
  by (induction ss h rule: udp_packets.induct) (auto intro: udp_reachable.packet [OF _ surjective_pairing])

theorem udp_readers_bounded_witness:
  "let h = udp_packets [''a'', ''b'', ''a''] new_udp_handler
   in udp_reachable h \<and> uh_readers h = [''b'', ''a''] \<and> map fst (uh_sent h) = [0, 1, 0]
     \<and> length (uh_readers h) \<le> 100 \<and> distinct (map snd (uh_conns h))"
proof -
  let ?h = "udp_packets [''a'', ''b'', ''a''] new_udp_handler"
  have r: "udp_reachable ?h" by (rule udp_packets_reachable [OF udp_reachable.start])
  have "uh_readers ?h = [''b'', ''a'']" "map fst (uh_sent ?h) = [0, 1, 0]" by code_simp+
  with r udp_readers_bounded [OF r] show ?thesis by (simp add: Let_def)
qed

text \<open>
  Sockets whose reader has ended are never closed. When a reader ends, its socket is taken out of the
  table but not closed, and the end of the handler closes only what is in the table: of the
  sockets dialled, as many stay open as readers have ended.
\<close>

theorem udp_sockets_leak:
  assumes "udp_reachable h"
  shows "length (uh_closed (udp_close_all h)) + uh_ended h = uh_sockets h
    \<and> set (uh_closed (udp_close_all h)) \<subseteq> {..<uh_sockets h}"
  using udp_reachable_ok [OF assms] by (auto simp: udp_ok_def udp_close_all_def)

theorem udp_sockets_leak_witness:
  "let h = udp_reader_ends ''a'' (udp_packets [''a'', ''b'', ''a''] new_udp_handler)
   in uh_sockets h = 2 \<and> uh_closed (udp_close_all h) = [1]"
proof -
  let ?g = "udp_packets [''a'', ''b'', ''a''] new_udp_handler" and ?h = "udp_reader_ends ''a'' (udp_packets [''a'', ''b'', ''a''] new_udp_handler)"
  have "''a'' \<in> set (uh_readers ?g)" by code_simp
  then have r: "udp_reachable ?h" by (rule udp_reachable.reader_ends [OF udp_packets_reachable [OF udp_reachable.start]])
  have "uh_ended ?h = 1" "uh_sockets ?h = 2" "uh_conns ?h = [(''b'', 1)]" "uh_closed ?h = []" by code_simp+
  with udp_sockets_leak [OF r] show ?thesis by (simp add: udp_close_all_def)
qed

subsection \<open>Readers can run out\<close>

text \<open>The sources in the table that have no reader.\<close>

definition unanswered :: "udp_handler \<Rightarrow> string set" where
  "unanswered h = set (map fst (uh_conns h)) - set (uh_readers h)"

inductive udp_later :: "udp_handler \<Rightarrow> udp_handler \<Rightarrow> bool" for h :: udp_handler where
  now: "udp_later h h"
| packet: "udp_later h g \<Longrightarrow> udp_handle_write de we p g = (res, g') \<Longrightarrow> udp_later h g'"
| reader_ends: "udp_later h g \<Longrightarrow> src \<in> set (uh_readers g) \<Longrightarrow> udp_later h (udp_reader_ends src g)"

lemma udp_write_starved:
  assumes w: "udp_handle_write de we p g = (res, g')" and ok: "udp_ok g" and full: "max_conns \<le> length (uh_conns g)"
  shows "uh_readers g' = uh_readers g \<and> unanswered g \<subseteq> unanswered g'"
proof -
  obtain r h1 where d: "udp_dial de (up_src p) g = (r, h1)" by fastforce
  from d ok show ?thesis
  proof (cases rule: udp_dialE)
    case (old s)
    with w d show ?thesis by (auto simp: udp_handle_write_def unanswered_def split: option.splits)
  next
    case (failed e)
    with w d show ?thesis by (simp add: udp_handle_write_def)
  next
    case new
    with w d full show ?thesis by (auto simp: udp_handle_write_def unanswered_def Let_def split: option.splits)
  qed
qed

lemma unanswered_bound:
  assumes "udp_ok g" shows "card (unanswered g) \<le> length (uh_conns g)"
proof -
  have "card (unanswered g) \<le> card (set (map fst (uh_conns g)))"
    unfolding unanswered_def by (intro card_mono) auto
  also have "\<dots> \<le> length (uh_conns g)" using card_length [of "map fst (uh_conns g)"] by simp
  finally show ?thesis .
qed

text \<open>
  Sources can lose their answers for good. A source that comes while the table is full gets no
  reader, and only the end of its reader takes a source out of the table. So once a hundred sources
  are in the table without a reader, no source ever gets a reader again on this channel, whatever
  packets come and readers end: a new source is dialled and its packets sent, but no reply is read.
\<close>

theorem udp_readers_starve:
  assumes "udp_reachable h" and "100 \<le> card (unanswered h)" and "udp_later h h'"
  shows "set (uh_readers h') \<subseteq> set (uh_readers h) \<and> unanswered h \<subseteq> unanswered h'"
proof -
  have "udp_ok h' \<and> set (uh_readers h') \<subseteq> set (uh_readers h) \<and> unanswered h \<subseteq> unanswered h'"
    using assms(3)
  proof (induction rule: udp_later.induct)
    case now
    show ?case using udp_reachable_ok [OF assms(1)] by simp
  next
    case (packet g de we p res g')
    have "finite (unanswered g)" by (simp add: unanswered_def)
    then have "100 \<le> card (unanswered g)" using packet.IH assms(2) card_mono le_trans by blast
    then have "max_conns \<le> length (uh_conns g)"
      using unanswered_bound [of g] packet.IH by (simp add: max_conns_def)
    with packet.IH udp_write_starved [OF packet(2)] udp_write_ok [OF packet(2)] show ?case by auto
  next
    case (reader_ends g src)
    moreover have "unanswered g \<subseteq> unanswered (udp_reader_ends src g)"
      using reader_ends by (auto simp: unanswered_def udp_reader_ends_def udp_remove_def delete_keys udp_ok_def)
    ultimately show ?case
      using udp_reader_ends_ok [of g src] by (auto simp: udp_reader_ends_def udp_remove_def dest: notin_set_remove1)
  qed
  then show ?thesis by blast
qed

text \<open>Two hundred sources at once do it.\<close>

lemma udp_packets_snoc:
  "udp_packets (ss @ [s]) h = snd (udp_handle_write None None \<lparr>up_src = s, up_payload = ''x''\<rparr> (udp_packets ss h))"
  by (induction ss h rule: udp_packets.induct) auto

lemma udp_burst:
  "distinct ss \<Longrightarrow> map fst (uh_conns (udp_packets ss new_udp_handler)) = ss
    \<and> set (uh_readers (udp_packets ss new_udp_handler)) = set (take 100 ss)"
proof (induction ss rule: rev_induct)
  case Nil
  show ?case by (simp add: new_udp_handler_def)
next
  case (snoc s ss)
  let ?h = "udp_packets ss new_udp_handler"
  from snoc have conns: "map fst (uh_conns ?h) = ss" and readers: "set (uh_readers ?h) = set (take 100 ss)" by auto
  have none: "map_get (uh_conns ?h) s = None"
    using snoc(2) conns by (metis distinct_append map_get_none_iff not_distinct_conv_prefix distinct_singleton)
  have len: "length (uh_conns ?h) = length ss" using conns by (metis length_map)
  show ?case
    using conns readers len
    by (simp add: udp_packets_snoc udp_handle_write_def udp_dial_def none set_map_set_absent max_conns_def Let_def)
qed

lemma udp_burst_unanswered:
  assumes "distinct ss" and "length ss = 200"
  shows "card (unanswered (udp_packets ss new_udp_handler)) = 100"
proof -
  have "unanswered (udp_packets ss new_udp_handler) = set ss - set (take 100 ss)"
    using udp_burst [OF assms(1)] by (simp add: unanswered_def flip: list.set_map)
  moreover have "card (set ss - set (take 100 ss)) = 100"
    using assms set_take_subset [of 100 ss] by (simp add: card_Diff_subset distinct_card)
  ultimately show ?thesis by simp
qed

theorem udp_readers_starve_witness:
  "\<exists>ss h. h = udp_packets ss new_udp_handler \<and> udp_reachable h \<and> card (unanswered h) = 100
     \<and> set (uh_readers (snd (udp_handle_write None None \<lparr>up_src = ''y'', up_payload = ''x''\<rparr> h))) \<subseteq> set (take 100 ss)"
proof -
  define ss where "ss = map (\<lambda>i. replicate i (CHR ''x'')) [0..<200]"
  let ?h = "udp_packets ss new_udp_handler"
  have "inj_on (\<lambda>i. replicate i (CHR ''x'')) A" for A by (metis inj_onI length_replicate)
  then have dist: "distinct ss" and len: "length ss = 200" by (simp_all add: ss_def distinct_map)
  have r: "udp_reachable ?h" by (rule udp_packets_reachable [OF udp_reachable.start])
  note card = udp_burst_unanswered [OF dist len]
  have "udp_later ?h (snd (udp_handle_write None None \<lparr>up_src = ''y'', up_payload = ''x''\<rparr> ?h))"
    by (rule udp_later.packet [OF udp_later.now surjective_pairing])
  from udp_readers_starve [OF r _ this] card udp_burst [OF dist] r show ?thesis by auto
qed

end
