(* ===== verification/Outbound.thy ===== *)
theory Outbound
  imports Tunnel Cnet Udp_Out "HOL-Library.Multiset"
begin

text \<open>
  The life of the channels that the peer opens (\<^verbatim>\<open>share/tunnel/tunnel_out_ssh.go\<close>): each is handled by a
  goroutine of its own, from the decision of the theory \<open>Tunnel\<close> to the deferred closing of its
  stream, and all of them share the connection counters of the tunnel. Each access to a counter is
  one atomic step. How the accepting, the dialling and the serving go comes with the steps: the stage
  \<open>Ch_serving\<close> holds the decided action and is left when \<^verbatim>\<open>handleSocks\<close>, \<^verbatim>\<open>handleTCP\<close> or \<^verbatim>\<open>handleUDP\<close>
  returns. What these do meanwhile is the subject of \<open>handle_tcp\<close> and \<open>handle_udp\<close> here and of the
  theories \<open>Copying\<close>, \<open>Links\<close> and \<open>Udp_Out\<close>.
\<close>

subsection \<open>Serving an accepted channel\<close>

text \<open>
  \<^verbatim>\<open>handleTCP\<close>: a failed dial is its error; otherwise it returns nil when the pipe does, whatever
  the pipe met.
\<close>

definition handle_tcp :: "string option \<Rightarrow> string option" where
  "handle_tcp dial_err = dial_err"

text \<open>
  \<^verbatim>\<open>handleUDP\<close>: the loop over the packets of the channel, and the readers that end meanwhile. The
  first error ends it, and the sockets that are in the table are closed. With no more input it is
  blocked in its next read.
\<close>

datatype udp_input =
    Udp_decode_error string
  | Udp_decoded udp_packet "string option" "string option"
  | Udp_reader_over string

fun handle_udp :: "udp_input list \<Rightarrow> udp_handler \<Rightarrow> string option \<times> udp_handler" where
  "handle_udp [] h = (None, h)"
| "handle_udp (Udp_decode_error e # is) h = (Some e, udp_close_all h)"
| "handle_udp (Udp_decoded p dial_err write_err # is) h =
     (case udp_handle_write dial_err write_err p h of
        (Some e, h) \<Rightarrow> (Some e, udp_close_all h)
      | (None, h) \<Rightarrow> handle_udp is h)"
| "handle_udp (Udp_reader_over src # is) h = handle_udp is (udp_reader_ends src h)"

lemma handle_udp_closes: "handle_udp is h = (Some e, h') \<Longrightarrow> uh_conns h' = []"
  by (induction "is" h rule: handle_udp.induct)
    (auto simp: udp_close_all_def split: prod.splits option.splits)

text \<open>What is logged of the error when a channel is closed: nothing if it is an end of file.\<close>

definition close_errmsg :: "string option \<Rightarrow> string" where
  "close_errmsg err =
     (case err of
        None \<Rightarrow> []
      | Some e \<Rightarrow> if suffix ''EOF'' e then [] else '' (error '' @ e @ '')'')"

subsection \<open>The goroutine of a channel\<close>

datatype channel_stage =
    Ch_arrived
  | Ch_accepted
  | Ch_numbered
  | Ch_serving
  | Ch_served
  | Ch_counted
  | Ch_ended

datatype channel_stream = No_stream | Stream_open | Stream_closed

record channel =
  ch_extra :: string
  ch_stage :: channel_stage
  ch_rejected :: "string option"
  ch_action :: "channel_action option"
  ch_stream :: channel_stream
  ch_id :: "32 word"
  ch_errmsg :: string

definition new_channel :: "string \<Rightarrow> channel" where
  "new_channel extra = \<lparr>ch_extra = extra, ch_stage = Ch_arrived, ch_rejected = None, ch_action = None,
     ch_stream = No_stream, ch_id = 0, ch_errmsg = []\<rparr>"

text \<open>
  The next step of a channel's goroutine. The parameter is the error of the call that the step makes:
  of \<^verbatim>\<open>Accept\<close> at first, of the serving later.
\<close>

definition channel_step ::
    "golib \<Rightarrow> bool \<Rightarrow> bool \<Rightarrow> string option \<Rightarrow> conn_count \<Rightarrow> channel \<Rightarrow> conn_count \<times> channel" where
  "channel_step lib outbound socks_server err n c =
     (case ch_stage c of
        Ch_arrived \<Rightarrow>
          (case handle_ssh_channel lib outbound socks_server (ch_extra c) of
             Reject_channel why \<Rightarrow> (n, c\<lparr>ch_rejected := Some why, ch_stage := Ch_ended\<rparr>)
           | action \<Rightarrow>
               (case err of
                  Some e \<Rightarrow> (n, c\<lparr>ch_stage := Ch_ended\<rparr>)
                | None \<Rightarrow> (n, c\<lparr>ch_stream := Stream_open, ch_action := Some action, ch_stage := Ch_accepted\<rparr>)))
      | Ch_accepted \<Rightarrow>
          (let (i, n) = conn_count_new n in (n, c\<lparr>ch_id := i, ch_stage := Ch_numbered\<rparr>))
      | Ch_numbered \<Rightarrow> (conn_count_open n, c\<lparr>ch_stage := Ch_serving\<rparr>)
      | Ch_serving \<Rightarrow> (n, c\<lparr>ch_errmsg := close_errmsg err, ch_stage := Ch_served\<rparr>)
      | Ch_served \<Rightarrow> (conn_count_close n, c\<lparr>ch_stage := Ch_counted\<rparr>)
      | Ch_counted \<Rightarrow> (n, c\<lparr>ch_stream := Stream_closed, ch_stage := Ch_ended\<rparr>)
      | Ch_ended \<Rightarrow> (n, c))"

text \<open>\<^verbatim>\<open>handleSSHChannels\<close>: a goroutine for each channel that arrives.\<close>

record outbound =
  ob_count :: conn_count
  ob_channels :: "channel list"

definition new_outbound :: outbound where
  "new_outbound = \<lparr>ob_count = \<lparr>cc_count = 0, cc_open = 0\<rparr>, ob_channels = []\<rparr>"

datatype outbound_move =
    Channel_arrives string
  | Channel_moves nat "string option"

fun outbound_step :: "golib \<Rightarrow> bool \<Rightarrow> bool \<Rightarrow> outbound_move \<Rightarrow> outbound \<Rightarrow> outbound" where
  "outbound_step lib outbound socks_server (Channel_arrives extra) s =
     s\<lparr>ob_channels := ob_channels s @ [new_channel extra]\<rparr>"
| "outbound_step lib outbound socks_server (Channel_moves i err) s =
     (if i < length (ob_channels s)
      then (let (n, c) = channel_step lib outbound socks_server err (ob_count s) (ob_channels s ! i)
            in \<lparr>ob_count = n, ob_channels = (ob_channels s)[i := c]\<rparr>)
      else s)"

definition run_outbound :: "golib \<Rightarrow> bool \<Rightarrow> bool \<Rightarrow> outbound_move list \<Rightarrow> outbound" where
  "run_outbound lib outbound socks_server ms = fold (outbound_step lib outbound socks_server) ms new_outbound"

subsection \<open>What the counters count\<close>

definition being_served :: "channel \<Rightarrow> bool" where
  "being_served c \<longleftrightarrow> ch_stage c \<in> {Ch_serving, Ch_served}"

definition numbered :: "channel \<Rightarrow> bool" where
  "numbered c \<longleftrightarrow> ch_action c \<noteq> None \<and> ch_stage c \<noteq> Ch_accepted"

text \<open>How the goroutine of a channel ends: rejected, not accepted, or served and closed.\<close>

definition channel_over :: "channel_action \<Rightarrow> channel \<Rightarrow> bool" where
  "channel_over decided c \<longleftrightarrow>
     (case decided of
        Reject_channel why \<Rightarrow> ch_rejected c = Some why \<and> ch_stream c = No_stream \<and> ch_action c = None
      | _ \<Rightarrow> ch_rejected c = None \<and>
          (ch_stream c = No_stream \<and> ch_action c = None \<or> ch_stream c = Stream_closed \<and> ch_action c = Some decided))"

definition channel_ok :: "(string \<Rightarrow> channel_action) \<Rightarrow> channel \<Rightarrow> bool" where
  "channel_ok decide c \<longleftrightarrow>
     (let decided = decide (ch_extra c)
      in case ch_stage c of
           Ch_arrived \<Rightarrow> ch_rejected c = None \<and> ch_stream c = No_stream \<and> ch_action c = None
         | Ch_ended \<Rightarrow> channel_over decided c
         | _ \<Rightarrow> ch_rejected c = None \<and> ch_stream c = Stream_open \<and> ch_action c = Some decided
             \<and> (\<forall>why. decided \<noteq> Reject_channel why))"

text \<open>The facts about the counters and the channels that every step keeps.\<close>

definition accounted :: "conn_count \<Rightarrow> channel list \<Rightarrow> bool" where
  "accounted n cs \<longleftrightarrow>
     cc_open n = of_nat (length (filter being_served cs)) \<and>
     cc_count n = of_nat (length (filter numbered cs)) \<and>
     mset (map ch_id (filter numbered cs)) = mset (map of_nat [1..<Suc (length (filter numbered cs))])"

lemma channel_stepE:
  assumes "channel_step lib outbound socks_server err n c = (n', c')"
  obtains (rejected) why where "ch_stage c = Ch_arrived"
      "handle_ssh_channel lib outbound socks_server (ch_extra c) = Reject_channel why"
      "n' = n" "c' = c\<lparr>ch_rejected := Some why, ch_stage := Ch_ended\<rparr>"
  | (refused) "ch_stage c = Ch_arrived"
      "\<And>why. handle_ssh_channel lib outbound socks_server (ch_extra c) \<noteq> Reject_channel why"
      "n' = n" "c' = c\<lparr>ch_stage := Ch_ended\<rparr>"
  | (accepted) action where "ch_stage c = Ch_arrived"
      "handle_ssh_channel lib outbound socks_server (ch_extra c) = action" "\<And>why. action \<noteq> Reject_channel why"
      "n' = n" "c' = c\<lparr>ch_stream := Stream_open, ch_action := Some action, ch_stage := Ch_accepted\<rparr>"
  | (number) "ch_stage c = Ch_accepted" "n' = n\<lparr>cc_count := cc_count n + 1\<rparr>"
      "c' = c\<lparr>ch_id := cc_count n + 1, ch_stage := Ch_numbered\<rparr>"
  | (starts) "ch_stage c = Ch_numbered" "n' = conn_count_open n" "c' = c\<lparr>ch_stage := Ch_serving\<rparr>"
  | (serves) "ch_stage c = Ch_serving" "n' = n" "c' = c\<lparr>ch_errmsg := close_errmsg err, ch_stage := Ch_served\<rparr>"
  | (stops) "ch_stage c = Ch_served" "n' = conn_count_close n" "c' = c\<lparr>ch_stage := Ch_counted\<rparr>"
  | (closes) "ch_stage c = Ch_counted" "n' = n" "c' = c\<lparr>ch_stream := Stream_closed, ch_stage := Ch_ended\<rparr>"
  | (over) "ch_stage c = Ch_ended" "n' = n" "c' = c"
proof (cases "ch_stage c")
  case Ch_arrived
  show thesis
  proof (cases "\<exists>why. handle_ssh_channel lib outbound socks_server (ch_extra c) = Reject_channel why")
    case True
    then obtain why where "handle_ssh_channel lib outbound socks_server (ch_extra c) = Reject_channel why" ..
    with assms Ch_arrived rejected show thesis by (simp add: channel_step_def)
  next
    case False
    have new: "(case err of
        Some e \<Rightarrow> (n, c\<lparr>ch_stage := Ch_ended\<rparr>)
      | None \<Rightarrow> (n, c\<lparr>ch_stream := Stream_open,
          ch_action := Some (handle_ssh_channel lib outbound socks_server (ch_extra c)), ch_stage := Ch_accepted\<rparr>)) = (n', c')"
      using assms Ch_arrived False
      by (cases "handle_ssh_channel lib outbound socks_server (ch_extra c)") (simp_all add: channel_step_def split: option.splits)
    show thesis
    proof (cases err)
      case None
      with new False Ch_arrived show thesis by (intro accepted) auto
    next
      case (Some e)
      with new False Ch_arrived show thesis by (intro refused) auto
    qed
  qed
next
  case Ch_accepted
  with assms have "n' = n\<lparr>cc_count := cc_count n + 1\<rparr>" "c' = c\<lparr>ch_id := cc_count n + 1, ch_stage := Ch_numbered\<rparr>" by (simp_all add: channel_step_def conn_count_new_def Let_def)
  with Ch_accepted show thesis by (rule number)
next
  case Ch_numbered
  with assms have "n' = conn_count_open n" "c' = c\<lparr>ch_stage := Ch_serving\<rparr>" by (simp_all add: channel_step_def conn_count_new_def Let_def)
  with Ch_numbered show thesis by (rule starts)
next
  case Ch_serving
  with assms have "n' = n" "c' = c\<lparr>ch_errmsg := close_errmsg err, ch_stage := Ch_served\<rparr>" by (simp_all add: channel_step_def conn_count_new_def Let_def)
  with Ch_serving show thesis by (rule serves)
next
  case Ch_served
  with assms have "n' = conn_count_close n" "c' = c\<lparr>ch_stage := Ch_counted\<rparr>" by (simp_all add: channel_step_def conn_count_new_def Let_def)
  with Ch_served show thesis by (rule stops)
next
  case Ch_counted
  with assms have "n' = n" "c' = c\<lparr>ch_stream := Stream_closed, ch_stage := Ch_ended\<rparr>" by (simp_all add: channel_step_def conn_count_new_def Let_def)
  with Ch_counted show thesis by (rule closes)
next
  case Ch_ended
  with assms have "n' = n" "c' = c" by (simp_all add: channel_step_def conn_count_new_def Let_def)
  with Ch_ended show thesis by (rule over)
qed

lemma channel_step_ok:
  assumes "channel_step lib outbound socks_server err n c = (n', c')"
    and "channel_ok (handle_ssh_channel lib outbound socks_server) c"
  shows "channel_ok (handle_ssh_channel lib outbound socks_server) c'"
  using assms(1)
proof (cases rule: channel_stepE)
  case refused
  with assms(2) show ?thesis
    by (cases "handle_ssh_channel lib outbound socks_server (ch_extra c)")
      (auto simp: channel_ok_def channel_over_def)
next
  case closes
  with assms(2) show ?thesis
    by (cases "handle_ssh_channel lib outbound socks_server (ch_extra c)")
      (auto simp: channel_ok_def channel_over_def)
qed (use assms(2) in \<open>simp_all add: channel_ok_def channel_over_def Let_def\<close>)

lemma channel_step_accounted:
  assumes step: "channel_step lib outbound socks_server err n c = (n', c')"
    and ok: "channel_ok (handle_ssh_channel lib outbound socks_server) c"
    and acc: "accounted n (as @ c # bs)"
  shows "accounted n' (as @ c' # bs)"
  using step
proof (cases rule: channel_stepE)
  case number
  with acc show ?thesis using ok
    by (simp add: accounted_def being_served_def numbered_def channel_ok_def Let_def add.commute)
qed (use acc ok in \<open>simp_all add: accounted_def being_served_def numbered_def channel_ok_def Let_def
      conn_count_open_def conn_count_close_def\<close>)

definition outbound_ok :: "golib \<Rightarrow> bool \<Rightarrow> bool \<Rightarrow> outbound \<Rightarrow> bool" where
  "outbound_ok lib outbound socks_server s \<longleftrightarrow>
     accounted (ob_count s) (ob_channels s) \<and>
     (\<forall>c \<in> set (ob_channels s). channel_ok (handle_ssh_channel lib outbound socks_server) c)"

lemma outbound_step_ok:
  assumes "outbound_ok lib outbound socks_server s"
  shows "outbound_ok lib outbound socks_server (outbound_step lib outbound socks_server m s)"
proof (cases m)
  case (Channel_arrives extra)
  with assms show ?thesis
    by (auto simp: outbound_ok_def accounted_def new_channel_def being_served_def numbered_def channel_ok_def Let_def)
next
  case (Channel_moves i err)
  show ?thesis
  proof (cases "i < length (ob_channels s)")
    case True
    obtain n c where step: "channel_step lib outbound socks_server err (ob_count s) (ob_channels s ! i) = (n, c)"
      by (cases "channel_step lib outbound socks_server err (ob_count s) (ob_channels s ! i)")
    let ?as = "take i (ob_channels s)" and ?bs = "drop (Suc i) (ob_channels s)"
    have split: "ob_channels s = ?as @ ob_channels s ! i # ?bs" using True by (rule id_take_nth_drop)
    have new: "(ob_channels s)[i := c] = ?as @ c # ?bs" using True by (rule upd_conv_take_nth_drop)
    have ok: "channel_ok (handle_ssh_channel lib outbound socks_server) (ob_channels s ! i)"
      using assms True by (simp add: outbound_ok_def)
    have "accounted (ob_count s) (?as @ ob_channels s ! i # ?bs)"
      using assms split by (simp add: outbound_ok_def)
    from channel_step_accounted [OF step ok this]
    have "accounted n ((ob_channels s)[i := c])" by (simp only: new)
    moreover have "\<forall>c \<in> set ((ob_channels s)[i := c]). channel_ok (handle_ssh_channel lib outbound socks_server) c"
      using assms channel_step_ok [OF step ok] set_update_subset_insert [of "ob_channels s" i c]
      by (auto simp: outbound_ok_def)
    ultimately show ?thesis using Channel_moves True step by (simp add: outbound_ok_def)
  qed (use assms Channel_moves in simp)
qed

lemma run_outbound_ok: "outbound_ok lib outbound socks_server (run_outbound lib outbound socks_server ms)"
proof -
  have "outbound_ok lib outbound socks_server (fold (outbound_step lib outbound socks_server) ms s)"
    if "outbound_ok lib outbound socks_server s" for s
    using that by (induction ms arbitrary: s) (simp_all add: outbound_step_ok)
  moreover have "outbound_ok lib outbound socks_server new_outbound"
    by (simp add: outbound_ok_def accounted_def new_outbound_def)
  ultimately show ?thesis by (simp add: run_outbound_def)
qed

lemma accounted_ids:
  assumes "accounted n cs" and "length cs < 2 ^ 32"
  shows "distinct (map ch_id (filter numbered cs))"
proof -
  let ?k = "length (filter numbered cs)"
  have k: "?k < 2 ^ 32" using assms(2) length_filter_le [of numbered cs] by linarith
  have "inj_on (of_nat :: nat \<Rightarrow> 32 word) {..<2 ^ 32}"
    by (rule inj_onI) (simp add: word_of_nat_eq_iff take_bit_nat_eq_self)
  moreover have "set [1..<Suc ?k] \<subseteq> {..<2 ^ 32}" using k by auto
  ultimately have "inj_on (of_nat :: nat \<Rightarrow> 32 word) (set [1..<Suc ?k])" by (rule inj_on_subset)
  then have "distinct (map of_nat [1..<Suc ?k] :: 32 word list)"
    by (simp only: distinct_map distinct_upt simp_thms)
  moreover have "mset (map ch_id (filter numbered cs)) = mset (map of_nat [1..<Suc ?k])"
    using assms(1) unfolding accounted_def by blast
  ultimately show ?thesis using mset_eq_imp_distinct_iff by blast
qed

text \<open>
  C22. The channels are accounted for. Whatever channels the peer opens, and however their goroutines
  interleave: the open counter is the number of channels that are being served, and the count
  is the number of channels that were given a number (both modulo the 32 bits of the counters); the
  numbers are distinct as long as there are fewer than \<open>2 ^ 32\<close> channels; and a goroutine that has ended
  has rejected its channel with the reason decided, failed to accept it, or served exactly what
  was decided and closed the stream.
\<close>

theorem channels_accounted:
  fixes lib outbound socks_server ms
  defines "s \<equiv> run_outbound lib outbound socks_server ms"
  shows "cc_open (ob_count s) = of_nat (length (filter being_served (ob_channels s)))
    \<and> cc_count (ob_count s) = of_nat (length (filter numbered (ob_channels s)))
    \<and> (length (ob_channels s) < 2 ^ 32 \<longrightarrow> distinct (map ch_id (filter numbered (ob_channels s))))
    \<and> list_all (\<lambda>c. ch_stage c = Ch_ended \<longrightarrow>
        channel_over (handle_ssh_channel lib outbound socks_server (ch_extra c)) c) (ob_channels s)"
proof -
  from run_outbound_ok [of lib outbound socks_server ms]
  have acc: "accounted (ob_count s) (ob_channels s)"
    and ok: "\<forall>c \<in> set (ob_channels s). channel_ok (handle_ssh_channel lib outbound socks_server) c"
    by (simp_all add: outbound_ok_def s_def)
  from ok have "\<forall>c \<in> set (ob_channels s). ch_stage c = Ch_ended \<longrightarrow>
      channel_over (handle_ssh_channel lib outbound socks_server (ch_extra c)) c"
    by (auto simp: channel_ok_def Let_def)
  with acc accounted_ids [OF acc] show ?thesis by (simp add: accounted_def list_all_iff)
qed

text \<open>Two channels are served side by side, a third asks for SOCKS and is rejected.\<close>

definition demo_moves :: "outbound_move list" where
  "demo_moves = [Channel_arrives ''db:5432'', Channel_arrives ''web:80'', Channel_arrives ''socks'',
     Channel_moves 1 None, Channel_moves 0 None, Channel_moves 1 None, Channel_moves 2 None,
     Channel_moves 0 None, Channel_moves 0 None, Channel_moves 1 None]"

theorem channels_accounted_witness:
  "let s = run_outbound \<lparr>uni_lower = id, url_parse_ok = \<lambda>_. True\<rparr> True False demo_moves
   in cc_open (ob_count s) = 2 \<and> map ch_id (filter numbered (ob_channels s)) = [2, 1]
     \<and> distinct (map ch_id (filter numbered (ob_channels s)))
     \<and> channel_over (Reject_channel ''SOCKS5 is not enabled'') (ob_channels s ! 2)"
proof -
  let ?lib = "\<lparr>uni_lower = id, url_parse_ok = \<lambda>_. True\<rparr>"
  let ?s = "run_outbound ?lib True False demo_moves"
  have len: "length (ob_channels ?s) = 3" "length (filter being_served (ob_channels ?s)) = 2"
      "map ch_id (filter numbered (ob_channels ?s)) = [2, 1]" "ch_stage (ob_channels ?s ! 2) = Ch_ended"
      "handle_ssh_channel ?lib True False (ch_extra (ob_channels ?s ! 2)) = Reject_channel ''SOCKS5 is not enabled''"
    by code_simp+
  from channels_accounted [where lib = ?lib and outbound = True and socks_server = False and ms = demo_moves] len(1)
  have all: "cc_open (ob_count ?s) = of_nat (length (filter being_served (ob_channels ?s)))"
      "distinct (map ch_id (filter numbered (ob_channels ?s)))"
    and over: "list_all (\<lambda>c. ch_stage c = Ch_ended \<longrightarrow>
      channel_over (handle_ssh_channel ?lib True False (ch_extra c)) c) (ob_channels ?s)" by simp_all
  from over len(1) have "ch_stage (ob_channels ?s ! 2) = Ch_ended \<longrightarrow>
      channel_over (handle_ssh_channel ?lib True False (ch_extra (ob_channels ?s ! 2))) (ob_channels ?s ! 2)"
    unfolding list_all_length by (metis less_add_one numeral_2_eq_2 numeral_3_eq_3 lessI)
  with all len show ?thesis by (simp add: Let_def)
qed

end
