(* ===== verification/Uds_Pair.thy ===== *)
theory Uds_Pair
  imports Chisel_Prelude
begin

text \<open>
  \<^verbatim>\<open>share/tunnel/tunnel_in_proxy_uds_pair.go\<close>: the registry that pairs the proxies waiting on the
  same socket path. A proxy that arrives takes the first waiter of its path, or waits; one
  whose context is cancelled while it waits removes itself. The operations hold the registry's
  lock, so a run is a list of them. Waiters are numbers.
\<close>

type_synonym registry = "nat list go_map"

text \<open>The locked part of \<^verbatim>\<open>run\<close>: the new registry and the waiter that was taken, if any.\<close>

definition pair_arrive :: "string \<Rightarrow> nat \<Rightarrow> registry \<Rightarrow> registry \<times> nat option" where
  "pair_arrive path self r =
     (let queue = (case map_get r path of None \<Rightarrow> [] | Some q \<Rightarrow> q)
      in if length queue > 0 then (map_set path (tl queue) r, Some (hd queue))
         else (map_set path (queue @ [self]) r, None))"

text \<open>The loop of \<^verbatim>\<open>removeWaiter\<close>: the queue without its first occurrence of the waiter.\<close>

fun drop_waiter :: "nat \<Rightarrow> nat list \<Rightarrow> nat list option" where
  "drop_waiter w [] = None"
| "drop_waiter w (x # xs) = (if x = w then Some xs else map_option (Cons x) (drop_waiter w xs))"

definition remove_waiter :: "string \<Rightarrow> nat \<Rightarrow> registry \<Rightarrow> registry" where
  "remove_waiter path w r =
     (case drop_waiter w (case map_get r path of None \<Rightarrow> [] | Some q \<Rightarrow> q) of
        None \<Rightarrow> r
      | Some q \<Rightarrow> (let r = map_set path q r in if length q = 0 then map_del path r else r))"

subsection \<open>Runs\<close>

definition waiting :: "registry \<Rightarrow> string \<Rightarrow> nat list" where
  "waiting r path = (case map_get r path of None \<Rightarrow> [] | Some q \<Rightarrow> q)"

lemma drop_waiter_remove1: "drop_waiter w xs = (if w \<in> set xs then Some (remove1 w xs) else None)"
  by (induction xs) auto

lemma waiting_remove [simp]:
  "waiting (remove_waiter path w r) p = (if p = path then remove1 w (waiting r path) else waiting r p)"
  by (auto simp: remove_waiter_def waiting_def drop_waiter_remove1 Let_def remove1_idem split: option.splits)

lemma pair_arriveE:
  assumes "pair_arrive path w r = (r', m)"
  obtains (waits) "waiting r path = []" "m = None"
      "\<And>p. waiting r' p = (if p = path then [w] else waiting r p)"
  | (takes) q qs where "waiting r path = q # qs" "m = Some q"
      "\<And>p. waiting r' p = (if p = path then qs else waiting r p)"
proof (cases "waiting r path")
  case Nil
  with assms show thesis
    by (intro waits) (auto simp: pair_arrive_def waiting_def Let_def split: option.splits)
next
  case (Cons q qs)
  with assms show thesis
    by (intro takes [of q qs]) (auto simp: pair_arrive_def waiting_def Let_def split: option.splits)
qed

text \<open>
  The state of a run: the registry, the pairs made with their path, the proxies that have arrived,
  each a new one, and those that took themselves out of the registry while they waited.
\<close>

record pairing =
  pr_registry :: registry
  pr_pairs :: "(string \<times> nat \<times> nat) list"
  pr_arrived :: "(string \<times> nat) list"
  pr_cancelled :: "nat list"

inductive pair_reachable :: "pairing \<Rightarrow> bool" where
  start: "pair_reachable \<lparr>pr_registry = [], pr_pairs = [], pr_arrived = [], pr_cancelled = []\<rparr>"
| arrive: "pair_reachable s \<Longrightarrow> w \<notin> snd ` set (pr_arrived s) \<Longrightarrow>
    pair_arrive path w (pr_registry s) = (r', m) \<Longrightarrow>
    pair_reachable (s\<lparr>pr_registry := r',
      pr_pairs := pr_pairs s @ (case m of None \<Rightarrow> [] | Some peer \<Rightarrow> [(path, peer, w)]),
      pr_arrived := pr_arrived s @ [(path, w)]\<rparr>)"
| cancel: "pair_reachable s \<Longrightarrow>
    pair_reachable (s\<lparr>pr_registry := remove_waiter path w (pr_registry s),
      pr_cancelled := pr_cancelled s @ (if w \<in> set (waiting (pr_registry s) path) then [w] else [])\<rparr>)"

definition paired :: "(string \<times> nat \<times> nat) list \<Rightarrow> nat list" where
  "paired ms = concat (map (\<lambda>(p, a, b). [a, b]) ms)"

lemma paired_simps [simp]:
  "paired [] = []" "paired (xs @ ys) = paired xs @ paired ys" "paired ((p, a, b) # ms) = a # b # paired ms"
  by (simp_all add: paired_def)

text \<open>The proxies that arrived for a path, in order.\<close>

definition arrivals :: "pairing \<Rightarrow> string \<Rightarrow> nat list" where
  "arrivals s p = map snd (filter (\<lambda>x. fst x = p) (pr_arrived s))"

lemma arrivals_simps [simp]:
  "arrivals (s\<lparr>pr_registry := r, pr_pairs := ms, pr_arrived := pr_arrived s @ [(q, w)]\<rparr>) p =
     arrivals s p @ (if p = q then [w] else [])"
  "arrivals (s\<lparr>pr_registry := r, pr_arrived := pr_arrived s @ [(q, w)]\<rparr>) p =
     arrivals s p @ (if p = q then [w] else [])"
  "arrivals (s\<lparr>pr_registry := r, pr_cancelled := c\<rparr>) p = arrivals s p"
  by (auto simp: arrivals_def)

definition all_waiting :: "pairing \<Rightarrow> nat set" where
  "all_waiting s = (\<Union>p. set (waiting (pr_registry s) p))"

definition pairing_ok :: "pairing \<Rightarrow> bool" where
  "pairing_ok s \<longleftrightarrow>
     (\<forall>p. length (waiting (pr_registry s) p) \<le> 1) \<and>
     (\<forall>p. \<forall>w \<in> set (waiting (pr_registry s) p). (p, w) \<in> set (pr_arrived s) \<and> w \<notin> set (paired (pr_pairs s))) \<and>
     (\<forall>(p, a, b) \<in> set (pr_pairs s). (p, a) \<in> set (pr_arrived s) \<and> (p, b) \<in> set (pr_arrived s)) \<and>
     distinct (paired (pr_pairs s)) \<and> set (paired (pr_pairs s)) \<subseteq> snd ` set (pr_arrived s) \<and>
     inj_on snd (set (pr_arrived s))"

lemma pair_reachable_ok: "pair_reachable s \<Longrightarrow> pairing_ok s"
proof (induction rule: pair_reachable.induct)
  case start
  then show ?case by (simp add: pairing_ok_def waiting_def)
next
  case (cancel s w path)
  then show ?case by (auto simp: pairing_ok_def length_remove1 dest: set_remove1_subset [THEN subsetD])
next
  case (arrive s w path r' m)
  note ok = arrive.IH [unfolded pairing_ok_def]
  have len: "length (waiting (pr_registry s) path) \<le> 1" using ok by blast
  have fresh: "w \<notin> set (paired (pr_pairs s))" using ok arrive.hyps(2) by blast
  have inj: "inj_on snd (insert (path, w) (set (pr_arrived s)))"
    using ok arrive.hyps(2) by (auto simp: inj_on_insert image_iff)
  from arrive.hyps(3) show ?case
  proof (cases rule: pair_arriveE)
    case waits
    with ok fresh inj show ?thesis by (auto simp: pairing_ok_def)
  next
    case (takes q qs)
    then have qs: "qs = []" using len by simp
    have "q \<in> set (waiting (pr_registry s) path)" using takes(1) by simp
    then have q: "(path, q) \<in> set (pr_arrived s)" "q \<notin> set (paired (pr_pairs s))" using ok by blast+
    then have "q \<noteq> w" using arrive.hyps(2) by force
    moreover have "w' \<noteq> q \<and> w' \<noteq> w" if "p \<noteq> path" "w' \<in> set (waiting (pr_registry s) p)" for p w'
    proof -
      have "(p, w') \<in> set (pr_arrived s)" using ok that(2) by blast
      moreover from this have "w' \<noteq> w" using arrive.hyps(2) by force
      moreover have "inj_on snd (set (pr_arrived s))" using ok by blast
      ultimately show ?thesis using that(1) inj_onD [of snd "set (pr_arrived s)" "(p, w')" "(path, q)"] q(1) by auto
    qed
    ultimately show ?thesis
      using ok fresh inj takes qs q image_eqI [of q snd "(path, q)", OF _ q(1)]
      by (auto simp: pairing_ok_def)
  qed
qed

text \<open>
  Who waits on a path is its latest arrival, and the pairs of a path are made of arrivals that follow
  each other.
\<close>

definition pairing_orderly :: "pairing \<Rightarrow> bool" where
  "pairing_orderly s \<longleftrightarrow>
     (\<forall>p w. waiting (pr_registry s) p = [w] \<longrightarrow> (\<exists>xs. arrivals s p = xs @ [w])) \<and>
     (\<forall>(p, a, b) \<in> set (pr_pairs s). \<exists>xs ys. arrivals s p = xs @ [a, b] @ ys)"

lemma short_list: "length xs \<le> 1 \<Longrightarrow> xs = [] \<or> (\<exists>x. xs = [x])"
  by (cases xs) auto

lemma pair_reachable_orderly: "pair_reachable s \<Longrightarrow> pairing_orderly s"
proof (induction rule: pair_reachable.induct)
  case start
  then show ?case by (simp add: pairing_orderly_def waiting_def)
next
  case (cancel s w path)
  have len: "length (waiting (pr_registry s) p) \<le> 1" for p
    using pair_reachable_ok [OF cancel.hyps] by (simp add: pairing_ok_def)
  have "remove1 w (waiting (pr_registry s) path) = [v] \<Longrightarrow> waiting (pr_registry s) path = [v]" for v
    using short_list [OF len [of path]] by (auto split: if_splits)
  with cancel.IH show ?case by (auto simp: pairing_orderly_def split: if_splits)
next
  case (arrive s w path r' m)
  let ?s = "s\<lparr>pr_registry := r', pr_pairs := pr_pairs s @ (case m of None \<Rightarrow> [] | Some peer \<Rightarrow> [(path, peer, w)]),
      pr_arrived := pr_arrived s @ [(path, w)]\<rparr>"
  note old = arrive.IH [unfolded pairing_orderly_def]
  have kept: "\<exists>xs ys. arrivals ?s p = xs @ [a, b] @ ys" if mem: "(p, a, b) \<in> set (pr_pairs s)" for p a b
  proof -
    from old mem obtain xs ys where "arrivals s p = xs @ [a, b] @ ys" by blast
    then have "arrivals ?s p = xs @ [a, b] @ (ys @ (if p = path then [w] else []))" by simp
    then show ?thesis by blast
  qed
  from arrive.hyps(3) show ?case
  proof (cases rule: pair_arriveE)
    case waits
    with old kept show ?thesis by (auto simp: pairing_orderly_def)
  next
    case (takes q qs)
    have "length (waiting (pr_registry s) path) \<le> 1"
      using pair_reachable_ok [OF arrive.hyps(1)] by (simp add: pairing_ok_def)
    with takes(1) have "qs = []" "waiting (pr_registry s) path = [q]" by simp_all
    with old obtain xs where "arrivals s path = xs @ [q]" by blast
    then have "arrivals ?s path = xs @ [q, w] @ []" by simp
    then have new: "\<exists>xs ys. arrivals ?s path = xs @ [q, w] @ ys" by blast
    show ?thesis
      unfolding pairing_orderly_def
    proof (intro conjI)
      show "\<forall>p w. waiting (pr_registry ?s) p = [w] \<longrightarrow> (\<exists>xs. arrivals ?s p = xs @ [w])"
        using old takes \<open>qs = []\<close> by auto
      show "\<forall>(p, a, b) \<in> set (pr_pairs ?s). \<exists>xs ys. arrivals ?s p = xs @ [a, b] @ ys"
        using kept new takes(2) by auto
    qed
  qed
qed

lemma UN_at: "(\<Union>p. A p) = A q \<union> (\<Union>p \<in> - {q}. A p)"
  by blast

text \<open>Each arrival has been paired, waits, or was cancelled while it waited: one of the three.\<close>

definition pairing_complete :: "pairing \<Rightarrow> bool" where
  "pairing_complete s \<longleftrightarrow>
     snd ` set (pr_arrived s) = set (paired (pr_pairs s)) \<union> all_waiting s \<union> set (pr_cancelled s) \<and>
     set (pr_cancelled s) \<inter> (set (paired (pr_pairs s)) \<union> all_waiting s) = {}"

lemma pair_reachable_complete: "pair_reachable s \<Longrightarrow> pairing_complete s"
proof (induction rule: pair_reachable.induct)
  case start
  then show ?case by (simp add: pairing_complete_def all_waiting_def waiting_def)
next
  case (cancel s w path)
  note ok = pair_reachable_ok [OF cancel.hyps, unfolded pairing_ok_def]
  show ?case
  proof (cases "w \<in> set (waiting (pr_registry s) path)")
    case False
    then have "remove1 w (waiting (pr_registry s) path) = waiting (pr_registry s) path" by (simp add: remove1_idem)
    then have "waiting (remove_waiter path w (pr_registry s)) p = waiting (pr_registry s) p" for p by simp
    with False cancel.IH show ?thesis by (simp add: pairing_complete_def all_waiting_def)
  next
    case True
    have "length (waiting (pr_registry s) path) \<le> 1" using ok by blast
    with True have only: "waiting (pr_registry s) path = [w]" using short_list by fastforce
    have elsewhere: "w \<notin> set (waiting (pr_registry s) p)" if "p \<noteq> path" for p
    proof
      assume "w \<in> set (waiting (pr_registry s) p)"
      then have "(p, w) \<in> set (pr_arrived s)" "(path, w) \<in> set (pr_arrived s)" using ok True by blast+
      moreover have "inj_on snd (set (pr_arrived s))" using ok by blast
      ultimately show False using that inj_onD [of snd "set (pr_arrived s)" "(p, w)" "(path, w)"] by simp
    qed
    have before: "all_waiting s = insert w (\<Union>p \<in> - {path}. set (waiting (pr_registry s) p))"
      by (simp add: all_waiting_def UN_at [of _ path] only)
    have gone: "(\<Union>p. set (waiting (remove_waiter path w (pr_registry s)) p))
        = (\<Union>p \<in> - {path}. set (waiting (pr_registry s) p))"
      using only by (simp add: UN_at [of _ path] cong: SUP_cong_simp)
    have "w \<notin> set (paired (pr_pairs s))" using ok True by blast
    moreover have "w \<notin> (\<Union>p \<in> - {path}. set (waiting (pr_registry s) p))" using elsewhere by blast
    moreover have "all_waiting (s\<lparr>pr_registry := remove_waiter path w (pr_registry s), pr_cancelled := pr_cancelled s @ [w]\<rparr>)
        = (\<Union>p \<in> - {path}. set (waiting (pr_registry s) p))"
      unfolding all_waiting_def gone [symmetric] by (simp del: waiting_remove)
    ultimately show ?thesis
      using cancel.IH True unfolding pairing_complete_def before by auto
  qed
next
  case (arrive s w path r' m)
  note ok = pair_reachable_ok [OF arrive.hyps(1), unfolded pairing_ok_def]
  note old = arrive.IH [unfolded pairing_complete_def]
  from arrive.hyps(3) show ?case
  proof (cases rule: pair_arriveE)
    case waits
    have "(\<Union>p. set (waiting r' p)) = insert w (all_waiting s)"
      using waits(1) by (simp add: all_waiting_def waits(3) UN_at [of _ path] cong: SUP_cong_simp)
    with old waits(2) arrive.hyps(2) show ?thesis by (auto simp: pairing_complete_def all_waiting_def)
  next
    case (takes q qs)
    have "length (waiting (pr_registry s) path) \<le> 1" using ok by blast
    with takes(1) have "qs = []" by simp
    have "insert q (\<Union>p. set (waiting r' p)) = all_waiting s"
      using takes(1) \<open>qs = []\<close> by (simp add: all_waiting_def takes(3) UN_at [of _ path] cong: SUP_cong_simp)
    with old takes(2) arrive.hyps(2) show ?thesis by (auto simp: pairing_complete_def all_waiting_def)
  qed
qed

text \<open>
  C28. Pairing is a matching, first come first served. In any order of arrivals and cancellations, at
  most one proxy waits on a path at a time, and it is the latest to arrive there; every pair joins
  two different proxies that arrived for the same path, the second of them the very next to arrive
  there after the first; no proxy is ever paired twice. And none is lost: each proxy that
  arrived has been paired, or still waits, or was cancelled while it waited, and only one of these.
\<close>

theorem pairing_is_matching:
  assumes "pair_reachable s"
  shows "length (waiting (pr_registry s) path) \<le> 1
    \<and> (\<forall>w \<in> set (waiting (pr_registry s) path). \<exists>xs. arrivals s path = xs @ [w])
    \<and> (\<forall>(p, a, b) \<in> set (pr_pairs s). a \<noteq> b \<and> (p, a) \<in> set (pr_arrived s) \<and> (p, b) \<in> set (pr_arrived s)
         \<and> (\<exists>xs ys. arrivals s p = xs @ [a, b] @ ys))
    \<and> distinct (paired (pr_pairs s))
    \<and> set (waiting (pr_registry s) path) \<inter> set (paired (pr_pairs s)) = {}
    \<and> (\<forall>w. w \<in> snd ` set (pr_arrived s) \<longleftrightarrow>
         w \<in> set (paired (pr_pairs s)) \<or> (\<exists>p. w \<in> set (waiting (pr_registry s) p)) \<or> w \<in> set (pr_cancelled s))
    \<and> (\<forall>w \<in> set (pr_cancelled s). w \<notin> set (paired (pr_pairs s)) \<and> (\<forall>p. w \<notin> set (waiting (pr_registry s) p)))"
proof -
  note ok = pair_reachable_ok [OF assms, unfolded pairing_ok_def]
  note orderly = pair_reachable_orderly [OF assms, unfolded pairing_orderly_def]
  note complete = pair_reachable_complete [OF assms, unfolded pairing_complete_def all_waiting_def]
  have differ: "a \<noteq> b" if mem: "(p, a, b) \<in> set (pr_pairs s)" for p a b
  proof -
    obtain xs ys where "pr_pairs s = xs @ (p, a, b) # ys" using split_list [OF mem] by blast
    moreover have "distinct (paired (pr_pairs s))" using ok by blast
    ultimately show ?thesis by simp
  qed
  have latest: "\<exists>xs. arrivals s path = xs @ [w]" if mem: "w \<in> set (waiting (pr_registry s) path)" for w
  proof -
    have "length (waiting (pr_registry s) path) \<le> 1" using ok by blast
    with mem have "waiting (pr_registry s) path = [w]" using short_list by fastforce
    with orderly show ?thesis by blast
  qed
  have pairs: "a \<noteq> b \<and> (p, a) \<in> set (pr_arrived s) \<and> (p, b) \<in> set (pr_arrived s)
      \<and> (\<exists>xs ys. arrivals s p = xs @ [a, b] @ ys)" if mem: "(p, a, b) \<in> set (pr_pairs s)" for p a b
    using differ [OF mem] ok orderly mem by blast
  show ?thesis
  proof (intro conjI)
    show "length (waiting (pr_registry s) path) \<le> 1" "distinct (paired (pr_pairs s))"
      "set (waiting (pr_registry s) path) \<inter> set (paired (pr_pairs s)) = {}" using ok by blast+
    show "\<forall>w \<in> set (waiting (pr_registry s) path). \<exists>xs. arrivals s path = xs @ [w]" using latest by blast
    show "\<forall>(p, a, b) \<in> set (pr_pairs s). a \<noteq> b \<and> (p, a) \<in> set (pr_arrived s) \<and> (p, b) \<in> set (pr_arrived s)
         \<and> (\<exists>xs ys. arrivals s p = xs @ [a, b] @ ys)" using pairs by blast
  qed (use complete in blast)+
qed

theorem pairing_is_matching_witness:
  "\<exists>s. pair_reachable s \<and> pr_pairs s = [(''/s'', 1, 2)] \<and> waiting (pr_registry s) ''/s'' = [4]
    \<and> pr_cancelled s = [3] \<and> arrivals s ''/s'' = [1, 2, 3, 4]
    \<and> (\<exists>xs ys. arrivals s ''/s'' = xs @ [1, 2] @ ys)"
proof -
  let ?s1 = "\<lparr>pr_registry = [(''/s'', [1])], pr_pairs = [], pr_arrived = [(''/s'', 1)], pr_cancelled = []\<rparr>"
  let ?s2 = "\<lparr>pr_registry = [(''/s'', [])], pr_pairs = [(''/s'', 1, 2)],
     pr_arrived = [(''/s'', 1), (''/s'', 2)], pr_cancelled = []\<rparr>"
  let ?s3 = "\<lparr>pr_registry = [(''/s'', [3])], pr_pairs = [(''/s'', 1, 2)],
     pr_arrived = [(''/s'', 1), (''/s'', 2), (''/s'', 3)], pr_cancelled = []\<rparr>"
  let ?s4 = "\<lparr>pr_registry = [], pr_pairs = [(''/s'', 1, 2)],
     pr_arrived = [(''/s'', 1), (''/s'', 2), (''/s'', 3)], pr_cancelled = [3]\<rparr>"
  let ?s5 = "\<lparr>pr_registry = [(''/s'', [4])], pr_pairs = [(''/s'', 1, 2)],
     pr_arrived = [(''/s'', 1), (''/s'', 2), (''/s'', 3), (''/s'', 4)], pr_cancelled = [3]\<rparr>"
  have "pair_reachable ?s1"
    using pair_reachable.arrive [OF pair_reachable.start, of 1 "''/s''"] by (simp add: pair_arrive_def)
  from pair_reachable.arrive [OF this, of 2 "''/s''"] have "pair_reachable ?s2"
    by (simp add: pair_arrive_def)
  from pair_reachable.arrive [OF this, of 3 "''/s''"] have "pair_reachable ?s3"
    by (simp add: pair_arrive_def)
  from pair_reachable.cancel [OF this, of 3 "''/s''"] have "pair_reachable ?s4"
    by (simp add: remove_waiter_def waiting_def Let_def)
  from pair_reachable.arrive [OF this, of 4 "''/s''"] have r: "pair_reachable ?s5"
    by (simp add: pair_arrive_def)
  from pairing_is_matching [OF r, of "''/s''"] have
    "\<forall>(p, a, b) \<in> set (pr_pairs ?s5). \<exists>xs ys. arrivals ?s5 p = xs @ [a, b] @ ys" by blast
  then have "\<exists>xs ys. arrivals ?s5 ''/s'' = xs @ [1, 2] @ ys" by simp
  with r show ?thesis
    by (intro exI [of _ ?s5]) (simp add: waiting_def arrivals_def)
qed

end
