(* ===== verification/Uds_Wait.thy ===== *)
theory Uds_Wait
  imports Uds_Pair
begin

text \<open>
  The goroutines of \<^verbatim>\<open>udsPairRegistry.run\<close> (\<^verbatim>\<open>share/tunnel/tunnel_in_proxy_uds_pair.go\<close>): a proxy arrives
  and either relays to the waiter it took or waits; a waiter selects between its match and its
  cancellation, and once matched between the end of the relay and its cancellation. A session is
  named by the proxy that relays it, because the channel \<^verbatim>\<open>done\<close> is its own.
\<close>

datatype uds_stage =
    Uds_new
  | Uds_waiting
  | Uds_in_session nat
  | Uds_relaying nat
  | Uds_returned

record uds_life =
  ul_registry :: registry
  ul_stage :: "nat \<Rightarrow> uds_stage"
  ul_matched :: "nat \<Rightarrow> nat option"
  ul_ended :: "nat list"
  ul_cancelled :: "nat list"

definition new_uds_life :: uds_life where
  "new_uds_life = \<lparr>ul_registry = [], ul_stage = (\<lambda>_. Uds_new), ul_matched = (\<lambda>_. None),
     ul_ended = [], ul_cancelled = []\<rparr>"

datatype uds_move =
    Uds_arrives nat
  | Uds_selects nat bool
  | Uds_relay_ends nat
  | Uds_cancels nat

text \<open>The part of \<^verbatim>\<open>run\<close> under the lock: the match is sent to the waiter before the lock is released.\<close>

definition uds_arrives :: "(nat \<Rightarrow> string) \<Rightarrow> nat \<Rightarrow> uds_life \<Rightarrow> uds_life" where
  "uds_arrives path w s =
     (if ul_stage s w \<noteq> Uds_new then s
      else (case pair_arrive (path w) w (ul_registry s) of
              (r, Some peer) \<Rightarrow>
                s\<lparr>ul_registry := r, ul_stage := (ul_stage s)(w := Uds_relaying peer),
                  ul_matched := (ul_matched s)(peer := Some w)\<rparr>
            | (r, None) \<Rightarrow> s\<lparr>ul_registry := r, ul_stage := (ul_stage s)(w := Uds_waiting)\<rparr>))"

text \<open>
  The two selects of a waiter. When both of its channels are ready either may be chosen: the
  parameter says whether it is the match.
\<close>

definition uds_selects :: "(nat \<Rightarrow> string) \<Rightarrow> nat \<Rightarrow> bool \<Rightarrow> uds_life \<Rightarrow> uds_life" where
  "uds_selects path w prefer s =
     (case ul_stage s w of
        Uds_waiting \<Rightarrow>
          (case ul_matched s w of
             Some v \<Rightarrow>
               if w \<in> set (ul_cancelled s) \<and> \<not> prefer
               then s\<lparr>ul_registry := remove_waiter (path w) w (ul_registry s),
                      ul_stage := (ul_stage s)(w := Uds_returned)\<rparr>
               else s\<lparr>ul_stage := (ul_stage s)(w := Uds_in_session v)\<rparr>
           | None \<Rightarrow>
               if w \<in> set (ul_cancelled s)
               then s\<lparr>ul_registry := remove_waiter (path w) w (ul_registry s),
                      ul_stage := (ul_stage s)(w := Uds_returned)\<rparr>
               else s)
      | Uds_in_session v \<Rightarrow>
          if v \<in> set (ul_ended s) \<or> w \<in> set (ul_cancelled s)
          then s\<lparr>ul_stage := (ul_stage s)(w := Uds_returned)\<rparr> else s
      | _ \<Rightarrow> s)"

text \<open>The relay returns, and the deferred closing of \<^verbatim>\<open>done\<close> tells the waiter.\<close>

definition uds_relay_ends :: "nat \<Rightarrow> uds_life \<Rightarrow> uds_life" where
  "uds_relay_ends w s =
     (case ul_stage s w of
        Uds_relaying peer \<Rightarrow> s\<lparr>ul_stage := (ul_stage s)(w := Uds_returned), ul_ended := w # ul_ended s\<rparr>
      | _ \<Rightarrow> s)"

fun uds_step :: "(nat \<Rightarrow> string) \<Rightarrow> uds_move \<Rightarrow> uds_life \<Rightarrow> uds_life" where
  "uds_step path (Uds_arrives w) s = uds_arrives path w s"
| "uds_step path (Uds_selects w prefer) s = uds_selects path w prefer s"
| "uds_step path (Uds_relay_ends w) s = uds_relay_ends w s"
| "uds_step path (Uds_cancels w) s = s\<lparr>ul_cancelled := w # ul_cancelled s\<rparr>"

definition run_uds :: "(nat \<Rightarrow> string) \<Rightarrow> uds_move list \<Rightarrow> uds_life" where
  "run_uds path ms = fold (uds_step path) ms new_uds_life"

subsection \<open>Nobody waits unseen\<close>

text \<open>
  What every step keeps: the queues hold exactly the waiters that have no match; a match joins two
  proxies of a path, the second of which relays until its relay ends; a proxy that has returned had a
  reason to.
\<close>

definition uds_queues_ok :: "(nat \<Rightarrow> string) \<Rightarrow> uds_life \<Rightarrow> bool" where
  "uds_queues_ok path s \<longleftrightarrow>
     (\<forall>p. distinct (waiting (ul_registry s) p)) \<and>
     (\<forall>p w. w \<in> set (waiting (ul_registry s) p) \<longleftrightarrow>
        path w = p \<and> ul_stage s w = Uds_waiting \<and> ul_matched s w = None)"

definition uds_stage_ok :: "(nat \<Rightarrow> string) \<Rightarrow> uds_life \<Rightarrow> nat \<Rightarrow> bool" where
  "uds_stage_ok path s w \<longleftrightarrow>
     (case ul_stage s w of
        Uds_new \<Rightarrow> ul_matched s w = None
      | Uds_waiting \<Rightarrow> True
      | Uds_in_session v \<Rightarrow> ul_matched s w = Some v
      | Uds_relaying v \<Rightarrow> ul_matched s v = Some w \<and> ul_matched s w = None
      | Uds_returned \<Rightarrow> w \<in> set (ul_ended s) \<or> w \<in> set (ul_cancelled s)
          \<or> (\<exists>v. ul_matched s w = Some v \<and> v \<in> set (ul_ended s))) \<and>
     (\<forall>v. ul_matched s w = Some v \<longrightarrow>
        v \<noteq> w \<and> path v = path w \<and> (ul_stage s v = Uds_relaying w \<or> v \<in> set (ul_ended s))) \<and>
     (w \<in> set (ul_ended s) \<longrightarrow> ul_stage s w = Uds_returned)"

definition uds_ok :: "(nat \<Rightarrow> string) \<Rightarrow> uds_life \<Rightarrow> bool" where
  "uds_ok path s \<longleftrightarrow> uds_queues_ok path s \<and> (\<forall>w. uds_stage_ok path s w)"

lemma new_uds_ok: "uds_ok path new_uds_life"
  by (simp add: uds_ok_def uds_queues_ok_def uds_stage_ok_def new_uds_life_def waiting_def)

lemma uds_okD:
  assumes "uds_ok path s"
  shows "distinct (waiting (ul_registry s) p)"
    and "w \<in> set (waiting (ul_registry s) p) \<longleftrightarrow>
      path w = p \<and> ul_stage s w = Uds_waiting \<and> ul_matched s w = None"
    and "uds_stage_ok path s w"
  using assms by (simp_all add: uds_ok_def uds_queues_ok_def)

lemma uds_match:
  assumes "uds_ok path s" and "ul_matched s w = Some v"
  shows "v \<noteq> w \<and> path v = path w \<and> (ul_stage s v = Uds_relaying w \<or> v \<in> set (ul_ended s))"
  using uds_okD(3) [OF assms(1), of w] assms(2) unfolding uds_stage_ok_def by blast

lemma uds_unmatched:
  assumes "uds_ok path s" and "ul_stage s w \<in> {Uds_new, Uds_waiting} \<union> range Uds_in_session"
  shows "ul_matched s v \<noteq> Some w" and "w \<notin> set (ul_ended s)"
  using uds_okD(3) [OF assms(1), of v] uds_okD(3) [OF assms(1), of w] assms(2)
  by (auto simp: uds_stage_ok_def)

lemma uds_arrives_ok:
  assumes ok: "uds_ok path s"
  shows "uds_ok path (uds_arrives path w s)"
proof (cases "ul_stage s w = Uds_new")
  case new: True
  obtain r m where arr: "pair_arrive (path w) w (ul_registry s) = (r, m)"
    by (cases "pair_arrive (path w) w (ul_registry s)")
  note queue = uds_okD(2) [OF ok] and stage = uds_okD(3) [OF ok, unfolded uds_stage_ok_def]
  have w: "ul_matched s w = None" "w \<notin> set (ul_ended s)" using stage [of w] new by auto
  have unmatched: "ul_matched s v \<noteq> Some w" for v using uds_unmatched(1) [OF ok] new by simp
  from arr show ?thesis
  proof (cases rule: pair_arriveE)
    case waits
    let ?s = "s\<lparr>ul_registry := r, ul_stage := (ul_stage s)(w := Uds_waiting)\<rparr>"
    have res: "uds_arrives path w s = ?s" using new arr waits(2) by (simp add: uds_arrives_def)
    have "ul_matched s v \<noteq> None" if "path v = path w" "ul_stage s v = Uds_waiting" for v
      using queue [of v "path w"] waits(1) that by simp
    then have "uds_queues_ok path ?s"
      using uds_okD(1) [OF ok] queue waits(1,3) w by (auto simp: uds_queues_ok_def)
    moreover have "uds_stage_ok path ?s v" for v
      using stage [of v] w unmatched [of v] new
      by (auto simp: uds_stage_ok_def split: uds_stage.splits)
    ultimately show ?thesis by (simp add: res uds_ok_def)
  next
    case (takes q qs)
    let ?s = "s\<lparr>ul_registry := r, ul_stage := (ul_stage s)(w := Uds_relaying q),
      ul_matched := (ul_matched s)(q := Some w)\<rparr>"
    have res: "uds_arrives path w s = ?s" using new arr takes(2) by (simp add: uds_arrives_def)
    have q: "path q = path w" "ul_stage s q = Uds_waiting" "ul_matched s q = None"
      using queue [of q "path w"] takes(1) by auto
    have qw: "q \<noteq> w" using q(2) new by auto
    have fresh: "q \<notin> set qs" using uds_okD(1) [OF ok, of "path w"] takes(1) by simp
    have in_qs: "v \<in> set qs \<longleftrightarrow> v \<noteq> q \<and> path v = path w \<and> ul_stage s v = Uds_waiting \<and> ul_matched s v = None" for v
      using queue [of v "path w"] takes(1) fresh by auto
    have "uds_queues_ok path ?s"
      unfolding uds_queues_ok_def
    proof (intro conjI allI)
      fix p v
      show "distinct (waiting (ul_registry ?s) p)"
        using uds_okD(1) [OF ok, of p] uds_okD(1) [OF ok, of "path w"] takes(1,3) by simp
      show "v \<in> set (waiting (ul_registry ?s) p) \<longleftrightarrow>
          path v = p \<and> ul_stage ?s v = Uds_waiting \<and> ul_matched ?s v = None"
        using queue [of v p] in_qs [of v] takes(3) new q(1) by auto
    qed
    moreover have "uds_stage_ok path ?s v" for v
    proof -
      consider "v = w" | "v = q" | "v \<noteq> w" "v \<noteq> q" by blast
      then show ?thesis
      proof cases
        case 1
        with w qw show ?thesis by (simp add: uds_stage_ok_def)
      next
        case 2
        have "q \<notin> set (ul_ended s)" using uds_unmatched(2) [OF ok] q(2) by simp
        with 2 q(1,2) qw show ?thesis by (simp add: uds_stage_ok_def)
      next
        case 3
        with stage [of v] unmatched [of v] q(3) show ?thesis
          by (simp add: uds_stage_ok_def split: uds_stage.splits) (metis option.distinct(1))
      qed
    qed
    ultimately show ?thesis by (simp add: res uds_ok_def)
  qed
next
  case False
  with ok show ?thesis by (simp add: uds_arrives_def)
qed

lemma uds_leaves_ok:
  assumes ok: "uds_ok path s" and w: "ul_stage s w = Uds_waiting" "w \<in> set (ul_cancelled s)"
  shows "uds_ok path (s\<lparr>ul_registry := remove_waiter (path w) w (ul_registry s),
    ul_stage := (ul_stage s)(w := Uds_returned)\<rparr>)" (is "uds_ok path ?s")
proof -
  note queue = uds_okD(2) [OF ok] and stage = uds_okD(3) [OF ok, unfolded uds_stage_ok_def]
  have "uds_queues_ok path ?s"
    using uds_okD(1) [OF ok] queue w(1) by (auto simp: uds_queues_ok_def distinct_remove1 dest: distinct_remove1)
  moreover have "uds_stage_ok path ?s v" for v
    using stage [of v] w uds_unmatched [OF ok, of w] by (auto simp: uds_stage_ok_def split: uds_stage.splits)
  ultimately show ?thesis by (simp add: uds_ok_def)
qed

lemma uds_stage_update_ok:
  assumes ok: "uds_ok path s" and w: "ul_stage s w = old" and new: "new \<noteq> Uds_waiting"
    and queued: "old = Uds_waiting \<Longrightarrow> ul_matched s w \<noteq> None"
    and keeps: "\<And>v. uds_stage_ok path (s\<lparr>ul_stage := (ul_stage s)(w := new)\<rparr>) v"
  shows "uds_ok path (s\<lparr>ul_stage := (ul_stage s)(w := new)\<rparr>)"
proof -
  have "uds_queues_ok path (s\<lparr>ul_stage := (ul_stage s)(w := new)\<rparr>)"
    using uds_okD(1,2) [OF ok] w new queued by (auto simp: uds_queues_ok_def)
  with keeps show ?thesis by (simp add: uds_ok_def)
qed

lemma uds_selects_ok:
  assumes ok: "uds_ok path s"
  shows "uds_ok path (uds_selects path w prefer s)"
proof -
  note stage = uds_okD(3) [OF ok, unfolded uds_stage_ok_def]
  let ?leaves = "s\<lparr>ul_registry := remove_waiter (path w) w (ul_registry s),
    ul_stage := (ul_stage s)(w := Uds_returned)\<rparr>"
  show ?thesis
  proof (cases "ul_stage s w")
    case Uds_waiting
    have leaves: "uds_ok path ?leaves" if "w \<in> set (ul_cancelled s)"
      using uds_leaves_ok [OF ok Uds_waiting that] .
    show ?thesis
    proof (cases "ul_matched s w")
      case None
      with Uds_waiting ok leaves show ?thesis by (simp add: uds_selects_def)
    next
      case (Some v)
      have "uds_stage_ok path (s\<lparr>ul_stage := (ul_stage s)(w := Uds_in_session v)\<rparr>) u" for u
        using stage [of u] Some Uds_waiting uds_unmatched [OF ok, of w]
        by (auto simp: uds_stage_ok_def split: uds_stage.splits)
      with uds_stage_update_ok [OF ok Uds_waiting, of "Uds_in_session v"] Some
      have "uds_ok path (s\<lparr>ul_stage := (ul_stage s)(w := Uds_in_session v)\<rparr>)" by simp
      with Uds_waiting Some leaves show ?thesis by (simp add: uds_selects_def)
    qed
  next
    case (Uds_in_session v)
    show ?thesis
    proof (cases "v \<in> set (ul_ended s) \<or> w \<in> set (ul_cancelled s)")
      case True
      have "uds_stage_ok path (s\<lparr>ul_stage := (ul_stage s)(w := Uds_returned)\<rparr>) u" for u
        using stage [of u] stage [of w] Uds_in_session True uds_unmatched [OF ok, of w]
        by (auto simp: uds_stage_ok_def split: uds_stage.splits)
      with uds_stage_update_ok [OF ok Uds_in_session, of Uds_returned] True Uds_in_session
      show ?thesis by (simp add: uds_selects_def)
    qed (use ok Uds_in_session in \<open>simp add: uds_selects_def\<close>)
  qed (use ok in \<open>simp_all add: uds_selects_def\<close>)
qed

lemma uds_relay_ends_ok:
  assumes ok: "uds_ok path s"
  shows "uds_ok path (uds_relay_ends w s)"
proof (cases "\<exists>peer. ul_stage s w = Uds_relaying peer")
  case True
  then obtain peer where w: "ul_stage s w = Uds_relaying peer" ..
  let ?s = "s\<lparr>ul_stage := (ul_stage s)(w := Uds_returned), ul_ended := w # ul_ended s\<rparr>"
  note stage = uds_okD(3) [OF ok, unfolded uds_stage_ok_def]
  have "uds_queues_ok path ?s" using uds_okD(1,2) [OF ok] w by (auto simp: uds_queues_ok_def)
  moreover have "uds_stage_ok path ?s v" for v
  proof (cases "v = w")
    case True
    have "ul_matched s w = None" using stage [of w, THEN conjunct1] w by simp
    with True show ?thesis by (simp add: uds_stage_ok_def)
  next
    case False
    have "u \<noteq> v \<and> path u = path v \<and> (ul_stage ?s u = Uds_relaying v \<or> u \<in> set (ul_ended ?s))"
      if "ul_matched ?s v = Some u" for u
      using uds_match [OF ok, of v u] that by (cases "u = w") simp_all
    moreover have "case ul_stage ?s v of
        Uds_new \<Rightarrow> ul_matched ?s v = None
      | Uds_waiting \<Rightarrow> True
      | Uds_in_session u \<Rightarrow> ul_matched ?s v = Some u
      | Uds_relaying u \<Rightarrow> ul_matched ?s u = Some v \<and> ul_matched ?s v = None
      | Uds_returned \<Rightarrow> v \<in> set (ul_ended ?s) \<or> v \<in> set (ul_cancelled ?s)
          \<or> (\<exists>u. ul_matched ?s v = Some u \<and> u \<in> set (ul_ended ?s))"
      using stage [of v, THEN conjunct1] False by (cases "ul_stage s v") auto
    moreover have "v \<in> set (ul_ended ?s) \<longrightarrow> ul_stage ?s v = Uds_returned"
      using stage [of v] False by simp
    ultimately show ?thesis unfolding uds_stage_ok_def by blast
  qed
  ultimately show ?thesis using w by (simp add: uds_relay_ends_def uds_ok_def)
next
  case False
  with ok show ?thesis by (auto simp: uds_relay_ends_def split: uds_stage.splits)
qed

lemma uds_step_ok: "uds_ok path s \<Longrightarrow> uds_ok path (uds_step path m s)"
proof (cases m)
  case (Uds_cancels w)
  assume ok: "uds_ok path s"
  have "uds_stage_ok path (s\<lparr>ul_cancelled := w # ul_cancelled s\<rparr>) v" for v
    using uds_okD(3) [OF ok, of v] by (auto simp: uds_stage_ok_def split: uds_stage.splits)
  with ok Uds_cancels show ?thesis by (simp add: uds_ok_def uds_queues_ok_def)
qed (simp_all add: uds_arrives_ok uds_selects_ok uds_relay_ends_ok)

lemma run_uds_ok: "uds_ok path (run_uds path ms)"
proof -
  have "uds_ok path (fold (uds_step path) ms s)" if "uds_ok path s" for s
    using that by (induction ms arbitrary: s) (simp_all add: uds_step_ok)
  with new_uds_ok show ?thesis by (simp add: run_uds_def)
qed

text \<open>
  No waiter is lost and none leaves without a reason. In every run of the registry, a proxy that waits
  is either in the queue of its path, where the next one to arrive finds it, or has been matched with a
  proxy of the same path; and a proxy that has returned was cancelled, or relayed a pair, or was in
  a pair whose relay has ended.
\<close>

theorem uds_waiters_accounted:
  "let s = run_uds path ms
   in case ul_stage s w of
        Uds_waiting \<Rightarrow> (case ul_matched s w of
            None \<Rightarrow> w \<in> set (waiting (ul_registry s) (path w))
          | Some v \<Rightarrow> v \<noteq> w \<and> path v = path w)
      | Uds_in_session v \<Rightarrow> v \<noteq> w \<and> path v = path w \<and> (ul_stage s v = Uds_relaying w \<or> v \<in> set (ul_ended s))
      | Uds_returned \<Rightarrow> w \<in> set (ul_cancelled s) \<or> w \<in> set (ul_ended s)
          \<or> (\<exists>v. ul_matched s w = Some v \<and> v \<in> set (ul_ended s))
      | _ \<Rightarrow> True"
proof -
  let ?s = "run_uds path ms"
  note queue = uds_okD(2) [where s = ?s and path = path and w = w, OF run_uds_ok]
    and stage = uds_okD(3) [where s = ?s and path = path and w = w, OF run_uds_ok, unfolded uds_stage_ok_def]
  show ?thesis
  proof (cases "ul_stage ?s w")
    case Uds_waiting
    show ?thesis
    proof (cases "ul_matched ?s w")
      case None
      with Uds_waiting queue [of "path w"] show ?thesis by (simp add: Let_def)
    next
      case (Some v)
      with Uds_waiting uds_match [OF run_uds_ok Some] show ?thesis by (simp add: Let_def)
    qed
  next
    case (Uds_in_session v)
    then have "ul_matched ?s w = Some v" using stage by simp
    from uds_match [OF run_uds_ok this] Uds_in_session show ?thesis by (simp add: Let_def)
  next
    case Uds_returned
    then show ?thesis using stage by (simp only: Let_def uds_stage.case) blast
  qed (simp_all add: Let_def)
qed

text \<open>
  A waiter that is cancelled after its match may return while its pair is still being relayed: the
  relay watches the context of the proxy that arrived last only.
\<close>

lemma cancelled_waiter_leaves_relay:
  "let s = run_uds (\<lambda>_. ''/run/app.sock'')
     [Uds_arrives 1, Uds_arrives 2, Uds_cancels 1, Uds_selects 1 False]
   in ul_stage s 1 = Uds_returned \<and> ul_stage s 2 = Uds_relaying 1 \<and> ul_ended s = []"
  by code_simp

end
