(* ===== verification/Udp_In.thy ===== *)
theory Udp_In
  imports Udp_Out "HOL-Library.Word"
begin

text \<open>
  \<^verbatim>\<open>share/tunnel/tunnel_in_proxy_udp.go\<close>: the inbound half of a UDP remote. One goroutine reads
  packets from the local socket and sends them over an SSH channel, another writes the packets
  that come back to the address they are for. Both take the channel from a shared, locked
  cache, which opens it when it is empty and is emptied when the SSH connection is lost. A
  channel is a number; what the sockets and channels answer are events. The first error ends
  the other goroutine at the head of its loop. Error texts come without the logger's prefix.
\<close>

datatype in_pc = In_loop | In_send nat udp_packet | In_end

datatype out_pc = Out_loop | Out_read nat | Out_end

record udp_listener =
  ul_mtu :: nat
  ul_outbound :: "nat option"
  ul_opened :: nat
  ul_sent :: "64 word"
  ul_recv :: "64 word"
  ul_in :: in_pc
  ul_out :: out_pc
  ul_err :: "string option"
  ul_wire :: "(nat \<times> udp_packet) list"
  ul_local :: "(string \<times> string) list"

definition new_udp_listener :: "nat \<Rightarrow> udp_listener" where
  "new_udp_listener mtu =
     \<lparr>ul_mtu = mtu, ul_outbound = None, ul_opened = 0, ul_sent = 0, ul_recv = 0, ul_in = In_loop,
      ul_out = Out_loop, ul_err = None, ul_wire = [], ul_local = []\<rparr>"

text \<open>\<^verbatim>\<open>getUDPChan\<close>, given whether there is an SSH connection and the error of opening a channel.\<close>

definition get_udp_chan :: "bool \<Rightarrow> string option \<Rightarrow> udp_listener \<Rightarrow> (string + nat) \<times> udp_listener" where
  "get_udp_chan ssh open_err u =
     (case ul_outbound u of
        Some c \<Rightarrow> (Inr c, u)
      | None \<Rightarrow>
          if \<not> ssh then (Inl ''ssh-conn nil'', u)
          else case open_err of
                 Some e \<Rightarrow> (Inl (''ssh-chan error: '' @ e), u)
               | None \<Rightarrow>
                   (let c = ul_opened u
                    in (Inr c, u\<lparr>ul_outbound := Some c, ul_opened := Suc c\<rparr>)))"

definition unset_udp_chan :: "udp_listener \<Rightarrow> udp_listener" where
  "unset_udp_chan u = u\<lparr>ul_outbound := None\<rparr>"

text \<open>A goroutine that returns an error: the group keeps the first one.\<close>

definition udp_group_err :: "string \<Rightarrow> udp_listener \<Rightarrow> udp_listener" where
  "udp_group_err e u = u\<lparr>ul_err := (case ul_err u of None \<Rightarrow> Some e | Some e' \<Rightarrow> Some e')\<rparr>"

definition udp_done :: "bool \<Rightarrow> udp_listener \<Rightarrow> bool" where
  "udp_done cancelled u \<longleftrightarrow> cancelled \<or> ul_err u \<noteq> None"

subsection \<open>The inbound loop\<close>

datatype local_read = Read_retry | Read_error string | Read_packet string string

text \<open>\<^verbatim>\<open>runInbound\<close> up to the channel; a longer packet is cut to the size of the buffer.\<close>

definition in_read ::
    "bool \<Rightarrow> local_read \<Rightarrow> bool \<Rightarrow> string option \<Rightarrow> udp_listener \<Rightarrow> udp_listener" where
  "in_read cancelled rd ssh open_err u =
     (if ul_in u \<noteq> In_loop then u
      else if udp_done cancelled u then u\<lparr>ul_in := In_end\<rparr>
      else case rd of
             Read_retry \<Rightarrow> u
           | Read_error e \<Rightarrow> udp_group_err (''read error: '' @ e) (u\<lparr>ul_in := In_end\<rparr>)
           | Read_packet addr b \<Rightarrow>
               (case get_udp_chan ssh open_err u of
                  (Inl e, u) \<Rightarrow>
                    if suffix ''EOF'' e then u
                    else udp_group_err (''inbound-udpchan: '' @ e) (u\<lparr>ul_in := In_end\<rparr>)
                | (Inr c, u) \<Rightarrow> u\<lparr>ul_in := In_send c (udp_encode addr (take (ul_mtu u) b))\<rparr>))"

text \<open>The rest of the iteration: the packet is encoded, with the error given, if any.\<close>

definition in_send :: "string option \<Rightarrow> udp_listener \<Rightarrow> udp_listener" where
  "in_send err u =
     (case ul_in u of
        In_send c p \<Rightarrow>
          (case err of
             Some e \<Rightarrow>
               if suffix ''EOF'' e then u\<lparr>ul_in := In_loop\<rparr>
               else udp_group_err (''encode error: '' @ e) (u\<lparr>ul_in := In_end\<rparr>)
           | None \<Rightarrow>
               u\<lparr>ul_wire := ul_wire u @ [(c, p)], ul_sent := ul_sent u + of_nat (length (up_payload p)),
                 ul_in := In_loop\<rparr>)
      | _ \<Rightarrow> u)"

subsection \<open>The outbound loop\<close>

datatype channel_read = Channel_eof | Channel_error string | Channel_packet udp_packet

definition out_acquire :: "bool \<Rightarrow> bool \<Rightarrow> string option \<Rightarrow> udp_listener \<Rightarrow> udp_listener" where
  "out_acquire cancelled ssh open_err u =
     (if ul_out u \<noteq> Out_loop then u
      else if udp_done cancelled u then u\<lparr>ul_out := Out_end\<rparr>
      else case get_udp_chan ssh open_err u of
             (Inl e, u) \<Rightarrow>
               if suffix ''EOF'' e then u
               else udp_group_err (''outbound-udpchan: '' @ e) (u\<lparr>ul_out := Out_end\<rparr>)
           | (Inr c, u) \<Rightarrow> u\<lparr>ul_out := Out_read c\<rparr>)"

text \<open>
  The rest of the iteration, given what is decoded, the resolver of addresses and the error of
  the write to the local socket.
\<close>

definition out_receive ::
    "(string \<Rightarrow> string + string) \<Rightarrow> channel_read \<Rightarrow> string option \<Rightarrow> udp_listener \<Rightarrow> udp_listener" where
  "out_receive resolve rd write_err u =
     (case ul_out u of
        Out_read c \<Rightarrow>
          (case rd of
             Channel_eof \<Rightarrow> u\<lparr>ul_out := Out_loop\<rparr>
           | Channel_error e \<Rightarrow> udp_group_err (''decode error: '' @ e) (u\<lparr>ul_out := Out_end\<rparr>)
           | Channel_packet p \<Rightarrow>
               (case resolve (up_src p) of
                  Inl e \<Rightarrow> udp_group_err (''resolve error: '' @ e) (u\<lparr>ul_out := Out_end\<rparr>)
                | Inr addr \<Rightarrow>
                    (case write_err of
                       Some e \<Rightarrow> udp_group_err (''write error: '' @ e) (u\<lparr>ul_out := Out_end\<rparr>)
                     | None \<Rightarrow>
                         u\<lparr>ul_local := ul_local u @ [(addr, up_payload p)],
                           ul_recv := ul_recv u + of_nat (length (up_payload p)), ul_out := Out_loop\<rparr>)))
      | _ \<Rightarrow> u)"

subsection \<open>Runs\<close>

datatype udp_event =
    Local_read bool local_read bool "string option"
  | Channel_write "string option"
  | Acquire bool bool "string option"
  | Channel_read channel_read "string option"
  | Connection_lost

fun udp_event_step :: "(string \<Rightarrow> string + string) \<Rightarrow> udp_event \<Rightarrow> udp_listener \<Rightarrow> udp_listener" where
  "udp_event_step resolve (Local_read done rd ssh oe) u = in_read done rd ssh oe u"
| "udp_event_step resolve (Channel_write err) u = in_send err u"
| "udp_event_step resolve (Acquire done ssh oe) u = out_acquire done ssh oe u"
| "udp_event_step resolve (Channel_read rd we) u = out_receive resolve rd we u"
| "udp_event_step resolve Connection_lost u = unset_udp_chan u"

definition run_udp :: "(string \<Rightarrow> string + string) \<Rightarrow> udp_event list \<Rightarrow> udp_listener \<Rightarrow> udp_listener" where
  "run_udp resolve evs u = fold (udp_event_step resolve) evs u"

text \<open>\<^verbatim>\<open>run\<close>: when both goroutines have ended the local socket is closed and the first error, if any, returned.\<close>

definition udp_run_result :: "udp_listener \<Rightarrow> string option option" where
  "udp_run_result u = (if ul_in u = In_end \<and> ul_out u = Out_end then Some (ul_err u) else None)"

subsection \<open>Packets are forwarded faithfully\<close>

text \<open>The packets read from the local socket, and what the packets decoded from channels amount to.\<close>

fun offered :: "nat \<Rightarrow> udp_event \<Rightarrow> udp_packet list" where
  "offered mtu (Local_read done (Read_packet addr b) ssh oe) = [\<lparr>up_src = addr, up_payload = take mtu b\<rparr>]"
| "offered mtu ev = []"

fun answered :: "(string \<Rightarrow> string + string) \<Rightarrow> udp_event \<Rightarrow> (string \<times> string) list" where
  "answered resolve (Channel_read (Channel_packet p) we) =
     (case resolve (up_src p) of Inl e \<Rightarrow> [] | Inr addr \<Rightarrow> [(addr, up_payload p)])"
| "answered resolve ev = []"

fun pending :: "in_pc \<Rightarrow> (nat \<times> udp_packet) list" where
  "pending (In_send c p) = [(c, p)]"
| "pending pc = []"

definition volume :: "string list \<Rightarrow> 64 word" where
  "volume bs = of_nat (sum_list (map length bs))"

definition forwarded_ok ::
    "(string \<Rightarrow> string + string) \<Rightarrow> nat \<Rightarrow> udp_event list \<Rightarrow> udp_listener \<Rightarrow> bool" where
  "forwarded_ok resolve mtu evs u \<longleftrightarrow>
     ul_mtu u = mtu
     \<and> subseq (map snd (ul_wire u @ pending (ul_in u))) (concat (map (offered mtu) evs))
     \<and> subseq (ul_local u) (concat (map (answered resolve) evs))
     \<and> ul_sent u = volume (map (up_payload \<circ> snd) (ul_wire u))
     \<and> ul_recv u = volume (map snd (ul_local u))
     \<and> sorted (map fst (ul_wire u @ pending (ul_in u)))
     \<and> (\<forall>x \<in> set (ul_wire u @ pending (ul_in u)). fst x < ul_opened u)
     \<and> (\<forall>c. ul_outbound u = Some c \<longrightarrow> Suc c = ul_opened u)"

lemma volume_simps [simp]: "volume [] = 0" "volume (bs @ [b]) = volume bs + of_nat (length b)"
  by (simp_all add: volume_def)

lemma subseq_later: "subseq xs ys \<Longrightarrow> subseq xs (ys @ zs)"
  using list_emb_append_mono [of "(=)" xs ys "[]" zs] by simp

lemma subseq_both: "subseq xs ys \<Longrightarrow> subseq (xs @ zs) (ys @ zs)"
  by (rule list_emb_append_mono) simp_all

lemma subseq_first: "subseq (xs @ zs) ys \<Longrightarrow> subseq xs ys"
  by (metis list_emb_append_mono subseq_order.dual_order.refl append_Nil2 list_emb_Nil subseq_order.trans)

lemma udp_group_err_simps [simp]:
  "ul_mtu (udp_group_err e u) = ul_mtu u" "ul_outbound (udp_group_err e u) = ul_outbound u"
  "ul_opened (udp_group_err e u) = ul_opened u" "ul_sent (udp_group_err e u) = ul_sent u"
  "ul_recv (udp_group_err e u) = ul_recv u" "ul_in (udp_group_err e u) = ul_in u"
  "ul_out (udp_group_err e u) = ul_out u" "ul_wire (udp_group_err e u) = ul_wire u"
  "ul_local (udp_group_err e u) = ul_local u"
  by (simp_all add: udp_group_err_def)

text \<open>Moves of the outbound loop, and the end of the inbound one, do not touch what the invariant is about.\<close>

lemma forwarded_ok_same:
  assumes "forwarded_ok resolve mtu evs u"
    and "ul_mtu u' = ul_mtu u" "ul_wire u' = ul_wire u" "ul_local u' = ul_local u" "ul_sent u' = ul_sent u"
    and "ul_recv u' = ul_recv u" "pending (ul_in u') = pending (ul_in u) \<or> pending (ul_in u') = []"
    and "ul_opened u \<le> ul_opened u'" "\<forall>c. ul_outbound u' = Some c \<longrightarrow> Suc c = ul_opened u'"
  shows "forwarded_ok resolve mtu (evs @ [ev]) u'"
proof -
  note ok = assms(1) [unfolded forwarded_ok_def]
  let ?old = "ul_wire u @ pending (ul_in u)" and ?new = "ul_wire u' @ pending (ul_in u')"
  from assms(3,7) have new: "?new = ?old \<or> ?new = ul_wire u" by auto
  have "subseq (map snd ?new) (concat (map (offered mtu) evs))"
    using new ok subseq_first [of "map snd (ul_wire u)" "map snd (pending (ul_in u))"] by (elim disjE) simp_all
  moreover have "sorted (map fst ?new)" using new ok by (elim disjE) (simp_all add: sorted_append)
  moreover have "\<forall>x \<in> set ?new. fst x < ul_opened u'"
    using new ok assms(8) by (elim disjE) (simp_all, (meson UnI1 UnI2 less_le_trans)+)
  ultimately show ?thesis
    using ok assms(2-6,9) by (simp add: forwarded_ok_def subseq_later)
qed

lemma get_udp_chanE:
  assumes "get_udp_chan ssh oe u = (res, u')"
  obtains (no) e where "res = Inl e" "u' = u"
  | (cached) c where "res = Inr c" "u' = u" "ul_outbound u = Some c"
  | (opened) "res = Inr (ul_opened u)" "ul_outbound u = None"
      "u' = u\<lparr>ul_outbound := Some (ul_opened u), ul_opened := Suc (ul_opened u)\<rparr>"
proof (cases "ul_outbound u")
  case (Some c)
  with assms cached [of c] show thesis by (simp add: get_udp_chan_def)
next
  case None
  show thesis
  proof (cases "ssh \<and> oe = None")
    case True
    with None assms opened show thesis by (simp add: get_udp_chan_def Let_def)
  next
    case False
    have "\<exists>e. res = Inl e \<and> u' = u"
      using None assms False by (cases ssh; cases oe) (auto simp: get_udp_chan_def)
    with no show thesis by blast
  qed
qed

lemma forwarded_ok_step:
  assumes ok: "forwarded_ok resolve mtu evs u"
  shows "forwarded_ok resolve mtu (evs @ [ev]) (udp_event_step resolve ev u)"
proof (cases ev)
  case (Local_read cn rd ssh oe)
  note same = forwarded_ok_same [OF ok]
  have out: "\<forall>c. ul_outbound u = Some c \<longrightarrow> Suc c = ul_opened u" using ok by (simp add: forwarded_ok_def)
  show ?thesis
  proof (cases "\<exists>addr b. rd = Read_packet addr b \<and> ul_in u = In_loop \<and> \<not> udp_done cn u")
    case False
    then have "udp_event_step resolve ev u = u \<or> (\<exists>e. udp_event_step resolve ev u = udp_group_err e (u\<lparr>ul_in := In_end\<rparr>))
        \<or> udp_event_step resolve ev u = u\<lparr>ul_in := In_end\<rparr>"
      by (cases rd) (auto simp: Local_read in_read_def)
    then show ?thesis by (elim disjE exE) (simp_all add: same out)
  next
    case True
    then obtain addr b where rd: "rd = Read_packet addr b" and pc: "ul_in u = In_loop" and nd: "\<not> udp_done cn u"
      by blast
    obtain res u1 where g: "get_udp_chan ssh oe u = (res, u1)" by fastforce
    then show ?thesis
    proof (cases rule: get_udp_chanE)
      case (no e)
      then show ?thesis using g rd pc nd by (simp add: Local_read in_read_def same out)
    next
      case (cached c)
      then have "udp_event_step resolve ev u = u\<lparr>ul_in := In_send c \<lparr>up_src = addr, up_payload = take (ul_mtu u) b\<rparr>\<rparr>"
        using g rd pc nd by (simp add: Local_read in_read_def)
      moreover have "\<forall>x \<in> set (ul_wire u). fst x \<le> c"
        using ok cached(3) pc unfolding forwarded_ok_def by fastforce
      ultimately show ?thesis
        using ok pc cached(3) by (auto simp: forwarded_ok_def Local_read rd sorted_append intro: subseq_both subseq_later)
    next
      case opened
      then have "udp_event_step resolve ev u = u\<lparr>ul_outbound := Some (ul_opened u), ul_opened := Suc (ul_opened u),
          ul_in := In_send (ul_opened u) \<lparr>up_src = addr, up_payload = take (ul_mtu u) b\<rparr>\<rparr>"
        using g rd pc nd by (simp add: Local_read in_read_def)
      moreover have "\<forall>x \<in> set (ul_wire u). fst x < ul_opened u"
        using ok pc unfolding forwarded_ok_def by fastforce
      ultimately show ?thesis
        using ok pc by (auto simp: forwarded_ok_def Local_read rd sorted_append less_SucI intro: subseq_both subseq_later less_imp_le)
    qed
  qed
next
  case (Channel_write err)
  show ?thesis
  proof (cases "\<exists>c p. ul_in u = In_send c p \<and> err = None")
    case True
    then show ?thesis
      using ok by (auto simp: forwarded_ok_def Channel_write in_send_def sorted_append intro: subseq_later) fastforce
  next
    case False
    have out: "\<forall>c. ul_outbound u = Some c \<longrightarrow> Suc c = ul_opened u" using ok by (simp add: forwarded_ok_def)
    from False have "udp_event_step resolve ev u = u \<or> udp_event_step resolve ev u = u\<lparr>ul_in := In_loop\<rparr>
        \<or> (\<exists>e. udp_event_step resolve ev u = udp_group_err e (u\<lparr>ul_in := In_end\<rparr>))"
      by (cases "ul_in u"; cases err) (auto simp: Channel_write in_send_def)
    then show ?thesis by (elim disjE exE) (simp_all add: forwarded_ok_same [OF ok] out)
  qed
next
  case (Acquire cn ssh oe)
  have out: "\<forall>c. ul_outbound u = Some c \<longrightarrow> Suc c = ul_opened u" using ok by (simp add: forwarded_ok_def)
  obtain res u1 where g: "get_udp_chan ssh oe u = (res, u1)" by fastforce
  then show ?thesis
    by (cases rule: get_udp_chanE) (use g in \<open>auto simp: Acquire out_acquire_def out intro!: forwarded_ok_same [OF ok]\<close>)
next
  case (Channel_read rd we)
  have out: "\<forall>c. ul_outbound u = Some c \<longrightarrow> Suc c = ul_opened u" using ok by (simp add: forwarded_ok_def)
  show ?thesis
  proof (cases "\<exists>c p addr. ul_out u = Out_read c \<and> rd = Channel_packet p \<and> resolve (up_src p) = Inr addr \<and> we = None")
    case True
    then obtain c p addr where "ul_out u = Out_read c" "rd = Channel_packet p" "resolve (up_src p) = Inr addr" "we = None"
      by blast
    then show ?thesis
      using ok by (simp add: forwarded_ok_def Channel_read out_receive_def subseq_both)
  next
    case False
    note stay = forwarded_ok_same [OF ok] out
    show ?thesis
    proof (cases "ul_out u")
      case (Out_read c)
      show ?thesis
      proof (cases rd)
        case (Channel_packet p)
        then show ?thesis
          using False by (cases "resolve (up_src p)"; cases we) (simp_all add: Channel_read Out_read out_receive_def stay)
      qed (simp_all add: Channel_read Out_read out_receive_def stay)
    qed (simp_all add: Channel_read out_receive_def stay)
  qed
next
  case Connection_lost
  then show ?thesis by (auto simp: unset_udp_chan_def intro!: forwarded_ok_same [OF ok])
qed

lemma run_udp_forwarded:
  "forwarded_ok resolve mtu evs (run_udp resolve evs (new_udp_listener mtu))"
proof (induction evs rule: rev_induct)
  case Nil
  show ?case by (simp add: forwarded_ok_def run_udp_def new_udp_listener_def)
next
  case (snoc ev evs)
  from forwarded_ok_step [OF this] show ?case by (simp add: run_udp_def)
qed

text \<open>
  C31. A UDP listener forwards faithfully. Whatever the sockets, the channels and the connection do and
  however the two goroutines interleave: the packets put on the channels are packets read
  from the local socket, cut to the buffer, each at most once and in order, with the address
  they came from; the packets written to the local socket are packets decoded from a
  channel, each at most once and in order, to the address they are for; a channel is not
  used again after a newer one has been; and the two counters are the volumes, modulo 64 bits.
\<close>

theorem udp_forwards_faithfully:
  "let u = run_udp resolve evs (new_udp_listener mtu)
   in subseq (map snd (ul_wire u)) (concat (map (offered mtu) evs))
    \<and> subseq (ul_local u) (concat (map (answered resolve) evs))
    \<and> sorted (map fst (ul_wire u))
    \<and> ul_sent u = of_nat (sum_list (map (\<lambda>x. length (up_payload (snd x))) (ul_wire u)))
    \<and> ul_recv u = of_nat (sum_list (map (\<lambda>x. length (snd x)) (ul_local u)))"
proof -
  note ok = run_udp_forwarded [of resolve mtu evs]
  then have "subseq (map snd (ul_wire (run_udp resolve evs (new_udp_listener mtu)))) (concat (map (offered mtu) evs))"
    unfolding forwarded_ok_def by (auto dest: subseq_first)
  with ok show ?thesis by (simp add: forwarded_ok_def volume_def sorted_append comp_def)
qed

subsection \<open>A channel that the peer has closed\<close>

text \<open>
  The events of a living connection and context in which the channel has been closed by the peer:
  it decodes to the end of the file, and an encoded packet fails the same way.
\<close>

fun dead_channel :: "udp_event \<Rightarrow> bool" where
  "dead_channel (Local_read cancelled rd ssh oe) = (\<not> cancelled \<and> (\<forall>e. rd \<noteq> Read_error e))"
| "dead_channel (Channel_write err) = (err = Some ''EOF'')"
| "dead_channel (Acquire cancelled ssh oe) = (\<not> cancelled)"
| "dead_channel (Channel_read rd we) = (rd = Channel_eof)"
| "dead_channel Connection_lost = False"

definition stuck :: "nat \<Rightarrow> udp_listener \<Rightarrow> bool" where
  "stuck c u \<longleftrightarrow> ul_outbound u = Some c \<and> ul_err u = None \<and> ul_in u \<noteq> In_end \<and> ul_out u \<noteq> Out_end"

lemma stuck_step:
  assumes "stuck c u" and "dead_channel ev"
  shows "stuck c (udp_event_step resolve ev u)
    \<and> ul_wire (udp_event_step resolve ev u) = ul_wire u \<and> ul_local (udp_event_step resolve ev u) = ul_local u
    \<and> ul_opened (udp_event_step resolve ev u) = ul_opened u"
proof (cases ev)
  case (Local_read cn rd ssh oe)
  with assms show ?thesis
    by (cases rd) (simp_all add: stuck_def in_read_def udp_done_def get_udp_chan_def)
next
  case (Channel_write err)
  with assms show ?thesis by (cases "ul_in u") (simp_all add: stuck_def in_send_def)
next
  case (Acquire cn ssh oe)
  with assms show ?thesis by (simp add: stuck_def out_acquire_def udp_done_def get_udp_chan_def)
next
  case (Channel_read rd we)
  with assms show ?thesis by (cases "ul_out u") (simp_all add: stuck_def out_receive_def)
next
  case Connection_lost
  with assms show ?thesis by simp
qed

text \<open>
  A UDP remote does not recover from a closed channel. The cache is emptied only when the whole
  SSH connection is lost. If the peer closes the channel alone, as it does on the first error of a
  target socket, then as long as the connection lives no further packet is sent or answered,
  no new channel is opened, and neither goroutine ends; every packet read is dropped.
\<close>

theorem udp_dead_channel_sticks:
  assumes "ul_outbound u = Some c" "ul_err u = None" "ul_in u \<noteq> In_end" "ul_out u \<noteq> Out_end"
    and "list_all dead_channel evs"
  shows "let u' = run_udp resolve evs u
    in ul_wire u' = ul_wire u \<and> ul_local u' = ul_local u \<and> ul_opened u' = ul_opened u
      \<and> ul_outbound u' = Some c \<and> udp_run_result u' = None"
proof -
  have "stuck c (run_udp resolve evs u) \<and> ul_wire (run_udp resolve evs u) = ul_wire u
      \<and> ul_local (run_udp resolve evs u) = ul_local u \<and> ul_opened (run_udp resolve evs u) = ul_opened u"
    using assms(5)
  proof (induction evs rule: rev_induct)
    case Nil
    with assms(1-4) show ?case by (simp add: stuck_def run_udp_def)
  next
    case (snoc ev evs)
    then have "dead_channel ev" by simp
    with snoc stuck_step [of c "run_udp resolve evs u" ev resolve] show ?case by (simp add: run_udp_def)
  qed
  then show ?thesis by (simp add: Let_def stuck_def udp_run_result_def)
qed

text \<open>
  A packet goes out; then the channel is closed by the peer, and the next packet is lost although
  the connection would let a new channel be opened.
\<close>

theorem udp_dead_channel_sticks_witness:
  "let u = run_udp Inr [Local_read False (Read_packet ''10.0.0.2:5'' ''hi'') True None, Channel_write None,
             Acquire False True None] (new_udp_listener 9012);
       u' = run_udp Inr [Channel_read Channel_eof None, Acquire False True None,
             Local_read False (Read_packet ''10.0.0.2:5'' ''again'') True None, Channel_write (Some ''EOF'')] u
   in ul_wire u = [(0, \<lparr>up_src = ''10.0.0.2:5'', up_payload = ''hi''\<rparr>)] \<and> ul_wire u' = ul_wire u
     \<and> ul_opened u' = 1 \<and> udp_run_result u' = None"
proof -
  let ?u = "run_udp Inr [Local_read False (Read_packet ''10.0.0.2:5'' ''hi'') True None, Channel_write None,
             Acquire False True None] (new_udp_listener 9012)"
  have "ul_outbound ?u = Some 0" "ul_err ?u = None" "ul_in ?u \<noteq> In_end" "ul_out ?u \<noteq> Out_end"
    and w: "ul_wire ?u = [(0, \<lparr>up_src = ''10.0.0.2:5'', up_payload = ''hi''\<rparr>)]" "ul_opened ?u = 1"
    by (simp_all add: run_udp_def new_udp_listener_def in_read_def in_send_def out_acquire_def udp_done_def
        get_udp_chan_def Let_def)
  from udp_dead_channel_sticks [OF this(1-4), of "[Channel_read Channel_eof None, Acquire False True None,
      Local_read False (Read_packet ''10.0.0.2:5'' ''again'') True None, Channel_write (Some ''EOF'')]" Inr]
  show ?thesis unfolding Let_def using w by simp
qed

end
