(* ===== verification/Udp_Links.thy ===== *)
theory Udp_Links
  imports Udp_In
begin

text \<open>
  Datagrams from end to end: the listener of \<^verbatim>\<open>tunnel_in_proxy_udp.go\<close>, the SSH channels it opens, and
  at the other end of each channel a handler of \<^verbatim>\<open>tunnel_out_ssh_udp.go\<close> with its readers, one
  goroutine each. A channel carries packets in order, which is what the SSH library and gob promise.
  The moves of all the goroutines interleave; what the sockets answer comes with the moves. A reader
  takes two moves for a reply: it reads from its socket, then encodes. The state also
  records whom each socket was dialled for, what was read from it, and what the listener wrote.
\<close>

subsection \<open>The end of a channel\<close>

datatype reader_pc = Reader_reads | Reader_holds string

record udp_reader =
  ur_src :: string
  ur_socket :: nat
  ur_pc :: reader_pc

record udp_end =
  ue_handler :: udp_handler
  ue_over :: bool
  ue_taken :: nat
  ue_readers :: "udp_reader list"
  ue_back :: "(nat \<times> udp_packet) list"
  ue_got :: nat
  ue_owners :: "string list"
  ue_heard :: "(nat \<times> string) list"

definition new_udp_end :: udp_end where
  "new_udp_end =
     \<lparr>ue_handler = new_udp_handler, ue_over = False, ue_taken = 0, ue_readers = [], ue_back = [],
      ue_got = 0, ue_owners = [], ue_heard = []\<rparr>"

text \<open>The handler is over: the sockets in its table are closed.\<close>

definition end_over :: "udp_end \<Rightarrow> udp_end" where
  "end_over e = e\<lparr>ue_over := True, ue_handler := udp_close_all (ue_handler e)\<rparr>"

text \<open>A handled packet: a new socket has an owner, and a reader unless there are too many.\<close>

definition end_handles ::
    "string option \<Rightarrow> string option \<Rightarrow> udp_packet \<Rightarrow> udp_end \<Rightarrow> udp_end" where
  "end_handles dial_err write_err p e =
     (case udp_handle_write dial_err write_err p (ue_handler e) of
        (err, h) \<Rightarrow>
          (let e = e\<lparr>ue_taken := Suc (ue_taken e), ue_handler := h,
                 ue_owners := ue_owners e @ (if uh_sockets h = uh_sockets (ue_handler e) then [] else [up_src p]),
                 ue_readers := ue_readers e @
                   (if length (uh_readers h) = length (uh_readers (ue_handler e)) then []
                    else [\<lparr>ur_src = up_src p, ur_socket = uh_sockets (ue_handler e), ur_pc = Reader_reads\<rparr>])\<rparr>
           in if err = None then e else end_over e))"

text \<open>The loop of \<^verbatim>\<open>handleUDP\<close> over the packets that have been put on the channel.\<close>

definition end_writes ::
    "udp_packet list \<Rightarrow> string option \<Rightarrow> string option \<Rightarrow> udp_end \<Rightarrow> udp_end" where
  "end_writes up dial_err write_err e =
     (if ue_over e \<or> length up \<le> ue_taken e then e
      else end_handles dial_err write_err (up ! ue_taken e) e)"

definition end_loses :: "udp_end \<Rightarrow> udp_end" where
  "end_loses e = (if ue_over e then e else end_over e)"

definition reader_gone :: "nat \<Rightarrow> udp_end \<Rightarrow> udp_end" where
  "reader_gone i e =
     e\<lparr>ue_handler := udp_reader_ends (ur_src (ue_readers e ! i)) (ue_handler e),
       ue_readers := take i (ue_readers e) @ drop (Suc i) (ue_readers e)\<rparr>"

text \<open>The moves of the reader with the given index; a closed socket cannot be read.\<close>

definition reader_hears :: "nat \<Rightarrow> nat \<Rightarrow> string \<Rightarrow> udp_end \<Rightarrow> udp_end" where
  "reader_hears mtu i b e =
     (if i < length (ue_readers e) \<and> ur_pc (ue_readers e ! i) = Reader_reads
         \<and> ur_socket (ue_readers e ! i) \<notin> set (uh_closed (ue_handler e)) then
        e\<lparr>ue_readers := (ue_readers e)[i := (ue_readers e ! i)\<lparr>ur_pc := Reader_holds (take mtu b)\<rparr>],
          ue_heard := ue_heard e @ [(ur_socket (ue_readers e ! i), b)]\<rparr>
      else e)"

definition reader_sends :: "bool \<Rightarrow> nat \<Rightarrow> udp_end \<Rightarrow> udp_end" where
  "reader_sends ok i e =
     (if i < length (ue_readers e) then
        (let r = ue_readers e ! i
         in case ur_pc r of
              Reader_reads \<Rightarrow> e
            | Reader_holds b \<Rightarrow>
                if ok then
                  e\<lparr>ue_readers := (ue_readers e)[i := r\<lparr>ur_pc := Reader_reads\<rparr>],
                    ue_back := ue_back e @ [(ur_socket r, udp_encode (ur_src r) b)]\<rparr>
                else reader_gone i e)
      else e)"

definition reader_fails :: "nat \<Rightarrow> udp_end \<Rightarrow> udp_end" where
  "reader_fails i e =
     (if i < length (ue_readers e) \<and> ur_pc (ue_readers e ! i) = Reader_reads then reader_gone i e else e)"

subsection \<open>The whole\<close>

record udp_net =
  un_in :: udp_listener
  un_ends :: "udp_end list"
  un_given :: "(nat \<times> nat \<times> string \<times> string) list"
  un_log :: "udp_event list"

definition new_udp_net :: "nat \<Rightarrow> udp_net" where
  "new_udp_net mtu = \<lparr>un_in = new_udp_listener mtu, un_ends = [], un_given = [], un_log = []\<rparr>"

text \<open>The packets put on a channel.\<close>

definition channel_up :: "nat \<Rightarrow> udp_listener \<Rightarrow> udp_packet list" where
  "channel_up c u = map snd (filter (\<lambda>x. fst x = c) (ul_wire u))"

text \<open>A move of the listener; at the other end of a channel that it opens a handler starts.\<close>

definition listener_moves ::
    "(string \<Rightarrow> string + string) \<Rightarrow> udp_event \<Rightarrow> udp_net \<Rightarrow> udp_net" where
  "listener_moves resolve ev n =
     (let u = udp_event_step resolve ev (un_in n)
      in n\<lparr>un_in := u,
           un_ends := un_ends n @ replicate (ul_opened u - ul_opened (un_in n)) new_udp_end,
           un_log := un_log n @ [ev]\<rparr>)"

text \<open>The outbound loop decodes the next packet of the channel it holds.\<close>

definition listener_takes ::
    "(string \<Rightarrow> string + string) \<Rightarrow> string option \<Rightarrow> udp_net \<Rightarrow> udp_net" where
  "listener_takes resolve write_err n =
     (case ul_out (un_in n) of
        Out_read c \<Rightarrow>
          if c < length (un_ends n) \<and> ue_got (un_ends n ! c) < length (ue_back (un_ends n ! c)) then
            (let e = un_ends n ! c; (s, p) = ue_back e ! ue_got e;
                 n = n\<lparr>un_ends := (un_ends n)[c := e\<lparr>ue_got := Suc (ue_got e)\<rparr>],
                   un_given := un_given n @
                     (case resolve (up_src p) of
                        Inl err \<Rightarrow> []
                      | Inr a \<Rightarrow> if write_err = None then [(c, s, a, up_payload p)] else [])\<rparr>
             in listener_moves resolve (Channel_read (Channel_packet p) write_err) n)
          else n
      | _ \<Rightarrow> n)"

definition at_end :: "nat \<Rightarrow> (udp_end \<Rightarrow> udp_end) \<Rightarrow> udp_net \<Rightarrow> udp_net" where
  "at_end c f n = (if c < length (un_ends n) then n\<lparr>un_ends := (un_ends n)[c := f (un_ends n ! c)]\<rparr> else n)"

datatype udp_move =
    Source_read bool local_read bool "string option"
  | Source_sent "string option"
  | Outbound_acquires bool bool "string option"
  | Outbound_takes "string option"
  | Outbound_fails "string option"
  | Ssh_lost
  | End_writes nat "string option" "string option"
  | End_loses nat
  | Reader_hears nat nat string
  | Reader_sends nat bool nat
  | Reader_fails nat nat

fun udp_move_step :: "(string \<Rightarrow> string + string) \<Rightarrow> nat \<Rightarrow> udp_move \<Rightarrow> udp_net \<Rightarrow> udp_net" where
  "udp_move_step resolve mtu (Source_read cancelled rd ssh oe) n =
     listener_moves resolve (Local_read cancelled rd ssh oe) n"
| "udp_move_step resolve mtu (Source_sent err) n = listener_moves resolve (Channel_write err) n"
| "udp_move_step resolve mtu (Outbound_acquires cancelled ssh oe) n =
     listener_moves resolve (Acquire cancelled ssh oe) n"
| "udp_move_step resolve mtu (Outbound_takes we) n = listener_takes resolve we n"
| "udp_move_step resolve mtu (Outbound_fails err) n =
     listener_moves resolve
       (Channel_read (case err of None \<Rightarrow> Channel_eof | Some e \<Rightarrow> Channel_error e) None) n"
| "udp_move_step resolve mtu Ssh_lost n = listener_moves resolve Connection_lost n"
| "udp_move_step resolve mtu (End_writes c de we) n = at_end c (end_writes (channel_up c (un_in n)) de we) n"
| "udp_move_step resolve mtu (End_loses c) n = at_end c end_loses n"
| "udp_move_step resolve mtu (Reader_hears c i b) n = at_end c (reader_hears mtu i b) n"
| "udp_move_step resolve mtu (Reader_sends c ok i) n = at_end c (reader_sends ok i) n"
| "udp_move_step resolve mtu (Reader_fails c i) n = at_end c (reader_fails i) n"

definition run_udp_net :: "(string \<Rightarrow> string + string) \<Rightarrow> nat \<Rightarrow> udp_move list \<Rightarrow> udp_net \<Rightarrow> udp_net" where
  "run_udp_net resolve mtu ms n = fold (udp_move_step resolve mtu) ms n"

subsection \<open>The invariant of an end\<close>

text \<open>What a list of tagged payloads has for one tag, and what the readers of a socket hold.\<close>

definition tagged :: "nat \<Rightarrow> (nat \<times> 'a) list \<Rightarrow> 'a list" where
  "tagged s xs = map snd (filter (\<lambda>x. fst x = s) xs)"

fun held_by :: "udp_reader \<Rightarrow> (nat \<times> string) list" where
  "held_by r = (case ur_pc r of Reader_reads \<Rightarrow> [] | Reader_holds b \<Rightarrow> [(ur_socket r, b)])"

definition end_ok :: "nat \<Rightarrow> udp_packet list \<Rightarrow> udp_end \<Rightarrow> bool" where
  "end_ok mtu up e \<longleftrightarrow>
     length (ue_owners e) = uh_sockets (ue_handler e)
     \<and> list_all (\<lambda>x. snd x < length (ue_owners e) \<and> ue_owners e ! snd x = fst x) (uh_conns (ue_handler e))
     \<and> list_all (\<lambda>r. ur_socket r < length (ue_owners e) \<and> ue_owners e ! ur_socket r = ur_src r) (ue_readers e)
     \<and> distinct (map ur_socket (ue_readers e))
     \<and> ue_taken e \<le> length up
     \<and> list_all (\<lambda>x. fst x < length (ue_owners e)) (uh_sent (ue_handler e))
     \<and> subseq (map (\<lambda>x. (ue_owners e ! fst x, snd x)) (uh_sent (ue_handler e)))
         (map (\<lambda>p. (up_src p, up_payload p)) (take (ue_taken e) up))
     \<and> list_all (\<lambda>x. fst x < length (ue_owners e) \<and> ue_owners e ! fst x = up_src (snd x)) (ue_back e)
     \<and> (\<forall>s. subseq (map up_payload (tagged s (ue_back e)) @ tagged s (concat (map held_by (ue_readers e))))
            (map (take mtu) (tagged s (ue_heard e))))"

lemma tagged_simps [simp]:
  "tagged s [] = []" "tagged s (xs @ ys) = tagged s xs @ tagged s ys"
  "tagged s ((t, x) # xs) = (if s = t then x # tagged s xs else tagged s xs)"
  by (auto simp: tagged_def)

lemma held_elsewhere: "s \<notin> ur_socket ` set rs \<Longrightarrow> tagged s (concat (map held_by rs)) = []"
  by (induction rs) (auto split: reader_pc.splits)

lemma held_split:
  assumes "distinct (map ur_socket (xs @ r # ys))"
  shows "tagged s (concat (map held_by (xs @ r # ys))) =
    (if s = ur_socket r then map snd (held_by r) else tagged s (concat (map held_by (xs @ ys))))"
proof (cases "s = ur_socket r")
  case True
  with assms have "tagged s (concat (map held_by xs)) = []" "tagged s (concat (map held_by ys)) = []"
    by (auto intro!: held_elsewhere)
  with True show ?thesis by (auto split: reader_pc.splits)
qed (auto split: reader_pc.splits)

lemma end_over_ok: "end_ok mtu up e \<Longrightarrow> end_ok mtu up (end_over e)"
  by (auto simp: end_ok_def end_over_def udp_close_all_def)

lemma end_loses_ok: "end_ok mtu up e \<Longrightarrow> end_ok mtu up (end_loses e)"
  by (simp add: end_loses_def end_over_ok)

lemma reader_gone_ok:
  assumes ok: "end_ok mtu up e" and i: "i < length (ue_readers e)"
  shows "end_ok mtu up (reader_gone i e)"
proof -
  obtain xs r ys where rs: "ue_readers e = xs @ r # ys" "i = length xs"
    using id_take_nth_drop [OF i] i by (metis length_take min.absorb2 less_imp_le)
  have held: "subseq (tagged s (concat (map held_by (xs @ ys)))) (tagged s (concat (map held_by (ue_readers e))))" for s
  proof -
    have d: "distinct (map ur_socket (xs @ r # ys))" using ok unfolding end_ok_def rs(1) by blast
    then have "s = ur_socket r \<Longrightarrow> tagged s (concat (map held_by (xs @ ys))) = []" by (auto intro!: held_elsewhere)
    with held_split [OF d, of s] show ?thesis unfolding rs(1) by (cases "s = ur_socket r") simp_all
  qed
  have "subseq (map up_payload (tagged s (ue_back e)) @ tagged s (concat (map held_by (xs @ ys))))
      (map (take mtu) (tagged s (ue_heard e)))" for s
    using ok held [of s] unfolding end_ok_def
    by (meson list_emb_append_mono subseq_order.order_refl subseq_order.order_trans)
  then show ?thesis
    using ok unfolding end_ok_def reader_gone_def udp_reader_ends_def udp_remove_def
    by (simp add: rs list_all_iff) (auto simp: set_map_del)
qed

lemma reader_fails_ok: "end_ok mtu up e \<Longrightarrow> end_ok mtu up (reader_fails i e)"
  by (simp add: reader_fails_def reader_gone_ok)

lemma reader_holds_now:
  assumes "i < length (ue_readers e)" and "distinct (map ur_socket (ue_readers e))"
  shows "tagged (ur_socket (ue_readers e ! i)) (concat (map held_by (ue_readers e))) =
    map snd (held_by (ue_readers e ! i))"
proof -
  have d: "distinct (map ur_socket (take i (ue_readers e) @ ue_readers e ! i # drop (Suc i) (ue_readers e)))"
    using assms by (simp flip: id_take_nth_drop)
  from held_split [OF d, of "ur_socket (ue_readers e ! i)"] show ?thesis
    using assms(1) by (simp flip: id_take_nth_drop)
qed

lemma reader_moved:
  assumes "i < length (ue_readers e)" and "distinct (map ur_socket (ue_readers e))"
  shows "tagged s (concat (map held_by ((ue_readers e)[i := (ue_readers e ! i)\<lparr>ur_pc := pc\<rparr>]))) =
      (if s = ur_socket (ue_readers e ! i) then (case pc of Reader_reads \<Rightarrow> [] | Reader_holds b \<Rightarrow> [b])
       else tagged s (concat (map held_by (ue_readers e))))"
    and "map ur_socket ((ue_readers e)[i := (ue_readers e ! i)\<lparr>ur_pc := pc\<rparr>]) = map ur_socket (ue_readers e)"
    and "map ur_src ((ue_readers e)[i := (ue_readers e ! i)\<lparr>ur_pc := pc\<rparr>]) = map ur_src (ue_readers e)"
proof -
  obtain xs r ys where rs: "ue_readers e = xs @ r # ys" and i: "i = length xs"
    using id_take_nth_drop [OF assms(1)] assms(1) by (metis length_take min.absorb2 less_imp_le)
  have d: "distinct (map ur_socket (xs @ r # ys))" using assms(2) rs by simp
  then have d': "distinct (map ur_socket (xs @ r\<lparr>ur_pc := pc\<rparr> # ys))" by simp
  show "tagged s (concat (map held_by ((ue_readers e)[i := (ue_readers e ! i)\<lparr>ur_pc := pc\<rparr>]))) =
      (if s = ur_socket (ue_readers e ! i) then (case pc of Reader_reads \<Rightarrow> [] | Reader_holds b \<Rightarrow> [b])
       else tagged s (concat (map held_by (ue_readers e))))"
    using held_split [OF d, of s] held_split [OF d', of s] by (auto simp: rs i split: reader_pc.splits)
  show "map ur_socket ((ue_readers e)[i := (ue_readers e ! i)\<lparr>ur_pc := pc\<rparr>]) = map ur_socket (ue_readers e)"
    "map ur_src ((ue_readers e)[i := (ue_readers e ! i)\<lparr>ur_pc := pc\<rparr>]) = map ur_src (ue_readers e)"
    by (simp_all add: rs i)
qed

text \<open>Ownership depends on the sockets and sources of the readers only.\<close>

lemma readers_owned:
  "list_all (\<lambda>r. ur_socket r < k \<and> os ! ur_socket r = ur_src r) rs =
   list_all (\<lambda>(s, src). s < k \<and> os ! s = src) (zip (map ur_socket rs) (map ur_src rs))"
  by (induction rs) auto

lemma end_ok_reader:
  assumes ok: "end_ok mtu up e"
    and "map ur_socket (ue_readers e') = map ur_socket (ue_readers e)"
    and "map ur_src (ue_readers e') = map ur_src (ue_readers e)"
    and "ue_owners e' = ue_owners e" "ue_handler e' = ue_handler e" "ue_taken e' = ue_taken e"
    and "list_all (\<lambda>x. fst x < length (ue_owners e) \<and> ue_owners e ! fst x = up_src (snd x)) (ue_back e')"
    and "\<forall>s. subseq (map up_payload (tagged s (ue_back e')) @ tagged s (concat (map held_by (ue_readers e'))))
            (map (take mtu) (tagged s (ue_heard e')))"
  shows "end_ok mtu up e'"
  using ok unfolding end_ok_def readers_owned assms(2-6) by (elim conjE) (intro conjI, assumption+, rule assms(7), rule assms(8))

lemma reader_hears_ok:
  assumes ok: "end_ok mtu up e"
  shows "end_ok mtu up (reader_hears mtu i b e)"
proof (cases "i < length (ue_readers e) \<and> ur_pc (ue_readers e ! i) = Reader_reads
    \<and> ur_socket (ue_readers e ! i) \<notin> set (uh_closed (ue_handler e))")
  case True
  let ?e = "reader_hears mtu i b e"
  note moved = reader_moved [where e = e and i = i and pc = "Reader_holds (take mtu b)"]
  have i: "i < length (ue_readers e)" and d: "distinct (map ur_socket (ue_readers e))"
    using True ok by (simp_all add: end_ok_def)
  have q: "subseq (map up_payload (tagged s (ue_back ?e)) @ tagged s (concat (map held_by (ue_readers ?e))))
      (map (take mtu) (tagged s (ue_heard ?e)))" for s
    using ok True moved(1) [OF i d, of s] reader_holds_now [OF i d] unfolding end_ok_def
    by (auto simp: reader_hears_def subseq_both dest: spec [of _ s])
  show ?thesis
  proof (rule end_ok_reader [OF ok])
    show "list_all (\<lambda>x. fst x < length (ue_owners e) \<and> ue_owners e ! fst x = up_src (snd x)) (ue_back ?e)"
      using ok by (auto simp: end_ok_def reader_hears_def)
  qed (use q True moved(2,3) [OF i d] in \<open>simp_all add: reader_hears_def\<close>)
next
  case False
  then have "reader_hears mtu i b e = e" by (auto simp: reader_hears_def)
  with ok show ?thesis by simp
qed

lemma reader_sends_ok:
  assumes ok: "end_ok mtu up e"
  shows "end_ok mtu up (reader_sends sent_ok i e)"
proof (cases "i < length (ue_readers e) \<and> (\<exists>b. ur_pc (ue_readers e ! i) = Reader_holds b)")
  case False
  then have "reader_sends sent_ok i e = e" by (auto simp: reader_sends_def Let_def split: reader_pc.splits)
  with ok show ?thesis by simp
next
  case True
  then obtain b where i: "i < length (ue_readers e)" and b: "ur_pc (ue_readers e ! i) = Reader_holds b" by blast
  show ?thesis
  proof (cases sent_ok)
    case False
    with i b ok show ?thesis by (simp add: reader_sends_def Let_def reader_gone_ok)
  next
    case sent: True
    let ?e = "reader_sends sent_ok i e"
    note moved = reader_moved [where e = e and i = i and pc = Reader_reads]
    have d: "distinct (map ur_socket (ue_readers e))" using ok by (simp add: end_ok_def)
    have q: "subseq (map up_payload (tagged s (ue_back ?e)) @ tagged s (concat (map held_by (ue_readers ?e))))
        (map (take mtu) (tagged s (ue_heard ?e)))" for s
      using ok sent i b moved(1) [OF i d, of s] reader_holds_now [OF i d] unfolding end_ok_def
      by (auto simp: reader_sends_def Let_def dest: spec [of _ s])
    have "list_all (\<lambda>r. ur_socket r < length (ue_owners e) \<and> ue_owners e ! ur_socket r = ur_src r) (ue_readers e)"
      using ok by (auto simp: end_ok_def)
    then have own: "ur_socket (ue_readers e ! i) < length (ue_owners e)"
        "ue_owners e ! ur_socket (ue_readers e ! i) = ur_src (ue_readers e ! i)"
      using i by (simp_all add: list_all_length)
    show ?thesis
    proof (rule end_ok_reader [OF ok])
      show "list_all (\<lambda>x. fst x < length (ue_owners e) \<and> ue_owners e ! fst x = up_src (snd x)) (ue_back ?e)"
        using ok sent i b own by (auto simp: end_ok_def reader_sends_def Let_def)
    qed (use q sent i b moved(2,3) [OF i d] in \<open>simp_all add: reader_sends_def Let_def\<close>)
  qed
qed

text \<open>What handling a packet changes: with a new socket, and without one.\<close>

lemma udp_handle_writeE:
  assumes "udp_handle_write de we p h = (err, h')"
  obtains (failed) "h' = h" "err \<noteq> None"
  | (old) s where "map_get (uh_conns h) (up_src p) = Some s" "uh_conns h' = uh_conns h"
      "uh_readers h' = uh_readers h" "uh_sockets h' = uh_sockets h"
      "uh_sent h' = uh_sent h \<or> uh_sent h' = uh_sent h @ [(s, up_payload p)]"
  | (new) "uh_conns h' = map_set (up_src p) (uh_sockets h) (uh_conns h)" "uh_sockets h' = Suc (uh_sockets h)"
      "uh_readers h' = uh_readers h \<or> uh_readers h' = up_src p # uh_readers h"
      "uh_sent h' = uh_sent h \<or> uh_sent h' = uh_sent h @ [(uh_sockets h, up_payload p)]"
proof (cases "map_get (uh_conns h) (up_src p)")
  case (Some s)
  with assms show thesis
    by (intro old [of s]) (auto simp: udp_handle_write_def udp_dial_def split: option.splits)
next
  case None
  show thesis
  proof (cases de)
    case (Some e)
    with None assms show thesis by (intro failed) (auto simp: udp_handle_write_def udp_dial_def)
  next
    case no_err: None
    with None assms show thesis
      by (intro new) (auto simp: udp_handle_write_def udp_dial_def Let_def split: option.splits if_splits)
  qed
qed

lemma set_map_set_subset: "set (map_set k v m) \<subseteq> insert (k, v) (set m)"
  by (induction m) auto

text \<open>An end that has taken a packet without using it, has used it on a known socket, or on a new one.\<close>

lemma end_handles_ok:
  assumes ok: "end_ok mtu up e" and t: "ue_taken e < length up"
  shows "end_ok mtu up (end_handles de we (up ! ue_taken e) e)"
proof -
  let ?p = "up ! ue_taken e" and ?h = "ue_handler e"
  obtain err h where w: "udp_handle_write de we ?p ?h = (err, h)" by fastforce
  let ?e = "e\<lparr>ue_taken := Suc (ue_taken e), ue_handler := h,
      ue_owners := ue_owners e @ (if uh_sockets h = uh_sockets ?h then [] else [up_src ?p]),
      ue_readers := ue_readers e @ (if length (uh_readers h) = length (uh_readers ?h) then []
        else [\<lparr>ur_src = up_src ?p, ur_socket = uh_sockets ?h, ur_pc = Reader_reads\<rparr>])\<rparr>"
  have up: "take (Suc (ue_taken e)) up = take (ue_taken e) up @ [?p]" using t by (rule take_Suc_conv_app_nth)
  note ok' = ok [unfolded end_ok_def]
  from w have "end_ok mtu up ?e"
  proof (cases rule: udp_handle_writeE)
    case failed
    with ok t up show ?thesis by (auto simp: end_ok_def subseq_later)
  next
    case (old s)
    then have "(up_src ?p, s) \<in> set (uh_conns ?h)" by (auto dest: map_of_SomeD)
    then have "s < length (ue_owners e) \<and> ue_owners e ! s = up_src ?p" using ok by (auto simp: end_ok_def list_all_iff)
    with old ok t up show ?thesis by (auto simp: end_ok_def intro: subseq_later subseq_both)
  next
    case new
    let ?os = "ue_owners e @ [up_src ?p]"
    have len: "length (ue_owners e) = uh_sockets ?h" using ok' by blast
    have nth: "k < length (ue_owners e) \<Longrightarrow> ?os ! k = ue_owners e ! k" for k by (simp add: nth_append)
    have last: "?os ! uh_sockets ?h = up_src ?p" using len nth_append_length [of "ue_owners e"] by simp
    have conns: "list_all (\<lambda>x. snd x < length ?os \<and> ?os ! snd x = fst x) (uh_conns h)"
      unfolding list_all_iff
    proof
      fix x assume "x \<in> set (uh_conns h)"
      with new(1) set_map_set_subset [of "up_src ?p" "uh_sockets ?h" "uh_conns ?h"]
      consider "x = (up_src ?p, uh_sockets ?h)" | "x \<in> set (uh_conns ?h)" by auto
      then show "snd x < length ?os \<and> ?os ! snd x = fst x"
      proof cases
        case 2
        with ok' have "snd x < length (ue_owners e) \<and> ue_owners e ! snd x = fst x" by (auto simp: list_all_iff)
        then show ?thesis by (simp add: nth less_SucI)
      qed (use last len in \<open>simp\<close>)
    qed
    have readers: "list_all (\<lambda>r. ur_socket r < length ?os \<and> ?os ! ur_socket r = ur_src r) (ue_readers e)"
      using ok' by (auto simp: list_all_iff nth less_SucI)
    have fresh: "uh_sockets ?h \<notin> ur_socket ` set (ue_readers e)" using ok' len by (auto simp: list_all_iff)
    have replies: "list_all (\<lambda>x. fst x < length ?os \<and> ?os ! fst x = up_src (snd x)) (ue_back e)"
      using ok' by (auto simp: list_all_iff nth less_SucI)
    have old: "map (\<lambda>x. (?os ! fst x, snd x)) (uh_sent ?h) = map (\<lambda>x. (ue_owners e ! fst x, snd x)) (uh_sent ?h)"
      using ok' by (auto simp: list_all_iff nth)
    have all: "list_all (\<lambda>x. fst x < length ?os) (uh_sent h)"
    proof -
      have "fst x < Suc (uh_sockets ?h)" if "x \<in> set (uh_sent ?h)" for x
        using ok' len that by (auto simp: list_all_iff intro: less_SucI)
      with new(4) len show ?thesis by (elim disjE) (simp_all add: list_all_iff)
    qed
    from ok' have "subseq (map (\<lambda>x. (?os ! fst x, snd x)) (uh_sent ?h))
        (map (\<lambda>p. (up_src p, up_payload p)) (take (ue_taken e) up))" unfolding old by blast
    with new(4) last have sent: "subseq (map (\<lambda>x. (?os ! fst x, snd x)) (uh_sent h))
          (map (\<lambda>p. (up_src p, up_payload p)) (take (Suc (ue_taken e)) up))"
      unfolding up by (elim disjE) (simp_all add: subseq_later subseq_both)
    from ok' have held: "\<forall>s. subseq (map up_payload (tagged s (ue_back e)) @ tagged s (concat (map held_by (ue_readers e))))
        (map (take mtu) (tagged s (ue_heard e)))" and d: "distinct (map ur_socket (ue_readers e))" by blast+
    show ?thesis
      using new(2,3) conns readers fresh replies all sent held d last t len unfolding end_ok_def by auto
  qed
  then show ?thesis unfolding end_handles_def w by (simp add: Let_def end_over_ok)
qed

lemma end_writes_ok: "end_ok mtu up e \<Longrightarrow> end_ok mtu up (end_writes up de we e)"
  by (simp add: end_writes_def end_handles_ok)

lemma end_ok_later: "end_ok mtu up e \<Longrightarrow> end_ok mtu (up @ ps) e"
  by (auto simp: end_ok_def)

lemma new_udp_end_ok: "end_ok mtu up new_udp_end"
  by (simp add: end_ok_def new_udp_end_def new_udp_handler_def)

subsection \<open>The invariant of the whole\<close>

text \<open>No move of an end takes back a reply or an owner, or touches what the listener has decoded.\<close>

definition end_grows :: "udp_end \<Rightarrow> udp_end \<Rightarrow> bool" where
  "end_grows e e' \<longleftrightarrow>
     ue_got e' = ue_got e \<and> prefix (ue_back e) (ue_back e') \<and> prefix (ue_owners e) (ue_owners e')"

lemma end_moves_grow:
  "end_grows e (end_writes up de we e)" "end_grows e (end_loses e)" "end_grows e (reader_hears mtu i b e)"
  "end_grows e (reader_sends sent_ok i e)" "end_grows e (reader_fails i e)"
proof -
  show "end_grows e (end_writes up de we e)"
    by (cases "udp_handle_write de we (up ! ue_taken e) (ue_handler e)")
      (simp add: end_grows_def end_writes_def end_handles_def end_over_def Let_def)
qed (auto simp: end_grows_def end_loses_def end_over_def reader_hears_def reader_sends_def reader_fails_def
    reader_gone_def Let_def split: reader_pc.splits)

definition given_ok :: "(string \<Rightarrow> string + string) \<Rightarrow> (nat \<times> string \<times> string) list \<Rightarrow> udp_end \<Rightarrow> bool" where
  "given_ok resolve gs e \<longleftrightarrow>
     ue_got e \<le> length (ue_back e)
     \<and> subseq (map (\<lambda>g. (fst g, snd (snd g))) gs)
         (map (\<lambda>x. (fst x, up_payload (snd x))) (take (ue_got e) (ue_back e)))
     \<and> list_all (\<lambda>g. fst g < length (ue_owners e) \<and> resolve (ue_owners e ! fst g) = Inr (fst (snd g))) gs"

definition net_shape :: "(string \<Rightarrow> string + string) \<Rightarrow> nat \<Rightarrow> nat \<Rightarrow> udp_net \<Rightarrow> bool" where
  "net_shape resolve mi mo n \<longleftrightarrow>
     un_in n = run_udp resolve (un_log n) (new_udp_listener mi)
     \<and> length (un_ends n) = ul_opened (un_in n)
     \<and> (\<forall>c < length (un_ends n). end_ok mo (channel_up c (un_in n)) (un_ends n ! c)
          \<and> given_ok resolve (tagged c (un_given n)) (un_ends n ! c))
     \<and> list_all (\<lambda>g. fst g < length (un_ends n)) (un_given n)"

definition net_ok :: "(string \<Rightarrow> string + string) \<Rightarrow> nat \<Rightarrow> nat \<Rightarrow> udp_net \<Rightarrow> bool" where
  "net_ok resolve mi mo n \<longleftrightarrow>
     net_shape resolve mi mo n \<and> map (snd \<circ> snd) (un_given n) = ul_local (un_in n)"

lemma given_ok_grows:
  assumes "given_ok resolve gs e" and "end_grows e e'"
  shows "given_ok resolve gs e'"
proof -
  obtain xs ys where "ue_back e' = ue_back e @ xs" "ue_owners e' = ue_owners e @ ys" "ue_got e' = ue_got e"
    using assms(2) by (auto simp: end_grows_def prefix_def)
  with assms(1) show ?thesis by (auto simp: given_ok_def list_all_iff nth_append)
qed

lemma net_ok_at_end:
  assumes ok: "net_ok resolve mi mo n"
    and f: "\<And>up e. up = channel_up c (un_in n) \<Longrightarrow> end_ok mo up e \<Longrightarrow> end_ok mo up (f e)"
    and g: "\<And>e. end_grows e (f e)"
  shows "net_ok resolve mi mo (at_end c f n)"
proof (cases "c < length (un_ends n)")
  case True
  with ok f given_ok_grows [OF _ g] show ?thesis
    by (auto simp: net_ok_def net_shape_def at_end_def nth_list_update)
next
  case False
  with ok show ?thesis by (simp add: at_end_def)
qed

text \<open>What a move of the listener does to the channels.\<close>

lemma udp_step_wire:
  "\<exists>xs. ul_wire (udp_event_step resolve ev u) = ul_wire u @ xs" (is ?wire)
  "ul_opened u \<le> ul_opened (udp_event_step resolve ev u)" (is ?opened)
proof -
  have g: "get_udp_chan ssh oe u = (r, u') \<Longrightarrow> ul_wire u' = ul_wire u \<and> ul_opened u \<le> ul_opened u'" for ssh oe r u'
    by (erule get_udp_chanE) auto
  have "?wire \<and> ?opened"
  proof (cases ev)
    case (Local_read cn rd ssh oe)
    obtain r u' where "get_udp_chan ssh oe u = (r, u')" by fastforce
    with g [OF this] show ?thesis
      by (auto simp: Local_read in_read_def split: local_read.splits sum.splits)
  next
    case (Channel_write err)
    show ?thesis by (auto simp: Channel_write in_send_def split: in_pc.splits option.splits)
  next
    case (Acquire cn ssh oe)
    obtain r u' where "get_udp_chan ssh oe u = (r, u')" by fastforce
    with g [OF this] show ?thesis by (auto simp: Acquire out_acquire_def split: sum.splits)
  next
    case (Channel_read rd we)
    show ?thesis
      by (auto simp: Channel_read out_receive_def split: out_pc.splits channel_read.splits sum.splits option.splits)
  next
    case Connection_lost
    show ?thesis by (simp add: Connection_lost unset_udp_chan_def)
  qed
  then show ?wire ?opened by blast+
qed

lemma udp_step_local:
  "ul_local (udp_event_step resolve ev u) =
    ul_local u @ (case ev of
        Channel_read (Channel_packet p) we \<Rightarrow>
          (case (ul_out u, resolve (up_src p), we) of
             (Out_read c, Inr a, None) \<Rightarrow> [(a, up_payload p)] | _ \<Rightarrow> [])
      | _ \<Rightarrow> [])"
proof (cases ev)
  case (Local_read cn rd ssh oe)
  obtain r u' where "get_udp_chan ssh oe u = (r, u')" by fastforce
  moreover from this have "ul_local u' = ul_local u" by (rule get_udp_chanE) auto
  ultimately show ?thesis by (auto simp: Local_read in_read_def split: local_read.splits sum.splits)
next
  case (Channel_write err)
  show ?thesis by (auto simp: Channel_write in_send_def split: in_pc.splits option.splits)
next
  case (Acquire cn ssh oe)
  obtain r u' where "get_udp_chan ssh oe u = (r, u')" by fastforce
  moreover from this have "ul_local u' = ul_local u" by (rule get_udp_chanE) auto
  ultimately show ?thesis by (auto simp: Acquire out_acquire_def split: sum.splits)
next
  case (Channel_read rd we)
  show ?thesis
    by (auto simp: Channel_read out_receive_def split: out_pc.splits channel_read.splits sum.splits option.splits)
next
  case Connection_lost
  show ?thesis by (simp add: Connection_lost unset_udp_chan_def)
qed

lemma tagged_none: "list_all (\<lambda>x. fst x < k) xs \<Longrightarrow> k \<le> c \<Longrightarrow> tagged c xs = []"
  by (induction xs) (auto simp: tagged_def)

lemma channel_up_tagged: "channel_up c u = tagged c (ul_wire u)"
  by (simp add: channel_up_def tagged_def)

lemma net_shapeD:
  assumes "net_shape resolve mi mo n"
  shows "c < length (un_ends n) \<Longrightarrow> end_ok mo (channel_up c (un_in n)) (un_ends n ! c)"
    and "c < length (un_ends n) \<Longrightarrow> given_ok resolve (tagged c (un_given n)) (un_ends n ! c)"
    and "length (un_ends n) = ul_opened (un_in n)"
    and "list_all (\<lambda>g. fst g < length (un_ends n)) (un_given n)"
    and "un_in n = run_udp resolve (un_log n) (new_udp_listener mi)"
  using assms unfolding net_shape_def by blast+

lemma net_shape_listener:
  assumes ok: "net_shape resolve mi mo n"
  shows "net_shape resolve mi mo (listener_moves resolve ev n)"
proof -
  let ?u = "un_in n" and ?v = "udp_event_step resolve ev (un_in n)"
  obtain xs where w: "ul_wire ?v = ul_wire ?u @ xs" and o: "ul_opened ?u \<le> ul_opened ?v"
    using udp_step_wire by blast
  have run: "?v = run_udp resolve (un_log n @ [ev]) (new_udp_listener mi)"
    using ok by (simp add: net_shape_def run_udp_def)
  note shape = net_shapeD [OF ok]
  have len: "length (un_ends n) = ul_opened ?u" by (rule shape(3))
  have ends: "end_ok mo (channel_up c ?v) (un_ends n ! c) \<and> given_ok resolve (tagged c (un_given n)) (un_ends n ! c)"
    if "c < ul_opened ?u" for c
    using shape(1,2) [of c] that len w by (simp add: channel_up_tagged end_ok_later)
  have new: "end_ok mo (channel_up c ?v) new_udp_end \<and> given_ok resolve (tagged c (un_given n)) new_udp_end"
    if "ul_opened ?u \<le> c" for c
  proof -
    have "tagged c (un_given n) = []" using tagged_none [OF shape(4)] that len by simp
    then show ?thesis by (simp add: new_udp_end_ok) (simp add: given_ok_def new_udp_end_def)
  qed
  have all: "end_ok mo (channel_up c ?v) e \<and> given_ok resolve (tagged c (un_given n)) e"
    if "c < ul_opened ?v" "e = (un_ends n @ replicate (ul_opened ?v - ul_opened ?u) new_udp_end) ! c" for c e
    using that ends [of c] new [of c] len by (cases "c < ul_opened ?u") (simp_all add: nth_append)
  have "list_all (\<lambda>g. fst g < ul_opened ?v) (un_given n)"
    using shape(4) len o by (auto simp: list_all_iff)
  with run len o all show ?thesis by (simp add: net_shape_def listener_moves_def Let_def)
qed

lemma net_ok_listener:
  assumes ok: "net_ok resolve mi mo n" and "\<And>p we. ev \<noteq> Channel_read (Channel_packet p) we"
  shows "net_ok resolve mi mo (listener_moves resolve ev n)"
proof -
  have "ul_local (udp_event_step resolve ev (un_in n)) = ul_local (un_in n)"
    using assms(2) by (simp add: udp_step_local split: udp_event.splits channel_read.splits)
  with ok net_shape_listener show ?thesis by (simp add: net_ok_def) (simp add: listener_moves_def Let_def)
qed

text \<open>A reply decoded from a channel came from a socket of its source.\<close>

lemma given_ok_takes:
  assumes ok: "given_ok resolve gs e" and e: "end_ok mo up e" and got: "ue_got e < length (ue_back e)"
    and x: "ue_back e ! ue_got e = (s, p)"
    and gs': "gs' = gs \<or> (\<exists>a. resolve (up_src p) = Inr a \<and> gs' = gs @ [(s, a, up_payload p)])"
  shows "given_ok resolve gs' (e\<lparr>ue_got := Suc (ue_got e)\<rparr>)"
proof -
  have up: "take (Suc (ue_got e)) (ue_back e) = take (ue_got e) (ue_back e) @ [(s, p)]"
    using take_Suc_conv_app_nth [OF got] x by simp
  have "list_all (\<lambda>x. fst x < length (ue_owners e) \<and> ue_owners e ! fst x = up_src (snd x)) (ue_back e)"
    using e unfolding end_ok_def by blast
  with got x have "s < length (ue_owners e) \<and> ue_owners e ! s = up_src p" by (auto simp: list_all_length dest!: spec [of _ "ue_got e"])
  with ok got up gs' show ?thesis by (auto simp: given_ok_def intro: subseq_later subseq_both)
qed

lemma net_ok_takes:
  assumes ok: "net_ok resolve mi mo n"
  shows "net_ok resolve mi mo (listener_takes resolve we n)"
proof (cases "\<exists>c. ul_out (un_in n) = Out_read c \<and> c < length (un_ends n)
    \<and> ue_got (un_ends n ! c) < length (ue_back (un_ends n ! c))")
  case False
  then have "listener_takes resolve we n = n" by (auto simp: listener_takes_def split: out_pc.splits)
  with ok show ?thesis by simp
next
  case True
  then obtain c where c: "ul_out (un_in n) = Out_read c" "c < length (un_ends n)"
    and got: "ue_got (un_ends n ! c) < length (ue_back (un_ends n ! c))" by blast
  let ?e = "un_ends n ! c"
  obtain s p where x: "ue_back ?e ! ue_got ?e = (s, p)" by fastforce
  define new where "new = (case resolve (up_src p) of Inl err \<Rightarrow> []
    | Inr a \<Rightarrow> if we = None then [(c, s, a, up_payload p)] else [])"
  let ?n = "n\<lparr>un_ends := (un_ends n)[c := ?e\<lparr>ue_got := Suc (ue_got ?e)\<rparr>], un_given := un_given n @ new\<rparr>"
  have takes: "listener_takes resolve we n = listener_moves resolve (Channel_read (Channel_packet p) we) ?n"
    using c got x by (simp add: listener_takes_def new_def Let_def)
  have shape: "net_shape resolve mi mo n" using ok by (simp add: net_ok_def)
  then have e: "end_ok mo (channel_up c (un_in n)) ?e" "given_ok resolve (tagged c (un_given n)) ?e"
    using net_shapeD(1,2) [OF _ c(2)] by blast+
  have "given_ok resolve (tagged c (un_given n @ new)) (?e\<lparr>ue_got := Suc (ue_got ?e)\<rparr>)"
    by (rule given_ok_takes [OF e(2,1) got x]) (auto simp: new_def split: sum.splits)
  moreover have "end_ok mo (channel_up c (un_in n)) (?e\<lparr>ue_got := Suc (ue_got ?e)\<rparr>)"
    using e(1) by (auto simp: end_ok_def)
  moreover have "tagged d new = []" if "d \<noteq> c" for d using that by (auto simp: new_def split: sum.splits)
  moreover have "list_all (\<lambda>g. fst g < length (un_ends n)) new" using c by (auto simp: new_def split: sum.splits)
  ultimately have "net_shape resolve mi mo ?n"
    using shape c by (auto simp: net_shape_def nth_list_update)
  moreover have "map (snd \<circ> snd) (un_given n @ new) =
      ul_local (udp_event_step resolve (Channel_read (Channel_packet p) we) (un_in n))"
    using ok c unfolding udp_step_local by (auto simp: net_ok_def new_def split: sum.splits option.splits)
  ultimately show ?thesis
    unfolding takes net_ok_def by (auto intro!: net_shape_listener) (simp add: listener_moves_def Let_def)
qed

lemma net_ok_step: "net_ok resolve mi mo n \<Longrightarrow> net_ok resolve mi mo (udp_move_step resolve mo m n)"
proof (cases m)
  case (End_writes c de we)
  then show "net_ok resolve mi mo n \<Longrightarrow> ?thesis"
    by (auto intro!: net_ok_at_end end_writes_ok end_moves_grow)
qed (auto intro!: net_ok_at_end net_ok_listener net_ok_takes end_moves_grow end_loses_ok reader_hears_ok
    reader_sends_ok reader_fails_ok split: option.splits)

lemma net_ok_run: "net_ok resolve mi mo (run_udp_net resolve mo ms (new_udp_net mi))"
proof (induction ms rule: rev_induct)
  case Nil
  show ?case by (simp add: net_ok_def net_shape_def run_udp_net_def new_udp_net_def run_udp_def new_udp_listener_def)
next
  case (snoc m ms)
  from net_ok_step [OF this] show ?case by (simp add: run_udp_net_def)
qed

subsection \<open>Sources do not mix\<close>

text \<open>
  What the moves offer of one source, cut to the listener's buffer; what the handler of a channel sent
  from the sockets of that source; what was written to the local socket from one socket's replies.
\<close>

fun spoken :: "nat \<Rightarrow> udp_move \<Rightarrow> udp_packet list" where
  "spoken mtu (Source_read cancelled (Read_packet addr b) ssh oe) = [\<lparr>up_src = addr, up_payload = take mtu b\<rparr>]"
| "spoken mtu m = []"

definition said_by :: "nat \<Rightarrow> string \<Rightarrow> udp_move list \<Rightarrow> string list" where
  "said_by mtu a ms = map up_payload (filter (\<lambda>p. up_src p = a) (concat (map (spoken mtu) ms)))"

definition sent_for :: "string \<Rightarrow> udp_end \<Rightarrow> string list" where
  "sent_for a e = map snd (filter (\<lambda>x. ue_owners e ! fst x = a) (uh_sent (ue_handler e)))"

definition returned :: "nat \<Rightarrow> nat \<Rightarrow> udp_net \<Rightarrow> string list" where
  "returned c s n = map snd (tagged s (tagged c (un_given n)))"

lemma log_spoken:
  "concat (map (offered mi) (un_log (run_udp_net resolve mo ms n))) =
   concat (map (offered mi) (un_log n)) @ concat (map (spoken mi) ms)"
proof (induction ms rule: rev_induct)
  case Nil
  show ?case by (simp add: run_udp_net_def)
next
  case (snoc m ms)
  have step: "concat (map (offered mi) (un_log (udp_move_step resolve mo m n))) =
      concat (map (offered mi) (un_log n)) @ spoken mi m" for n
  proof (cases m)
    case (Source_read cn rd ssh oe)
    then show ?thesis by (cases rd) (simp_all add: listener_moves_def Let_def)
  qed (auto simp: listener_moves_def listener_takes_def at_end_def Let_def split: out_pc.splits prod.splits)
  from snoc show ?case by (simp add: step run_udp_net_def)
qed

lemma tagged_subseq: "subseq xs ys \<Longrightarrow> subseq (tagged s xs) (tagged s ys)"
  by (simp add: tagged_def subseq_map subseq_filter)

lemma tagged_map_snd: "tagged s (map (\<lambda>x. (fst x, f (snd x))) xs) = map f (tagged s xs)"
  by (induction xs) (auto simp: tagged_def)

text \<open>
  C27. The datagrams of different sources do not mix. Whatever the sockets, the channels and the
  connection do and however the listener, the handlers at the other end of its channels and
  their readers interleave: what leaves the sockets dialled for a source are datagrams of that
  source, each at most once and in the order it sent them; what is written back to the local
  network are the replies read from a socket, each at most once and in order, and they go to the
  source that the socket was dialled for.
\<close>

theorem datagrams_stay_apart:
  assumes "c < length (un_ends (run_udp_net resolve mo ms (new_udp_net mi)))"
  shows "let n = run_udp_net resolve mo ms (new_udp_net mi); e = un_ends n ! c
    in subseq (sent_for a e) (said_by mi a ms)
      \<and> subseq (returned c s n) (map (take mo) (tagged s (ue_heard e)))
      \<and> list_all (\<lambda>g. resolve (ue_owners e ! fst g) = Inr (fst (snd g))) (tagged c (un_given n))
      \<and> map (\<lambda>g. snd (snd g)) (un_given n) = ul_local (un_in n)"
proof -
  let ?n = "run_udp_net resolve mo ms (new_udp_net mi)"
  let ?e = "un_ends ?n ! c"
  have ok: "net_ok resolve mi mo ?n" by (rule net_ok_run)
  then have shape: "net_shape resolve mi mo ?n" by (simp add: net_ok_def)
  note e = net_shapeD(1) [OF shape assms] and g = net_shapeD(2) [OF shape assms]
  have "forwarded_ok resolve mi (un_log ?n) (un_in ?n)"
    unfolding net_shapeD(5) [OF shape] by (rule run_udp_forwarded)
  then have "subseq (map snd (ul_wire (un_in ?n))) (concat (map (offered mi) (un_log ?n)))"
    unfolding forwarded_ok_def by (auto dest: subseq_first)
  moreover have "un_log (new_udp_net mi) = []" by (simp add: new_udp_net_def)
  ultimately have sent: "subseq (map snd (ul_wire (un_in ?n))) (concat (map (spoken mi) ms))"
    unfolding log_spoken by simp
  have "subseq (channel_up c (un_in ?n)) (concat (map (spoken mi) ms))"
    by (rule subseq_order.order_trans [OF _ sent]) (simp add: channel_up_def subseq_map)
  then have wire: "subseq (take (ue_taken ?e) (channel_up c (un_in ?n))) (concat (map (spoken mi) ms))"
    by (rule subseq_order.order_trans [rotated]) (simp add: prefix_imp_subseq take_is_prefix)
  have "subseq (map (\<lambda>x. (ue_owners ?e ! fst x, snd x)) (uh_sent (ue_handler ?e)))
      (map (\<lambda>p. (up_src p, up_payload p)) (take (ue_taken ?e) (channel_up c (un_in ?n))))"
    using e unfolding end_ok_def by blast
  then have "subseq (map (\<lambda>x. (ue_owners ?e ! fst x, snd x)) (uh_sent (ue_handler ?e)))
      (map (\<lambda>p. (up_src p, up_payload p)) (concat (map (spoken mi) ms)))"
    by (rule subseq_order.order_trans) (rule subseq_map [OF wire])
  then have "subseq (map snd (filter (\<lambda>x. fst x = a) (map (\<lambda>x. (ue_owners ?e ! fst x, snd x)) (uh_sent (ue_handler ?e)))))
      (map snd (filter (\<lambda>x. fst x = a) (map (\<lambda>p. (up_src p, up_payload p)) (concat (map (spoken mi) ms)))))"
    by (intro subseq_map subseq_filter)
  then have forward: "subseq (sent_for a ?e) (said_by mi a ms)"
    by (simp add: sent_for_def said_by_def filter_map comp_def)
  have "subseq (map (\<lambda>g. (fst g, snd (snd g))) (tagged c (un_given ?n)))
      (map (\<lambda>x. (fst x, up_payload (snd x))) (take (ue_got ?e) (ue_back ?e)))"
    using g unfolding given_ok_def by blast
  from tagged_subseq [OF this] have "subseq (returned c s ?n) (map up_payload (tagged s (take (ue_got ?e) (ue_back ?e))))"
    by (simp add: returned_def tagged_map_snd)
  moreover have "subseq (map up_payload (tagged s (take (ue_got ?e) (ue_back ?e)))) (map up_payload (tagged s (ue_back ?e)))"
    by (intro subseq_map tagged_subseq) (simp add: prefix_imp_subseq take_is_prefix)
  moreover have "subseq (map up_payload (tagged s (ue_back ?e))) (map (take mo) (tagged s (ue_heard ?e)))"
    using e unfolding end_ok_def by (meson subseq_first)
  ultimately have back': "subseq (returned c s ?n) (map (take mo) (tagged s (ue_heard ?e)))"
    by (meson subseq_order.order_trans)
  show ?thesis
    using forward back' g ok by (simp add: Let_def given_ok_def net_ok_def comp_def list_all_iff)
qed

text \<open>
  Two local clients speak to a resolver through the tunnel; the second one is answered first,
  and each gets its own answer.
\<close>

definition demo_datagrams :: "udp_move list" where
  "demo_datagrams =
     [Source_read False (Read_packet ''10.0.0.1:1111'' ''who'') True None, Source_sent None,
      Source_read False (Read_packet ''10.0.0.2:2222'' ''where'') True None, Source_sent None,
      Outbound_acquires False True None, End_writes 0 None None, End_writes 0 None None,
      Reader_hears 0 1 ''there'', Reader_hears 0 0 ''me'', Reader_sends 0 True 1, Outbound_takes None,
      Reader_sends 0 True 0, Outbound_acquires False True None, Outbound_takes None]"

lemmas udp_net_defs =
  run_udp_net_def new_udp_net_def new_udp_listener_def listener_moves_def listener_takes_def in_read_def
  in_send_def out_acquire_def out_receive_def udp_done_def get_udp_chan_def Let_def at_end_def end_writes_def
  end_handles_def udp_handle_write_def udp_dial_def new_udp_end_def new_udp_handler_def reader_hears_def
  reader_sends_def channel_up_def max_conns_def

theorem datagrams_stay_apart_witness:
  "let n = run_udp_net Inr 9012 demo_datagrams (new_udp_net 9012); e = un_ends n ! 0
   in sent_for ''10.0.0.2:2222'' e = [''where''] \<and> ue_owners e = [''10.0.0.1:1111'', ''10.0.0.2:2222'']
     \<and> ul_local (un_in n) = [(''10.0.0.2:2222'', ''there''), (''10.0.0.1:1111'', ''me'')]
     \<and> subseq (sent_for ''10.0.0.2:2222'' e) (said_by 9012 ''10.0.0.2:2222'' demo_datagrams)
     \<and> map (\<lambda>g. snd (snd g)) (un_given n) = ul_local (un_in n)"
proof -
  let ?n = "run_udp_net Inr 9012 demo_datagrams (new_udp_net 9012)"
  have ends: "0 < length (un_ends ?n)" by (simp add: demo_datagrams_def udp_net_defs)
  have "sent_for ''10.0.0.2:2222'' (un_ends ?n ! 0) = [''where'']"
    and "ue_owners (un_ends ?n ! 0) = [''10.0.0.1:1111'', ''10.0.0.2:2222'']"
    and "ul_local (un_in ?n) = [(''10.0.0.2:2222'', ''there''), (''10.0.0.1:1111'', ''me'')]"
    by (simp_all add: demo_datagrams_def udp_net_defs sent_for_def)
  with datagrams_stay_apart [OF ends, of "''10.0.0.2:2222''"] show ?thesis by (simp add: Let_def)
qed

subsection \<open>A reader alone\<close>

text \<open>
  The moves of one reader for a list of results, as the function \<^const>\<open>udp_handle_read\<close> takes
  them: it sends back just what that function returns, from its own socket.
\<close>

fun reader_run :: "nat \<Rightarrow> nat \<Rightarrow> ((string + string) \<times> bool) list \<Rightarrow> udp_end \<Rightarrow> udp_end" where
  "reader_run mtu i [] e = e"
| "reader_run mtu i ((Inl err, ok) # rs) e = reader_fails i e"
| "reader_run mtu i ((Inr b, ok) # rs) e =
     (let e = reader_sends ok i (reader_hears mtu i b e) in if ok then reader_run mtu i rs e else e)"

lemma reader_alone:
  assumes "i < length (ue_readers e)" and "ur_pc (ue_readers e ! i) = Reader_reads"
    and "ur_socket (ue_readers e ! i) \<notin> set (uh_closed (ue_handler e))"
  shows "ue_back (reader_run mtu i rs e) =
    ue_back e @ map (Pair (ur_socket (ue_readers e ! i))) (udp_handle_read mtu (ur_src (ue_readers e ! i)) rs)"
  using assms
proof (induction mtu i rs e rule: reader_run.induct)
  case (3 mtu i b ok rs e)
  let ?r = "ue_readers e ! i"
  let ?e = "reader_sends ok i (reader_hears mtu i b e)"
  note at = 3(2-4)
  show ?case
  proof (cases ok)
    case True
    with at have e: "ue_back ?e = ue_back e @ [(ur_socket ?r, udp_encode (ur_src ?r) (take mtu b))]"
      "ue_readers ?e = (ue_readers e)[i := ?r\<lparr>ur_pc := Reader_reads\<rparr>]" "ue_handler ?e = ue_handler e"
      by (simp_all add: reader_hears_def reader_sends_def Let_def)
    have "ue_back (reader_run mtu i rs ?e) =
        ue_back ?e @ map (Pair (ur_socket (ue_readers ?e ! i))) (udp_handle_read mtu (ur_src (ue_readers ?e ! i)) rs)"
      using at by (intro 3(1) [OF refl True]) (simp_all add: e)
    with True at e show ?thesis by simp
  next
    case False
    with at show ?thesis by (simp add: reader_hears_def reader_sends_def reader_gone_def Let_def)
  qed
qed (simp_all add: reader_fails_def reader_gone_def)

end
