(* ===== verification/Fair_Rounds.thy ===== *)
theory Fair_Rounds
  imports Chisel_Prelude
begin

text \<open>
  Progress of several goroutines under a fair scheduler. A schedule is a list of moves, each made
  by one actor; a round is a part of it in which every actor moves at least once. A machine that
  always has a helpful actor, whose next move lowers a measure and who stays helpful until it is
  lowered, has a measure of zero after as many rounds as the measure was.
\<close>

definition fair_round :: "('a \<Rightarrow> 'd) \<Rightarrow> 'd set \<Rightarrow> 'a list \<Rightarrow> bool" where
  "fair_round actor ds as \<longleftrightarrow> ds \<subseteq> actor ` set as"

locale fair_progress =
  fixes step :: "'a \<Rightarrow> 's \<Rightarrow> 's"
    and actor :: "'a \<Rightarrow> 'd"
    and actors :: "'d set"
    and ok :: "'s \<Rightarrow> bool"
    and helpful :: "'d \<Rightarrow> 's \<Rightarrow> bool"
    and left :: "'s \<Rightarrow> nat"
  assumes ok_step: "ok s \<Longrightarrow> ok (step a s)"
    and left_step: "ok s \<Longrightarrow> left (step a s) \<le> left s"
    and some_helpful: "ok s \<Longrightarrow> 0 < left s \<Longrightarrow> \<exists>d \<in> actors. helpful d s"
    and helpful_moves: "ok s \<Longrightarrow> helpful d s \<Longrightarrow> actor a = d \<Longrightarrow> left (step a s) < left s"
    and helpful_stays: "ok s \<Longrightarrow> helpful d s \<Longrightarrow> left (step a s) < left s \<or> helpful d (step a s)"
begin

lemma ok_run: "ok s \<Longrightarrow> ok (fold step as s)"
  by (induction as arbitrary: s) (simp_all add: ok_step)

lemma left_run: "ok s \<Longrightarrow> left (fold step as s) \<le> left s"
proof (induction as arbitrary: s)
  case Nil
  then show ?case by simp
next
  case (Cons a as)
  from Cons.IH [OF ok_step [OF Cons.prems]] left_step [OF Cons.prems] show ?case
    by (metis fold_simps(2) le_trans)
qed

lemma helpful_run:
  "ok s \<Longrightarrow> helpful d s \<Longrightarrow> d \<in> actor ` set as \<Longrightarrow> left (fold step as s) < left s"
proof (induction as arbitrary: s)
  case Nil
  then show ?case by simp
next
  case (Cons a as)
  note ok = ok_step [OF Cons.prems(1), of a]
  show ?case
  proof (cases "left (step a s) < left s")
    case True
    with left_run [OF ok, of as] show ?thesis by simp
  next
    case False
    with Cons.prems have "helpful d (step a s)" "actor a \<noteq> d" using helpful_stays helpful_moves by blast+
    with Cons.IH [OF ok, of] Cons.prems(3) left_step [OF Cons.prems(1), of a] show ?thesis
      by (auto intro: less_le_trans)
  qed
qed

lemma round_lowers: "ok s \<Longrightarrow> fair_round actor actors as \<Longrightarrow> left (fold step as s) \<le> left s - 1"
proof (cases "left s")
  case (Suc n)
  assume "ok s" and fair: "fair_round actor actors as"
  with Suc some_helpful [of s] obtain d where d: "d \<in> actors" "helpful d s" by auto
  with fair have "d \<in> actor ` set as" by (auto simp: fair_round_def)
  with helpful_run [OF \<open>ok s\<close> d(2), of as] Suc show ?thesis by simp
next
  case 0
  assume "ok s"
  with left_run [of s as] 0 show ?thesis by simp
qed

lemma rounds_lower:
  "ok s \<Longrightarrow> list_all (fair_round actor actors) rs \<Longrightarrow> left (fold step (concat rs) s) \<le> left s - length rs"
proof (induction rs rule: rev_induct)
  case Nil
  then show ?case by simp
next
  case (snoc r rs)
  let ?t = "fold step (concat rs) s"
  have "left (fold step r ?t) \<le> left ?t - 1"
    using snoc.prems by (intro round_lowers ok_run) simp_all
  moreover have "left ?t \<le> left s - length rs" using snoc by simp
  ultimately show ?case by simp
qed

lemma rounds_finish:
  assumes "ok s" and "list_all (fair_round actor actors) rs" and "left s \<le> length rs"
  shows "left (fold step (concat rs) s) = 0"
  using rounds_lower [OF assms(1,2)] assms(3) by simp

end

end
