(* ===== verification/Copying.thy ===== *)
theory Copying
  imports Fair_Rounds "HOL-Library.Word"
begin

text \<open>
  \<^verbatim>\<open>share/cio/pipe.go\<close> and the relay of \<^verbatim>\<open>share/tunnel/tunnel_in_proxy_uds_pair.go\<close>: two
  goroutines copy between two streams, one in each direction, with \<^verbatim>\<open>io.Copy\<close>. \<^verbatim>\<open>Pipe\<close> closes
  both streams when the first of them ends, once; the relay of a pair closes, for each direction,
  the stream it wrote to. A move of a goroutine is the return of its pending call or its next
  action; it comes with what a read and a write return at that moment. A read or a write of a
  closed stream returns an error, except for the standard streams, which cannot be closed. That is so at
  once for a socket; the \<^verbatim>\<open>Close\<close> of an SSH channel sends a message, and a read that is pending ends when
  the peer has answered it or the connection is lost, so the moves of a goroutine that reads such
  a channel count from then: the properties rest on that answer.
\<close>

datatype direction = Sent | Received

datatype read_result = Data string bool | Ended

record io_answer =
  ia_read :: read_result
  ia_wrote :: nat
  ia_failed :: bool

datatype copy_pc = Reading | Writing string bool | Copied | Closing | Finished

record copier =
  cp_pc :: copy_pc
  cp_read :: string
  cp_written :: string

definition new_copier :: copier where
  "new_copier = \<lparr>cp_pc = Reading, cp_read = [], cp_written = []\<rparr>"

text \<open>
  One step of the loop of \<^verbatim>\<open>io.Copy\<close>, given whether its streams are closed. A read can return its
  last data together with the end; a short write, or one that reports an error, ends the copy.
\<close>

definition copy_step :: "bool \<Rightarrow> bool \<Rightarrow> io_answer \<Rightarrow> copier \<Rightarrow> copier" where
  "copy_step rd_closed wr_closed ia c =
     (case cp_pc c of
        Reading \<Rightarrow>
          if rd_closed then c\<lparr>cp_pc := Copied\<rparr>
          else (case ia_read ia of
                  Ended \<Rightarrow> c\<lparr>cp_pc := Copied\<rparr>
                | Data bs fin \<Rightarrow>
                    if bs = [] then (if fin then c\<lparr>cp_pc := Copied\<rparr> else c)
                    else c\<lparr>cp_read := cp_read c @ bs, cp_pc := Writing bs fin\<rparr>)
      | Writing bs fin \<Rightarrow>
          if wr_closed then c\<lparr>cp_pc := Copied\<rparr>
          else
            (let n = min (ia_wrote ia) (length bs)
             in c\<lparr>cp_written := cp_written c @ take n bs,
                  cp_pc := (if n < length bs \<or> ia_failed ia \<or> fin then Copied else Reading)\<rparr>)
      | _ \<Rightarrow> c)"

definition copy_count :: "copier \<Rightarrow> 64 word" where
  "copy_count c = of_nat (length (cp_written c))"

text \<open>What has been written is what has been read, up to what is in the buffer or was lost at the end.\<close>

definition copier_ok :: "copier \<Rightarrow> bool" where
  "copier_ok c \<longleftrightarrow>
     (case cp_pc c of
        Reading \<Rightarrow> cp_read c = cp_written c
      | Writing bs fin \<Rightarrow> cp_read c = cp_written c @ bs \<and> bs \<noteq> []
      | _ \<Rightarrow> prefix (cp_written c) (cp_read c))"

lemma copier_ok_prefix: "copier_ok c \<Longrightarrow> prefix (cp_written c) (cp_read c)"
  by (auto simp: copier_ok_def split: copy_pc.splits)

lemma new_copier_ok [simp]: "copier_ok new_copier"
  by (simp add: copier_ok_def new_copier_def)

lemma copy_step_ok:
  assumes "copier_ok c"
  shows "copier_ok (copy_step rd wr ia c)"
proof (cases "cp_pc c")
  case Reading
  with assms show ?thesis by (auto simp: copier_ok_def copy_step_def split: read_result.splits)
next
  case (Writing bs fin)
  have "prefix (w @ take n bs) (w @ bs)" for n w by (simp add: take_is_prefix)
  with Writing assms show ?thesis by (auto simp: copier_ok_def copy_step_def Let_def)
qed (use assms in \<open>simp_all add: copy_step_def\<close>)

lemma copier_ok_pc [simp]:
  "copier_ok c \<Longrightarrow> pc \<in> {Copied, Closing, Finished} \<Longrightarrow> copier_ok (c\<lparr>cp_pc := pc\<rparr>)"
  using copier_ok_prefix [of c] by (auto simp: copier_ok_def)

fun copy_left :: "copy_pc \<Rightarrow> nat" where
  "copy_left Reading = 2"
| "copy_left (Writing bs fin) = 2"
| "copy_left Copied = 1"
| "copy_left Closing = 1"
| "copy_left Finished = 0"

definition copying :: "copier \<Rightarrow> bool" where
  "copying c \<longleftrightarrow> (case cp_pc c of Reading \<Rightarrow> True | Writing bs fin \<Rightarrow> True | _ \<Rightarrow> False)"

lemma copy_step_pc:
  "copying c \<Longrightarrow> copying (copy_step rd wr ia c) \<or> cp_pc (copy_step rd wr ia c) = Copied"
  by (auto simp: copying_def copy_step_def Let_def split: copy_pc.splits read_result.splits)

lemma copy_step_closed: "copying c \<Longrightarrow> rd \<Longrightarrow> wr \<Longrightarrow> cp_pc (copy_step rd wr ia c) = Copied"
  by (auto simp: copying_def copy_step_def split: copy_pc.splits)

lemma copying_left: "copying c \<Longrightarrow> copy_left (cp_pc c) = 2"
  by (auto simp: copying_def split: copy_pc.splits)

subsection \<open>\<^verbatim>\<open>Pipe\<close>\<close>

text \<open>
  \<open>pp_once\<close> is the progress of the \<^verbatim>\<open>sync.Once\<close>: not begun, begun, first stream closed, finished. A
  goroutine that comes second waits for it to finish. The source can be the standard input and output
  of the process, whose \<^verbatim>\<open>Close\<close> (\<^verbatim>\<open>share/cio/stdio.go\<close>) does nothing.
\<close>

record pipe =
  pp_sent :: copier
  pp_received :: copier
  pp_once :: nat
  pp_src_closes :: nat
  pp_dst_closes :: nat
  pp_src_stdio :: bool

definition new_pipe :: "bool \<Rightarrow> pipe" where
  "new_pipe stdio = \<lparr>pp_sent = new_copier, pp_received = new_copier, pp_once = 0, pp_src_closes = 0,
     pp_dst_closes = 0, pp_src_stdio = stdio\<rparr>"

fun pipe_copier :: "direction \<Rightarrow> pipe \<Rightarrow> copier" where
  "pipe_copier Sent p = pp_sent p"
| "pipe_copier Received p = pp_received p"

fun set_copier :: "direction \<Rightarrow> copier \<Rightarrow> pipe \<Rightarrow> pipe" where
  "set_copier Sent c p = p\<lparr>pp_sent := c\<rparr>"
| "set_copier Received c p = p\<lparr>pp_received := c\<rparr>"

definition goto :: "direction \<Rightarrow> copy_pc \<Rightarrow> pipe \<Rightarrow> pipe" where
  "goto d pc p = set_copier d ((pipe_copier d p)\<lparr>cp_pc := pc\<rparr>) p"

fun read_closed :: "direction \<Rightarrow> pipe \<Rightarrow> bool" where
  "read_closed Sent p = (pp_src_closes p > 0 \<and> \<not> pp_src_stdio p)"
| "read_closed Received p = (pp_dst_closes p > 0)"

fun write_closed :: "direction \<Rightarrow> pipe \<Rightarrow> bool" where
  "write_closed Sent p = (pp_dst_closes p > 0)"
| "write_closed Received p = (pp_src_closes p > 0 \<and> \<not> pp_src_stdio p)"

definition pipe_step :: "direction \<times> io_answer \<Rightarrow> pipe \<Rightarrow> pipe" where
  "pipe_step a p =
     (let d = fst a; c = pipe_copier d p
      in case cp_pc c of
           Copied \<Rightarrow>
             if pp_once p = 0 then goto d Closing (p\<lparr>pp_once := 1\<rparr>)
             else if pp_once p = 3 then goto d Finished p
             else p
         | Closing \<Rightarrow>
             if pp_once p = 1 then p\<lparr>pp_src_closes := Suc (pp_src_closes p), pp_once := 2\<rparr>
             else goto d Finished (p\<lparr>pp_dst_closes := Suc (pp_dst_closes p), pp_once := 3\<rparr>)
         | Finished \<Rightarrow> p
         | _ \<Rightarrow> set_copier d (copy_step (read_closed d p) (write_closed d p) (snd a) c) p)"

text \<open>What \<^verbatim>\<open>Pipe\<close> returns once both goroutines are done.\<close>

definition pipe_result :: "pipe \<Rightarrow> (64 word \<times> 64 word) option" where
  "pipe_result p =
     (if cp_pc (pp_sent p) = Finished \<and> cp_pc (pp_received p) = Finished
      then Some (copy_count (pp_sent p), copy_count (pp_received p)) else None)"

definition run_pipe :: "(direction \<times> io_answer) list \<Rightarrow> pipe \<Rightarrow> pipe" where
  "run_pipe as p = fold pipe_step as p"

subsection \<open>What a pipe keeps\<close>

lemma set_copier_simps [simp]:
  "pp_once (set_copier d c p) = pp_once p" "pp_src_closes (set_copier d c p) = pp_src_closes p"
  "pp_dst_closes (set_copier d c p) = pp_dst_closes p"
  "pp_src_stdio (set_copier d c p) = pp_src_stdio p"
  "pipe_copier d' (set_copier d c p) = (if d' = d then c else pipe_copier d' p)"
  by (cases d; cases d'; simp)+

lemma pipe_copier_updates [simp]:
  "pipe_copier d (p\<lparr>pp_once := n\<rparr>) = pipe_copier d p" "pipe_copier d (p\<lparr>pp_src_closes := n\<rparr>) = pipe_copier d p"
  "pipe_copier d (p\<lparr>pp_dst_closes := n\<rparr>) = pipe_copier d p"
  by (cases d; simp)+

definition pc_of :: "direction \<Rightarrow> pipe \<Rightarrow> copy_pc" where "pc_of d p = cp_pc (pipe_copier d p)"

definition pipe_ok :: "pipe \<Rightarrow> bool" where
  "pipe_ok p \<longleftrightarrow>
     (\<forall>d. copier_ok (pipe_copier d p)) \<and> pp_once p \<le> 3
     \<and> pp_src_closes p = (if 2 \<le> pp_once p then 1 else 0)
     \<and> pp_dst_closes p = (if pp_once p = 3 then 1 else 0)
     \<and> (\<forall>d. pc_of d p = Closing \<longrightarrow> pp_once p \<in> {1, 2})
     \<and> (\<forall>d d'. pc_of d p = Closing \<and> pc_of d' p = Closing \<longrightarrow> d = d')
     \<and> (pp_once p \<in> {1, 2} \<longrightarrow> (\<exists>d. pc_of d p = Closing))
     \<and> (\<forall>d. pc_of d p = Finished \<longrightarrow> pp_once p = 3)"

text \<open>The ways a move can go; the last is a step of the copy loop.\<close>

lemma pipe_stepE:
  obtains (claim) "pc_of (fst a) p = Copied" "pp_once p = 0"
      "pipe_step a p = goto (fst a) Closing (p\<lparr>pp_once := 1\<rparr>)"
  | (ends) "pc_of (fst a) p = Copied" "pp_once p = 3" "pipe_step a p = goto (fst a) Finished p"
  | (waits) "pc_of (fst a) p = Copied" "pp_once p \<noteq> 0" "pp_once p \<noteq> 3" "pipe_step a p = p"
  | (src) "pc_of (fst a) p = Closing" "pp_once p = 1"
      "pipe_step a p = p\<lparr>pp_src_closes := Suc (pp_src_closes p), pp_once := 2\<rparr>"
  | (dst) "pc_of (fst a) p = Closing" "pp_once p \<noteq> 1"
      "pipe_step a p = goto (fst a) Finished (p\<lparr>pp_dst_closes := Suc (pp_dst_closes p), pp_once := 3\<rparr>)"
  | (finished) "pc_of (fst a) p = Finished" "pipe_step a p = p"
  | (copies) "copying (pipe_copier (fst a) p)"
      "pipe_step a p = set_copier (fst a)
         (copy_step (read_closed (fst a) p) (write_closed (fst a) p) (snd a) (pipe_copier (fst a) p)) p"
proof (cases "cp_pc (pipe_copier (fst a) p)")
  case Copied
  then show thesis
    using claim ends waits by (cases "pp_once p = 0"; cases "pp_once p = 3") (simp_all add: pipe_step_def pc_of_def Let_def)
next
  case Closing
  then show thesis
    using src dst by (cases "pp_once p = 1") (simp_all add: pipe_step_def pc_of_def Let_def)
qed (use finished copies in \<open>simp_all add: pipe_step_def pc_of_def copying_def Let_def\<close>)

lemma pc_of_simps [simp]:
  "pc_of d (goto d' pc p) = (if d = d' then pc else pc_of d p)"
  "pc_of d (p\<lparr>pp_once := n\<rparr>) = pc_of d p" "pc_of d (p\<lparr>pp_src_closes := n\<rparr>) = pc_of d p"
  "pc_of d (p\<lparr>pp_dst_closes := n\<rparr>) = pc_of d p"
  "pc_of d (set_copier d' c p) = (if d = d' then cp_pc c else pc_of d p)"
  by (simp_all add: pc_of_def goto_def)

lemma goto_simps [simp]:
  "pp_once (goto d pc p) = pp_once p" "pp_src_closes (goto d pc p) = pp_src_closes p"
  "pp_dst_closes (goto d pc p) = pp_dst_closes p" "pp_src_stdio (goto d pc p) = pp_src_stdio p"
  "pipe_copier d' (goto d pc p) = (if d' = d then (pipe_copier d p)\<lparr>cp_pc := pc\<rparr> else pipe_copier d' p)"
  by (simp_all add: goto_def)

lemma pipe_step_ok: "pipe_ok p \<Longrightarrow> pipe_ok (pipe_step a p)"
proof -
  assume ok: "pipe_ok p"
  show ?thesis
  proof (cases a p rule: pipe_stepE)
    case copies
    have "cp_pc (copy_step rd wr ia c) \<notin> {Closing, Finished}" if "copying c" for rd wr ia c
      using copy_step_pc [OF that, of rd wr ia] by (auto simp: copying_def split: copy_pc.splits)
    moreover from copies(1) have "pc_of (fst a) p \<notin> {Closing, Finished}"
      by (auto simp: pc_of_def copying_def split: copy_pc.splits)
    ultimately have "(pc_of d (pipe_step a p) = Closing) = (pc_of d p = Closing)"
      "(pc_of d (pipe_step a p) = Finished) = (pc_of d p = Finished)" for d
      using copies by auto
    moreover have "copier_ok (pipe_copier d (pipe_step a p))" for d
      using ok copies by (simp add: pipe_ok_def copy_step_ok)
    moreover have "pp_once (pipe_step a p) = pp_once p" "pp_src_closes (pipe_step a p) = pp_src_closes p"
      "pp_dst_closes (pipe_step a p) = pp_dst_closes p" using copies by simp_all
    ultimately show ?thesis using ok by (simp add: pipe_ok_def)
  qed (use ok in \<open>auto simp: pipe_ok_def\<close>)
qed

lemma new_pipe_ok: "pipe_ok (new_pipe stdio)"
proof -
  have "pipe_copier d (new_pipe stdio) = new_copier" for d by (cases d) (simp_all add: new_pipe_def)
  then show ?thesis by (simp add: pipe_ok_def pc_of_def) (simp add: new_pipe_def new_copier_def)
qed

lemma run_pipe_ok: "pipe_ok p \<Longrightarrow> pipe_ok (run_pipe as p)"
  unfolding run_pipe_def by (induction as arbitrary: p) (simp_all add: pipe_step_ok)

subsection \<open>A pipe ends when one of its directions has\<close>

definition pipe_draining :: "pipe \<Rightarrow> bool" where
  "pipe_draining p \<longleftrightarrow> pipe_ok p \<and> \<not> pp_src_stdio p \<and> (pp_once p = 0 \<longrightarrow> (\<exists>d. pc_of d p = Copied))"

definition pipe_helpful :: "direction \<Rightarrow> pipe \<Rightarrow> bool" where
  "pipe_helpful d p \<longleftrightarrow>
     (if pp_once p = 0 then pc_of d p = Copied
      else if pp_once p = 3 then pc_of d p \<noteq> Finished
      else pc_of d p = Closing)"

definition pipe_left :: "pipe \<Rightarrow> nat" where
  "pipe_left p = (3 - pp_once p) + copy_left (pc_of Sent p) + copy_left (pc_of Received p)"

lemma direction_all: "(\<forall>d. P d) \<longleftrightarrow> P Sent \<and> P Received"
  by (metis direction.exhaust)

lemma direction_ex: "(\<exists>d. P d) \<longleftrightarrow> P Sent \<or> P Received"
  by (metis direction.exhaust)

lemma pipe_left_at: "pipe_left p = (3 - pp_once p) + copy_left (pc_of d p) +
    copy_left (pc_of (case d of Sent \<Rightarrow> Received | Received \<Rightarrow> Sent) p)"
  by (cases d) (simp_all add: pipe_left_def)

lemma other_direction: "(case d of Sent \<Rightarrow> Received | Received \<Rightarrow> Sent) \<noteq> d"
  by (cases d) simp_all

lemma copies_left:
  assumes "copying (pipe_copier d p)"
  shows "copy_left (cp_pc (copy_step rd wr ia (pipe_copier d p))) \<le> copy_left (pc_of d p)"
  using copy_step_pc [OF assms, of rd wr ia] copying_left [OF assms]
  by (auto simp: pc_of_def dest: copying_left)

lemma pipe_step_stdio: "pp_src_stdio (pipe_step a p) = pp_src_stdio p"
  by (cases a p rule: pipe_stepE) simp_all

lemma pipe_left_step: "pipe_ok p \<Longrightarrow> pipe_left (pipe_step a p) \<le> pipe_left p"
proof (cases a p rule: pipe_stepE)
  case copies
  then show ?thesis
    using copies_left [OF copies(1)] other_direction [of "fst a"]
    by (simp add: pipe_left_at [of _ "fst a"])
qed (use other_direction [of "fst a"] in \<open>simp_all add: pipe_left_at [of _ "fst a"]\<close>)

lemma pipe_helpful_moves:
  assumes "pipe_ok p" and "pipe_helpful (fst a) p" and "\<not> pp_src_stdio p"
  shows "pipe_left (pipe_step a p) < pipe_left p"
proof (cases a p rule: pipe_stepE)
  case copies
  then have pc: "pc_of (fst a) p \<notin> {Copied, Closing, Finished}"
    by (auto simp: pc_of_def copying_def split: copy_pc.splits)
  with assms(2) have "pp_once p = 3" by (auto simp: pipe_helpful_def split: if_splits)
  with assms(1,3) have "read_closed (fst a) p" "write_closed (fst a) p"
    by (cases "fst a"; simp add: pipe_ok_def)+
  with copies show ?thesis
    using copy_step_closed copying_left [OF copies(1)] other_direction [of "fst a"]
    by (simp add: pipe_left_at [of _ "fst a"] pc_of_def)
next
  case claim
  then show ?thesis using other_direction [of "fst a"] by (simp add: pipe_left_at [of _ "fst a"])
next
  case ends
  then show ?thesis using other_direction [of "fst a"] by (simp add: pipe_left_at [of _ "fst a"])
next
  case src
  then show ?thesis using other_direction [of "fst a"] by (simp add: pipe_left_at [of _ "fst a"])
next
  case dst
  then show ?thesis using other_direction [of "fst a"] assms(1)
    by (auto simp: pipe_left_at [of _ "fst a"] pipe_ok_def)
qed (use assms in \<open>auto simp: pipe_helpful_def pipe_ok_def split: if_splits\<close>)

lemma pipe_helpful_stays:
  assumes "pipe_ok p" and "pipe_helpful d p" and "\<not> pp_src_stdio p"
  shows "pipe_left (pipe_step a p) < pipe_left p \<or> pipe_helpful d (pipe_step a p)"
proof (cases "fst a = d")
  case True
  with assms pipe_helpful_moves show ?thesis by blast
next
  case False
  show ?thesis
  proof (cases a p rule: pipe_stepE)
    case claim
    then show ?thesis using other_direction [of "fst a"] by (simp add: pipe_left_at [of _ "fst a"])
  next
    case src
    then show ?thesis using other_direction [of "fst a"] by (simp add: pipe_left_at [of _ "fst a"])
  next
    case dst
    then show ?thesis using other_direction [of "fst a"] assms(1)
      by (auto simp: pipe_left_at [of _ "fst a"] pipe_ok_def)
  qed (use assms False in \<open>simp_all add: pipe_helpful_def\<close>)
qed

interpretation pipe: fair_progress pipe_step fst UNIV pipe_draining pipe_helpful pipe_left
proof unfold_locales
  fix p a
  assume "pipe_draining p"
  then have ok: "pipe_ok p" and ns: "\<not> pp_src_stdio p" and one: "pp_once p = 0 \<Longrightarrow> \<exists>d. pc_of d p = Copied" by (simp_all add: pipe_draining_def)
  show "pipe_left (pipe_step a p) \<le> pipe_left p" by (rule pipe_left_step [OF ok])
  show "pipe_draining (pipe_step a p)"
  proof (cases a p rule: pipe_stepE)
    case copies
    have "\<exists>d. pc_of d (pipe_step a p) = Copied" if "pp_once p = 0"
    proof -
      from one [OF that] obtain d where d: "pc_of d p = Copied" ..
      with copies(1) have "d \<noteq> fst a" by (auto simp: pc_of_def copying_def)
      with d copies show ?thesis by (auto intro!: exI [of _ d])
    qed
    with copies pipe_step_ok [OF ok, of a] ns show ?thesis by (simp add: pipe_draining_def)
  qed (use one ns pipe_step_ok [OF ok, of a] in \<open>auto simp: pipe_draining_def\<close>)
  show "\<exists>d \<in> UNIV. pipe_helpful d p" if "0 < pipe_left p"
  proof (cases "pp_once p = 3")
    case True
    with that have "copy_left (pc_of Sent p) \<noteq> 0 \<or> copy_left (pc_of Received p) \<noteq> 0" by (simp add: pipe_left_def)
    then have "pc_of Sent p \<noteq> Finished \<or> pc_of Received p \<noteq> Finished" by auto
    with True show ?thesis by (auto simp: pipe_helpful_def)
  next
    case False
    with ok one show ?thesis by (auto simp: pipe_helpful_def pipe_ok_def)
  qed
  show "pipe_left (pipe_step a p) < pipe_left p" if "pipe_helpful d p" "fst a = d" for d
    using pipe_helpful_moves [OF ok] that ns by blast
  show "pipe_left (pipe_step a p) < pipe_left p \<or> pipe_helpful d (pipe_step a p)" if "pipe_helpful d p" for d
    by (rule pipe_helpful_stays [OF ok that ns])
qed

lemma pipe_left_zero: "pipe_left p = 0 \<Longrightarrow> pp_once p \<le> 3 \<Longrightarrow> pp_once p = 3 \<and> (\<forall>d. pc_of d p = Finished)"
proof -
  assume "pipe_left p = 0" "pp_once p \<le> 3"
  then have "pp_once p = 3" "copy_left (pc_of Sent p) = 0" "copy_left (pc_of Received p) = 0"
    by (simp_all add: pipe_left_def)
  moreover have "copy_left pc = 0 \<Longrightarrow> pc = Finished" for pc by (cases pc) simp_all
  ultimately show ?thesis by (simp add: direction_all)
qed

text \<open>
  C24. A pipe ends when one of its directions has, unless it is on the standard streams. From any moment at which one of the two copies has
  ended, be it by the end of its stream or an error, after seven rounds in which both goroutines
  move, whatever their reads and writes return, \<^verbatim>\<open>Pipe\<close> has returned, and each stream has been
  closed exactly once. Nothing more of the other direction is waited for.
\<close>

theorem pipe_returns:
  assumes "pc_of d (run_pipe as (new_pipe False)) = Copied"
    and "7 \<le> length rounds" and "list_all (fair_round fst UNIV) rounds"
  shows "let p = run_pipe (as @ concat rounds) (new_pipe False)
    in pipe_result p \<noteq> None \<and> pp_src_closes p = 1 \<and> pp_dst_closes p = 1"
proof -
  let ?p = "run_pipe as (new_pipe False)" and ?q = "run_pipe (as @ concat rounds) (new_pipe False)"
  have ok: "pipe_ok ?p" by (rule run_pipe_ok [OF new_pipe_ok])
  have "pp_src_stdio ?p = False"
    unfolding run_pipe_def by (induction as rule: rev_induct) (simp_all add: pipe_step_stdio new_pipe_def)
  with ok assms(1) have "pipe_draining ?p" by (auto simp: pipe_draining_def)
  moreover have "copy_left pc \<le> 2" for pc by (cases pc) simp_all
  then have "copy_left (pc_of Sent ?p) \<le> 2" "copy_left (pc_of Received ?p) \<le> 2" by blast+
  then have "pipe_left ?p \<le> 7" by (simp add: pipe_left_def)
  ultimately have "pipe_left (fold pipe_step (concat rounds) ?p) = 0"
    using assms(2,3) by (intro pipe.rounds_finish) simp_all
  then have "pipe_left ?q = 0" by (simp add: run_pipe_def)
  moreover have "pipe_ok ?q" by (rule run_pipe_ok [OF new_pipe_ok])
  ultimately have "pipe_ok ?q" "pp_once ?q = 3" "\<forall>d. pc_of d ?q = Finished"
    using pipe_left_zero [of ?q] by (auto simp: pipe_ok_def)
  then show ?thesis
    by (simp add: Let_def pipe_result_def pipe_ok_def pc_of_def direction_all)
qed

definition answer :: "read_result \<Rightarrow> io_answer" where "answer r = \<lparr>ia_read = r, ia_wrote = 1000, ia_failed = False\<rparr>"

theorem pipe_returns_witness:
  "let round = [(Sent, answer (Data ''x'' False)), (Received, answer (Data ''y'' False))];
       p = run_pipe (round @ [(Sent, answer Ended), (Sent, answer Ended)] @ concat (replicate 7 round)) (new_pipe False)
   in pipe_result p \<noteq> None \<and> pp_src_closes p = 1"
proof -
  let ?round = "[(Sent, answer (Data ''x'' False)), (Received, answer (Data ''y'' False))]"
  let ?as = "?round @ [(Sent, answer Ended), (Sent, answer Ended)]"
  have "pc_of Sent (run_pipe ?as (new_pipe False)) = Copied"
    by (simp add: run_pipe_def pipe_step_def new_pipe_def new_copier_def answer_def copy_step_def pc_of_def Let_def)
  moreover have "fair_round fst UNIV ?round"
    unfolding fair_round_def using direction.exhaust by auto
  ultimately show ?thesis
    using pipe_returns [of Sent ?as "replicate 7 ?round"] by (simp add: Let_def list_all_iff)
qed

text \<open>
  A pipe carries a prefix of each stream. However the two goroutines interleave, what has been
  written in each direction is a prefix of what has been read, complete while the copy waits for more;
  and the two counts that \<^verbatim>\<open>Pipe\<close> returns are the numbers of bytes written.
\<close>

theorem pipe_carries_prefix:
  "let p = run_pipe as (new_pipe stdio)
   in (\<forall>d. prefix (cp_written (pipe_copier d p)) (cp_read (pipe_copier d p)))
    \<and> (\<forall>d. pc_of d p = Reading \<longrightarrow> cp_written (pipe_copier d p) = cp_read (pipe_copier d p))
    \<and> (\<forall>s r. pipe_result p = Some (s, r) \<longrightarrow>
         s = of_nat (length (cp_written (pp_sent p))) \<and> r = of_nat (length (cp_written (pp_received p))))"
proof -
  have ok: "copier_ok (pipe_copier d (run_pipe as (new_pipe stdio)))" for d
    using run_pipe_ok [OF new_pipe_ok, of as] by (simp add: pipe_ok_def)
  have "pc_of d (run_pipe as (new_pipe stdio)) = Reading \<longrightarrow>
      cp_written (pipe_copier d (run_pipe as (new_pipe stdio))) = cp_read (pipe_copier d (run_pipe as (new_pipe stdio)))" for d
    using ok [of d] by (auto simp: pc_of_def copier_ok_def)
  with ok copier_ok_prefix show ?thesis
    by (auto simp: Let_def pipe_result_def copy_count_def split: if_splits)
qed

theorem pipe_carries_prefix_witness:
  "let p = run_pipe [(Sent, answer (Data ''ab'' False)), (Sent, answer Ended)] (new_pipe False)
   in pc_of Sent p = Reading \<and> cp_written (pp_sent p) = ''ab''"
proof -
  let ?p = "run_pipe [(Sent, answer (Data ''ab'' False)), (Sent, answer Ended)] (new_pipe False)"
  have "pc_of Sent ?p = Reading" "cp_read (pp_sent ?p) = ''ab''"
    by (simp_all add: run_pipe_def pipe_step_def new_pipe_def new_copier_def answer_def copy_step_def pc_of_def Let_def)
  moreover have "pc_of Sent ?p = Reading \<longrightarrow> cp_written (pipe_copier Sent ?p) = cp_read (pipe_copier Sent ?p)"
    using pipe_carries_prefix [of "[(Sent, answer (Data ''ab'' False)), (Sent, answer Ended)]"]
    unfolding Let_def by blast
  ultimately show ?thesis by (simp add: Let_def)
qed

subsection \<open>The relay of a pair\<close>

text \<open>
  \<^verbatim>\<open>pipeBidirectional\<close>: the source is its left stream, the destination its right one. Each goroutine
  closes the stream it wrote to when its copy has ended. It returns what was copied to the left,
  then what was copied to the right.
\<close>

fun close_written :: "direction \<Rightarrow> pipe \<Rightarrow> pipe" where
  "close_written Sent p = p\<lparr>pp_dst_closes := Suc (pp_dst_closes p)\<rparr>"
| "close_written Received p = p\<lparr>pp_src_closes := Suc (pp_src_closes p)\<rparr>"

definition relay_step :: "direction \<times> io_answer \<Rightarrow> pipe \<Rightarrow> pipe" where
  "relay_step a p =
     (let d = fst a; c = pipe_copier d p
      in case cp_pc c of
           Copied \<Rightarrow> close_written d (goto d Finished p)
         | Closing \<Rightarrow> p
         | Finished \<Rightarrow> p
         | _ \<Rightarrow> set_copier d (copy_step (read_closed d p) (write_closed d p) (snd a) c) p)"

definition run_relay :: "(direction \<times> io_answer) list \<Rightarrow> pipe \<Rightarrow> pipe" where
  "run_relay as p = fold relay_step as p"

definition relay_result :: "pipe \<Rightarrow> (64 word \<times> 64 word) option" where
  "relay_result p =
     (if cp_pc (pp_sent p) = Finished \<and> cp_pc (pp_received p) = Finished
      then Some (copy_count (pp_received p), copy_count (pp_sent p)) else None)"

text \<open>
  \<^verbatim>\<open>relayUDSPair\<close>: the streams of both proxies are opened, the first one first; a stream that was
  opened is closed again at the end. The result is None while the copies run.
\<close>

datatype relay_end = Open_failed string | Relayed "64 word" "64 word"

definition relay_uds_pair :: "string option \<Rightarrow> string option \<Rightarrow> pipe \<Rightarrow> relay_end option" where
  "relay_uds_pair a_err b_err p =
     (case a_err of
        Some e \<Rightarrow> Some (Open_failed e)
      | None \<Rightarrow>
          (case b_err of
             Some e \<Rightarrow> Some (Open_failed e)
           | None \<Rightarrow> map_option (\<lambda>(s, r). Relayed s r) (relay_result p)))"

definition relay_ok :: "pipe \<Rightarrow> bool" where
  "relay_ok p \<longleftrightarrow>
     (\<forall>d. copier_ok (pipe_copier d p)) \<and> (\<forall>d. pc_of d p \<noteq> Closing) \<and> \<not> pp_src_stdio p
     \<and> pp_dst_closes p = (if pc_of Sent p = Finished then 1 else 0)
     \<and> pp_src_closes p = (if pc_of Received p = Finished then 1 else 0)"

fun other :: "direction \<Rightarrow> direction" where
  "other Sent = Received"
| "other Received = Sent"

lemma other_neq [simp]: "other d \<noteq> d" "d \<noteq> other d" "other (other d) = d" by (cases d; simp)+

lemma not_direction: "d' \<noteq> d \<Longrightarrow> d' = other d" by (cases d; cases d') simp_all

lemma close_written_simps [simp]:
  "pipe_copier d' (close_written d p) = pipe_copier d' p" "pc_of d' (close_written d p) = pc_of d' p"
  "pp_src_stdio (close_written d p) = pp_src_stdio p"
  by (cases d; simp add: pc_of_def)+

lemma relay_stepE:
  obtains (ends) "pc_of (fst a) p = Copied" "relay_step a p = close_written (fst a) (goto (fst a) Finished p)"
  | (still) "pc_of (fst a) p \<in> {Closing, Finished}" "relay_step a p = p"
  | (copies) "copying (pipe_copier (fst a) p)"
      "relay_step a p = set_copier (fst a)
         (copy_step (read_closed (fst a) p) (write_closed (fst a) p) (snd a) (pipe_copier (fst a) p)) p"
  by (cases "cp_pc (pipe_copier (fst a) p)") (use ends still copies in \<open>simp_all add: relay_step_def pc_of_def copying_def Let_def\<close>)

lemma relay_closed: "relay_ok p \<Longrightarrow> read_closed d p \<longleftrightarrow> pc_of (other d) p = Finished"
  "relay_ok p \<Longrightarrow> write_closed d p \<longleftrightarrow> pc_of d p = Finished"
  by (cases d; simp add: relay_ok_def)+

lemma copy_step_not_ended: "copying c \<Longrightarrow> cp_pc (copy_step rd wr ia c) \<notin> {Closing, Finished}"
  using copy_step_pc [of c rd wr ia] by (auto simp: copying_def split: copy_pc.splits)

lemma copying_not_ended: "copying (pipe_copier d p) \<Longrightarrow> pc_of d p \<notin> {Copied, Closing, Finished}"
  by (auto simp: pc_of_def copying_def split: copy_pc.splits)

lemma relay_step_ok:
  assumes ok: "relay_ok p"
  shows "relay_ok (relay_step a p)"
proof (cases a p rule: relay_stepE)
  case ends
  with ok show ?thesis
    by (cases "fst a") (auto simp: relay_ok_def direction_all)
next
  case copies
  have "(pc_of d (relay_step a p) = Closing) = (pc_of d p = Closing)"
    "(pc_of d (relay_step a p) = Finished) = (pc_of d p = Finished)" for d
    using copies copy_step_not_ended [OF copies(1)] copying_not_ended [OF copies(1)] by auto
  moreover have "copier_ok (pipe_copier d (relay_step a p))" for d
    using ok copies by (simp add: relay_ok_def copy_step_ok)
  moreover have "pp_src_closes (relay_step a p) = pp_src_closes p" "pp_dst_closes (relay_step a p) = pp_dst_closes p"
    "pp_src_stdio (relay_step a p) = pp_src_stdio p"
    using copies by simp_all
  ultimately show ?thesis using ok by (simp add: relay_ok_def)
qed (use ok in simp)

fun relay_rank :: "copy_pc \<Rightarrow> nat" where
  "relay_rank (Writing bs fin) = 3"
| "relay_rank Reading = 2"
| "relay_rank Copied = 1"
| "relay_rank pc = 0"

definition relay_part :: "direction \<Rightarrow> pipe \<Rightarrow> nat" where
  "relay_part d p =
     (if pc_of (other d) p = Finished \<or> pc_of d p = Copied \<or> pc_of d p = Finished then relay_rank (pc_of d p) else 3)"

definition relay_left :: "pipe \<Rightarrow> nat" where "relay_left p = relay_part Sent p + relay_part Received p"

definition relay_draining :: "pipe \<Rightarrow> bool" where
  "relay_draining p \<longleftrightarrow> relay_ok p \<and> (\<exists>d. pc_of d p \<in> {Copied, Finished})"

definition relay_helpful :: "direction \<Rightarrow> pipe \<Rightarrow> bool" where
  "relay_helpful d p \<longleftrightarrow> pc_of d p = Copied \<or> pc_of (other d) p = Finished \<and> pc_of d p \<noteq> Finished"

lemma relay_left_at: "relay_left p = relay_part d p + relay_part (other d) p"
  by (cases d) (simp_all add: relay_left_def)

lemma relay_rank_le: "relay_rank pc \<le> 3" by (cases pc) simp_all

lemma copy_step_rank:
  assumes "copying c" and "rd"
  shows "relay_rank (cp_pc (copy_step rd wr ia c)) < relay_rank (cp_pc c)"
  using assms by (auto simp: copying_def copy_step_def Let_def split: copy_pc.splits)

lemma relay_parts:
  assumes ok: "relay_ok p"
  shows "relay_part (other (fst a)) (relay_step a p) \<le> relay_part (other (fst a)) p"
    and "relay_part (fst a) (relay_step a p) \<le> relay_part (fst a) p"
    and "relay_helpful (fst a) p \<Longrightarrow> relay_part (fst a) (relay_step a p) < relay_part (fst a) p"
proof (atomize (full), cases a p rule: relay_stepE)
  case ends
  then show "relay_part (other (fst a)) (relay_step a p) \<le> relay_part (other (fst a)) p
      \<and> relay_part (fst a) (relay_step a p) \<le> relay_part (fst a) p
      \<and> (relay_helpful (fst a) p \<longrightarrow> relay_part (fst a) (relay_step a p) < relay_part (fst a) p)"
    by (auto simp: relay_part_def relay_rank_le)
next
  case still
  with ok show "relay_part (other (fst a)) (relay_step a p) \<le> relay_part (other (fst a)) p
      \<and> relay_part (fst a) (relay_step a p) \<le> relay_part (fst a) p
      \<and> (relay_helpful (fst a) p \<longrightarrow> relay_part (fst a) (relay_step a p) < relay_part (fst a) p)"
    by (auto simp: relay_helpful_def relay_ok_def)
next
  case copies
  let ?pc = "cp_pc (copy_step (read_closed (fst a) p) (write_closed (fst a) p) (snd a) (pipe_copier (fst a) p))"
  have "pc_of (other (fst a)) p = Finished \<Longrightarrow> relay_rank ?pc < relay_rank (pc_of (fst a) p)"
    using copy_step_rank [OF copies(1)] relay_closed(1) [OF ok] by (simp add: pc_of_def)
  then show "relay_part (other (fst a)) (relay_step a p) \<le> relay_part (other (fst a)) p
      \<and> relay_part (fst a) (relay_step a p) \<le> relay_part (fst a) p
      \<and> (relay_helpful (fst a) p \<longrightarrow> relay_part (fst a) (relay_step a p) < relay_part (fst a) p)"
    using copies copy_step_not_ended [OF copies(1)] copying_not_ended [OF copies(1)]
    by (auto simp: relay_part_def relay_helpful_def relay_rank_le)
qed

lemma relay_left_step: "relay_ok p \<Longrightarrow> relay_left (relay_step a p) \<le> relay_left p"
  using relay_parts(1,2) [of p a] by (simp add: relay_left_at [of _ "fst a"])

lemma relay_pc_kept: "d \<noteq> fst a \<Longrightarrow> pc_of d (relay_step a p) = pc_of d p"
  by (cases a p rule: relay_stepE) simp_all

lemma relay_finished_kept: "pc_of d p = Finished \<Longrightarrow> pc_of d (relay_step a p) = Finished"
  by (cases a p rule: relay_stepE) (auto dest: copying_not_ended)

interpretation relay: fair_progress relay_step fst UNIV relay_draining relay_helpful relay_left
proof unfold_locales
  fix p a
  assume "relay_draining p"
  then have ok: "relay_ok p" and one: "\<exists>d. pc_of d p \<in> {Copied, Finished}" by (simp_all add: relay_draining_def)
  show "relay_left (relay_step a p) \<le> relay_left p" by (rule relay_left_step [OF ok])
  have "\<exists>d. pc_of d (relay_step a p) \<in> {Copied, Finished}"
  proof (cases a p rule: relay_stepE)
    case copies
    with one obtain d where "pc_of d p \<in> {Copied, Finished}" "d \<noteq> fst a" by (auto dest: copying_not_ended)
    with relay_pc_kept show ?thesis by metis
  qed (use one in auto)
  with relay_step_ok [OF ok] show "relay_draining (relay_step a p)" by (simp add: relay_draining_def)
  show "\<exists>d \<in> UNIV. relay_helpful d p" if left: "0 < relay_left p"
  proof (rule ccontr)
    assume "\<not> ?thesis"
    then have none: "\<not> relay_helpful d p" for d by blast
    from one none have "\<exists>d. pc_of d p = Finished" by (auto simp: relay_helpful_def)
    then obtain d where "pc_of d p = Finished" ..
    with none [of "other d"] have "pc_of (other d) p = Finished" by (simp add: relay_helpful_def)
    with \<open>pc_of d p = Finished\<close> left show False by (simp add: relay_left_at [of _ d] relay_part_def)
  qed
  show "relay_left (relay_step a p) < relay_left p" if "relay_helpful d p" "fst a = d" for d
    using relay_parts [OF ok, of a] that by (simp add: relay_left_at [of _ "fst a"])
  show "relay_left (relay_step a p) < relay_left p \<or> relay_helpful d (relay_step a p)" if h: "relay_helpful d p" for d
  proof (cases "fst a = d")
    case True
    then show ?thesis using relay_parts [OF ok, of a] h by (simp add: relay_left_at [of _ "fst a"])
  next
    case False
    with h relay_pc_kept [of d a p] relay_finished_kept [of "other d" p a] show ?thesis
      by (auto simp: relay_helpful_def)
  qed
qed

lemma run_relay_ok: "relay_ok p \<Longrightarrow> relay_ok (run_relay as p)"
  unfolding run_relay_def by (induction as arbitrary: p) (simp_all add: relay_step_ok)

lemma new_relay_ok: "relay_ok (new_pipe False)"
proof -
  have "pipe_copier d (new_pipe False) = new_copier" for d by (cases d) (simp_all add: new_pipe_def)
  then show ?thesis by (simp add: relay_ok_def pc_of_def) (simp add: new_pipe_def new_copier_def)
qed

lemma relay_part_zero: "relay_part d p = 0 \<Longrightarrow> pc_of d p \<noteq> Closing \<Longrightarrow> pc_of d p = Finished"
  by (cases "pc_of d p") (simp_all add: relay_part_def split: if_splits)

text \<open>
  The relay of a pair ends when one of its directions has. From any moment at which one copy has
  ended, after five rounds in which both goroutines move, \<^verbatim>\<open>pipeBidirectional\<close> has returned
  and each stream has been closed exactly once by it, although each goroutine closes only the
  stream it wrote to: the close of one ends the other's read.
\<close>

theorem relay_returns:
  assumes "pc_of d (run_relay as (new_pipe False)) = Copied"
    and "5 \<le> length rounds" and "list_all (fair_round fst UNIV) rounds"
  shows "let p = run_relay (as @ concat rounds) (new_pipe False)
    in relay_result p \<noteq> None \<and> pp_src_closes p = 1 \<and> pp_dst_closes p = 1"
proof -
  let ?p = "run_relay as (new_pipe False)" and ?q = "run_relay (as @ concat rounds) (new_pipe False)"
  have "relay_ok ?p" by (rule run_relay_ok [OF new_relay_ok])
  with assms(1) have "relay_draining ?p" by (auto simp: relay_draining_def)
  moreover have "relay_part d ?p \<le> 1" "relay_part (other d) ?p \<le> 3"
    using assms(1) relay_rank_le by (auto simp: relay_part_def)
  then have "relay_left ?p \<le> 5" by (simp add: relay_left_at [of _ d])
  ultimately have "relay_left (fold relay_step (concat rounds) ?p) = 0"
    using assms(2,3) by (intro relay.rounds_finish) simp_all
  then have "relay_left ?q = 0" by (simp add: run_relay_def)
  moreover have ok: "relay_ok ?q" by (rule run_relay_ok [OF new_relay_ok])
  ultimately have "relay_part d ?q = 0" for d by (cases d) (simp_all add: relay_left_def)
  then have "pc_of d ?q = Finished" for d
    using relay_part_zero [of d ?q] ok by (simp add: relay_ok_def)
  then have "pc_of Sent ?q = Finished" "pc_of Received ?q = Finished" by blast+
  with ok show ?thesis by (simp add: Let_def relay_result_def relay_ok_def) (simp add: pc_of_def)
qed

theorem relay_returns_witness:
  "let round = [(Sent, answer (Data ''x'' False)), (Received, answer (Data ''y'' False))];
       p = run_relay ([(Sent, answer Ended)] @ concat (replicate 5 round)) (new_pipe False)
   in relay_result p \<noteq> None \<and> pp_src_closes p = 1 \<and> pp_dst_closes p = 1"
proof -
  let ?round = "[(Sent, answer (Data ''x'' False)), (Received, answer (Data ''y'' False))]"
  have "pc_of Sent (run_relay [(Sent, answer Ended)] (new_pipe False)) = Copied"
    by (simp add: run_relay_def relay_step_def new_pipe_def new_copier_def answer_def copy_step_def pc_of_def Let_def)
  moreover have "fair_round fst UNIV ?round"
    unfolding fair_round_def using direction.exhaust by auto
  ultimately show ?thesis
    using relay_returns [of Sent "[(Sent, answer Ended)]" "replicate 5 ?round"] by (simp add: Let_def list_all_iff)
qed

subsection \<open>Standard input is not interrupted\<close>

text \<open>
  A pipe on the standard streams does not return while its input is silent, although the other
  side has gone: the close of the standard input does nothing, and its reader stays.
\<close>

theorem stdio_pipe_lingers:
  assumes "pc_of Sent p = Reading" and "pp_src_stdio p"
    and "list_all (\<lambda>a. fst a = Sent \<longrightarrow> ia_read (snd a) = Data [] False) as"
  shows "pipe_result (run_pipe as p) = None"
proof -
  have "pc_of Sent (run_pipe as p) = Reading \<and> pp_src_stdio (run_pipe as p)"
    using assms(3) unfolding run_pipe_def
  proof (induction as rule: rev_induct)
    case Nil
    with assms(1,2) show ?case by simp
  next
    case (snoc a as)
    let ?q = "fold pipe_step as p"
    have q: "pc_of Sent ?q = Reading" "pp_src_stdio ?q" and a: "fst a = Sent \<longrightarrow> ia_read (snd a) = Data [] False"
      using snoc by simp_all
    have "pc_of Sent (pipe_step a ?q) = Reading"
    proof (cases a ?q rule: pipe_stepE)
      case copies
      with q a show ?thesis by (auto simp: copy_step_def pc_of_def)
    qed (use q in \<open>auto\<close>)
    with q(2) show ?case by (simp add: pipe_step_stdio)
  qed
  then show ?thesis by (simp add: pipe_result_def pc_of_def)
qed

end
