(* ===== verification/Links.thy ===== *)
theory Links
  imports Copying
begin

text \<open>
  A stream from end to end: the pipe of a proxy (\<^verbatim>\<open>pipeRemote\<close> in \<^verbatim>\<open>tunnel_in_proxy.go\<close>) between
  a local connection and an SSH channel, the channel, and the pipe at its other end (\<^verbatim>\<open>handleTCP\<close> in
  \<^verbatim>\<open>tunnel_out_ssh.go\<close>) between the channel and the target. The four goroutines interleave freely.
  The channel keeps what has been written and not yet read, in order; it is what the SSH
  library promises. Reads and writes of the local connection and of the target are as in \<open>Copying\<close>.
\<close>

datatype side = Near | Far

record link =
  ln_near :: pipe
  ln_far :: pipe
  ln_up :: string
  ln_down :: string

definition new_link :: "bool \<Rightarrow> link" where
  "new_link stdio = \<lparr>ln_near = new_pipe stdio, ln_far = new_pipe False, ln_up = [], ln_down = []\<rparr>"

text \<open>
  What a read of a channel returns: bytes that are there, at most as many as the answer offers, and the
  end together with the last of them only. An end before that is a lost connection.
\<close>

definition channel_answer :: "string \<Rightarrow> io_answer \<Rightarrow> io_answer" where
  "channel_answer buf ia =
     ia\<lparr>ia_read := (case ia_read ia of
          Ended \<Rightarrow> Ended
        | Data bs fin \<Rightarrow> Data (take (length bs) buf) (fin \<and> length buf \<le> length bs))\<rparr>"

definition gained :: "(copier \<Rightarrow> string) \<Rightarrow> direction \<Rightarrow> pipe \<Rightarrow> pipe \<Rightarrow> string" where
  "gained f d p p' = drop (length (f (pipe_copier d p))) (f (pipe_copier d p'))"

fun link_step :: "(side \<times> direction) \<times> io_answer \<Rightarrow> link \<Rightarrow> link" where
  "link_step ((Near, Sent), ia) l =
     (let p = pipe_step (Sent, ia) (ln_near l)
      in l\<lparr>ln_near := p, ln_up := ln_up l @ gained cp_written Sent (ln_near l) p\<rparr>)"
| "link_step ((Far, Sent), ia) l =
     (let p = pipe_step (Sent, channel_answer (ln_up l) ia) (ln_far l)
      in l\<lparr>ln_far := p, ln_up := drop (length (gained cp_read Sent (ln_far l) p)) (ln_up l)\<rparr>)"
| "link_step ((Far, Received), ia) l =
     (let p = pipe_step (Received, ia) (ln_far l)
      in l\<lparr>ln_far := p, ln_down := ln_down l @ gained cp_written Received (ln_far l) p\<rparr>)"
| "link_step ((Near, Received), ia) l =
     (let p = pipe_step (Received, channel_answer (ln_down l) ia) (ln_near l)
      in l\<lparr>ln_near := p, ln_down := drop (length (gained cp_read Received (ln_near l) p)) (ln_down l)\<rparr>)"

definition run_link :: "((side \<times> direction) \<times> io_answer) list \<Rightarrow> link \<Rightarrow> link" where
  "run_link ms l = fold link_step ms l"

lemma run_link_simps [simp]:
  "run_link [] l = l" "run_link (ms @ [m]) l = link_step m (run_link ms l)"
  by (simp_all add: run_link_def)

subsection \<open>What a step of a pipe reads and writes\<close>

lemma pipe_step_other: "d \<noteq> fst a \<Longrightarrow> pipe_copier d (pipe_step a p) = pipe_copier d p"
  by (cases a p rule: pipe_stepE) auto

lemma copy_step_gains:
  "(cp_read (copy_step rd wr ia c) = cp_read c
     \<or> (\<exists>bs fin. ia_read ia = Data bs fin \<and> cp_read (copy_step rd wr ia c) = cp_read c @ bs))
   \<and> prefix (cp_written c) (cp_written (copy_step rd wr ia c))"
  by (auto simp: copy_step_def Let_def split: copy_pc.split read_result.split)

lemma pipe_step_gains:
  "(cp_read (pipe_copier d (pipe_step (d, ia) p)) = cp_read (pipe_copier d p)
     \<or> (\<exists>bs fin. ia_read ia = Data bs fin
          \<and> cp_read (pipe_copier d (pipe_step (d, ia) p)) = cp_read (pipe_copier d p) @ bs))
   \<and> prefix (cp_written (pipe_copier d p)) (cp_written (pipe_copier d (pipe_step (d, ia) p)))"
proof (cases "(d, ia)" p rule: pipe_stepE)
  case copies
  then show ?thesis using copy_step_gains [of "read_closed d p" "write_closed d p" ia "pipe_copier d p"] by simp
qed simp_all

lemma written_gained:
  "cp_written (pipe_copier d (pipe_step (d, ia) p)) =
     cp_written (pipe_copier d p) @ gained cp_written d p (pipe_step (d, ia) p)"
  using pipe_step_gains [of d ia p] by (auto simp: gained_def prefix_def)

lemma read_gained:
  "cp_read (pipe_copier d (pipe_step (d, channel_answer buf ia) p)) =
     cp_read (pipe_copier d p) @ gained cp_read d p (pipe_step (d, channel_answer buf ia) p)
   \<and> prefix (gained cp_read d p (pipe_step (d, channel_answer buf ia) p)) buf"
  using pipe_step_gains [of d "channel_answer buf ia" p]
  by (auto simp: gained_def channel_answer_def take_is_prefix split: read_result.splits)

subsection \<open>Nothing is changed, lost or made up on the way\<close>

definition link_ok :: "link \<Rightarrow> bool" where
  "link_ok l \<longleftrightarrow>
     pipe_ok (ln_near l) \<and> pipe_ok (ln_far l)
     \<and> cp_written (pipe_copier Sent (ln_near l)) = cp_read (pipe_copier Sent (ln_far l)) @ ln_up l
     \<and> cp_written (pipe_copier Received (ln_far l)) = cp_read (pipe_copier Received (ln_near l)) @ ln_down l"

lemma new_link_ok: "link_ok (new_link stdio)"
  by (simp add: link_ok_def new_link_def new_pipe_ok) (simp add: new_pipe_def new_copier_def)

lemma prefix_dropped: "prefix xs ys \<Longrightarrow> xs @ drop (length xs) ys = ys"
  by (auto simp: prefix_def)

lemma link_step_ok:
  assumes "link_ok l"
  shows "link_ok (link_step m l)"
proof -
  obtain s d ia where m: "m = ((s, d), ia)" by (metis surj_pair)
  have other: "pipe_copier Received (pipe_step (Sent, ia) p) = pipe_copier Received p"
    "pipe_copier Sent (pipe_step (Received, ia) p) = pipe_copier Sent p" for ia p
    by (rule pipe_step_other, simp)+
  show ?thesis
  proof (cases s; cases d)
    assume "s = Near" "d = Sent"
    with assms show ?thesis
      using written_gained [of Sent ia "ln_near l"] other
      by (simp add: m link_ok_def Let_def pipe_step_ok del: pipe_copier.simps)
  next
    assume "s = Far" "d = Received"
    with assms show ?thesis
      using written_gained [of Received ia "ln_far l"] other
      by (simp add: m link_ok_def Let_def pipe_step_ok del: pipe_copier.simps)
  next
    assume "s = Far" "d = Sent"
    with assms show ?thesis
      using read_gained [of Sent "ln_up l" ia "ln_far l"] other
        prefix_dropped [OF conjunct2 [OF read_gained [of Sent "ln_up l" ia "ln_far l"]]]
      by (auto simp add: m link_ok_def Let_def pipe_step_ok simp del: pipe_copier.simps)
  next
    assume "s = Near" "d = Received"
    with assms show ?thesis
      using read_gained [of Received "ln_down l" ia "ln_near l"] other
        prefix_dropped [OF conjunct2 [OF read_gained [of Received "ln_down l" ia "ln_near l"]]]
      by (auto simp add: m link_ok_def Let_def pipe_step_ok simp del: pipe_copier.simps)
  qed
qed

lemma run_link_ok: "link_ok l \<Longrightarrow> link_ok (run_link ms l)"
  by (induction ms rule: rev_induct) (simp_all add: link_step_ok)

text \<open>What a copier has read and not yet written.\<close>

definition held :: "copier \<Rightarrow> string" where
  "held c = (case cp_pc c of Writing bs fin \<Rightarrow> bs | _ \<Rightarrow> [])"

lemma read_held: "copier_ok c \<Longrightarrow> copying c \<Longrightarrow> cp_read c = cp_written c @ held c"
  by (auto simp: copier_ok_def copying_def held_def split: copy_pc.splits)

text \<open>
  C25. A tunnelled stream arrives. However the four goroutines of a stream interleave and whatever their
  calls return, what the target has been sent is a prefix of what the local connection has said, and
  what the local connection has been sent is a prefix of what the target has said; and as long as
  the two copies of a direction go on, nothing is missing: what was said is what arrived, then what
  the second copy holds, then what is in the channel, then what the first copy holds.
\<close>

theorem link_carries_streams:
  "let l = run_link ms (new_link stdio); up = pipe_copier Sent; down = pipe_copier Received
   in prefix (cp_written (up (ln_far l))) (cp_read (up (ln_near l)))
    \<and> prefix (cp_written (down (ln_near l))) (cp_read (down (ln_far l)))
    \<and> (copying (up (ln_near l)) \<and> copying (up (ln_far l)) \<longrightarrow>
         cp_read (up (ln_near l)) =
           cp_written (up (ln_far l)) @ held (up (ln_far l)) @ ln_up l @ held (up (ln_near l)))
    \<and> (copying (down (ln_far l)) \<and> copying (down (ln_near l)) \<longrightarrow>
         cp_read (down (ln_far l)) =
           cp_written (down (ln_near l)) @ held (down (ln_near l)) @ ln_down l @ held (down (ln_far l)))"
proof -
  let ?l = "run_link ms (new_link stdio)"
  have ok: "link_ok ?l" by (rule run_link_ok [OF new_link_ok])
  then have cps: "copier_ok (pipe_copier d (ln_near ?l))" "copier_ok (pipe_copier d (ln_far ?l))" for d
    by (simp_all add: link_ok_def pipe_ok_def)
  from ok have chans: "cp_written (pipe_copier Sent (ln_near ?l)) = cp_read (pipe_copier Sent (ln_far ?l)) @ ln_up ?l"
    "cp_written (pipe_copier Received (ln_far ?l)) = cp_read (pipe_copier Received (ln_near ?l)) @ ln_down ?l"
    by (simp_all add: link_ok_def del: pipe_copier.simps)
  have "prefix (cp_written (pipe_copier Sent (ln_far ?l))) (cp_read (pipe_copier Sent (ln_near ?l)))"
    using copier_ok_prefix [OF cps(2), of Sent] copier_ok_prefix [OF cps(1), of Sent] chans(1)
    by (metis append_prefixD prefix_order.trans)
  moreover have "prefix (cp_written (pipe_copier Received (ln_near ?l))) (cp_read (pipe_copier Received (ln_far ?l)))"
    using copier_ok_prefix [OF cps(1), of Received] copier_ok_prefix [OF cps(2), of Received] chans(2)
    by (metis append_prefixD prefix_order.trans)
  moreover have "copying (pipe_copier Sent (ln_near ?l)) \<and> copying (pipe_copier Sent (ln_far ?l)) \<longrightarrow>
      cp_read (pipe_copier Sent (ln_near ?l)) = cp_written (pipe_copier Sent (ln_far ?l))
        @ held (pipe_copier Sent (ln_far ?l)) @ ln_up ?l @ held (pipe_copier Sent (ln_near ?l))"
    using read_held [OF cps(1), of Sent] read_held [OF cps(2), of Sent] chans(1) by (metis append.assoc)
  moreover have "copying (pipe_copier Received (ln_far ?l)) \<and> copying (pipe_copier Received (ln_near ?l)) \<longrightarrow>
      cp_read (pipe_copier Received (ln_far ?l)) = cp_written (pipe_copier Received (ln_near ?l))
        @ held (pipe_copier Received (ln_near ?l)) @ ln_down ?l @ held (pipe_copier Received (ln_far ?l))"
    using read_held [OF cps(2), of Received] read_held [OF cps(1), of Received] chans(2) by (metis append.assoc)
  ultimately show ?thesis unfolding Let_def by blast
qed

text \<open>The local connection says three bytes; the second pipe has taken two of them.\<close>

definition demo_link_moves :: "((side \<times> direction) \<times> io_answer) list" where
  "demo_link_moves =
     [((Near, Sent), \<lparr>ia_read = Data ''abc'' False, ia_wrote = 0, ia_failed = False\<rparr>),
      ((Near, Sent), \<lparr>ia_read = Ended, ia_wrote = 3, ia_failed = False\<rparr>),
      ((Far, Sent), \<lparr>ia_read = Data ''xx'' False, ia_wrote = 0, ia_failed = False\<rparr>)]"

lemma demo_link_state:
  "let l = run_link demo_link_moves (new_link False)
   in held (pp_sent (ln_far l)) = ''ab'' \<and> ln_up l = ''c'' \<and> cp_pc (pp_sent (ln_near l)) = Reading
     \<and> cp_pc (pp_sent (ln_far l)) = Writing ''ab'' False \<and> cp_pc (pp_received (ln_near l)) = Reading
     \<and> cp_pc (pp_received (ln_far l)) = Reading \<and> ln_down l = [] \<and> cp_read (pp_sent (ln_near l)) = ''abc''
     \<and> pp_once (ln_near l) = 0 \<and> pp_once (ln_far l) = 0"
  by code_simp

theorem link_carries_streams_witness:
  "let l = run_link demo_link_moves (new_link False)
   in copying (pp_sent (ln_near l)) \<and> copying (pp_sent (ln_far l))
     \<and> cp_read (pp_sent (ln_near l)) = cp_written (pp_sent (ln_far l)) @ ''ab'' @ ''c''"
proof -
  let ?l = "run_link demo_link_moves (new_link False)"
  have c: "copying (pp_sent (ln_near ?l))" "copying (pp_sent (ln_far ?l))"
    and h: "held (pp_sent (ln_far ?l)) = ''ab''" "ln_up ?l = ''c''" "held (pp_sent (ln_near ?l)) = []"
    using demo_link_state by (simp_all add: Let_def copying_def held_def)
  have "copying (pp_sent (ln_near ?l)) \<and> copying (pp_sent (ln_far ?l)) \<longrightarrow> cp_read (pp_sent (ln_near ?l)) =
      cp_written (pp_sent (ln_far ?l)) @ held (pp_sent (ln_far ?l)) @ ln_up ?l @ held (pp_sent (ln_near ?l))"
    using link_carries_streams [of demo_link_moves False] by (simp add: Let_def)
  with c h show ?thesis by (simp add: Let_def)
qed

subsection \<open>What has been said arrives\<close>

text \<open>
  The two copies of a direction with the channel between them. In a calm move nobody says more, writes are
  complete, and a read of the channel returns one byte or more if there are any.
\<close>

fun flow :: "direction \<Rightarrow> link \<Rightarrow> copier \<times> string \<times> copier" where
  "flow Sent l = (pipe_copier Sent (ln_near l), ln_up l, pipe_copier Sent (ln_far l))"
| "flow Received l = (pipe_copier Received (ln_far l), ln_down l, pipe_copier Received (ln_near l))"

fun first_side :: "direction \<Rightarrow> side" where
  "first_side Sent = Near"
| "first_side Received = Far"

fun side_pipe :: "side \<Rightarrow> link \<Rightarrow> pipe" where
  "side_pipe Near l = ln_near l"
| "side_pipe Far l = ln_far l"

definition calm_answer :: "side \<times> direction \<Rightarrow> nat \<Rightarrow> link \<Rightarrow> io_answer" where
  "calm_answer a k l =
     \<lparr>ia_read = Data (if fst a = first_side (snd a) then [] else replicate (Suc k) CHR ''x'') False,
      ia_wrote = length (held (pipe_copier (snd a) (side_pipe (fst a) l))), ia_failed = False\<rparr>"

definition calm_step :: "(side \<times> direction) \<times> nat \<Rightarrow> link \<Rightarrow> link" where
  "calm_step m l = link_step (fst m, calm_answer (fst m) (snd m) l) l"

definition flowing :: "copier \<Rightarrow> bool" where
  "flowing c \<longleftrightarrow> cp_pc c = Reading \<or> (\<exists>bs. cp_pc c = Writing bs False \<and> bs \<noteq> [])"

definition link_flows :: "link \<Rightarrow> bool" where
  "link_flows l \<longleftrightarrow> link_ok l \<and> pp_once (ln_near l) = 0 \<and> pp_once (ln_far l) = 0
     \<and> (\<forall>s d. flowing (pipe_copier d (side_pipe s l)))"

definition all_written :: "copier \<Rightarrow> copier" where
  "all_written c = c\<lparr>cp_written := cp_written c @ held c, cp_pc := Reading\<rparr>"

definition take_more :: "nat \<Rightarrow> string \<Rightarrow> copier \<Rightarrow> copier" where
  "take_more k buf c = (if buf = [] then c
     else c\<lparr>cp_read := cp_read c @ take (Suc k) buf, cp_pc := Writing (take (Suc k) buf) False\<rparr>)"

definition flow_step :: "bool \<Rightarrow> nat \<Rightarrow> copier \<times> string \<times> copier \<Rightarrow> copier \<times> string \<times> copier" where
  "flow_step is_first k = (\<lambda>(c1, buf, c2).
     if is_first then (all_written c1, buf @ held c1, c2)
     else if cp_pc c2 = Reading then (c1, drop (Suc k) buf, take_more k buf c2)
     else (c1, buf, all_written c2))"

lemma flowing_simps [simp]: "flowing (all_written c)" "flowing c \<Longrightarrow> flowing (take_more k buf c)"
  by (auto simp: flowing_def all_written_def take_more_def)

text \<open>A copier with both streams open, on a calm answer.\<close>

lemma copy_step_writes:
  assumes "flowing c" and "cp_pc c \<noteq> Reading" and "ia_wrote ia = length (held c)" and "\<not> ia_failed ia"
  shows "copy_step False False ia c = all_written c"
  using assms by (auto simp: flowing_def copy_step_def all_written_def held_def)

lemma copy_step_quiet:
  "cp_pc c = Reading \<Longrightarrow> ia_read ia = Data [] False \<Longrightarrow> copy_step False False ia c = c"
  by (simp add: copy_step_def)

lemma copy_step_takes:
  "cp_pc c = Reading \<Longrightarrow> ia_read ia = Data (take (Suc k) buf) False \<Longrightarrow> copy_step False False ia c = take_more k buf c"
  by (auto simp: copy_step_def take_more_def)

lemma all_written_reading: "cp_pc c = Reading \<Longrightarrow> all_written c = c"
  by (simp add: all_written_def held_def)

lemma open_pipe_step:
  assumes "pipe_ok p" and "pp_once p = 0" and "flowing (pipe_copier d p)"
  shows "pipe_step (d, ia) p = set_copier d (copy_step False False ia (pipe_copier d p)) p"
proof -
  have "\<not> read_closed d p" "\<not> write_closed d p" using assms(1,2) by (cases d; simp add: pipe_ok_def)+
  with assms(3) show ?thesis by (auto simp: pipe_step_def Let_def flowing_def)
qed
lemma calm_first:
  assumes "flowing (pipe_copier d (side_pipe s l))" and "s = first_side d"
  shows "copy_step False False (calm_answer (s, d) k l) (pipe_copier d (side_pipe s l)) =
    all_written (pipe_copier d (side_pipe s l))"
proof (cases "cp_pc (pipe_copier d (side_pipe s l)) = Reading")
  case True
  with assms(2) show ?thesis by (simp add: copy_step_quiet calm_answer_def all_written_reading)
next
  case False
  with assms(1) show ?thesis by (intro copy_step_writes) (simp_all add: calm_answer_def)
qed

lemma calm_second:
  assumes "flowing (pipe_copier d (side_pipe s l))" and "s \<noteq> first_side d"
  shows "copy_step False False (channel_answer buf (calm_answer (s, d) k l)) (pipe_copier d (side_pipe s l)) =
    (if cp_pc (pipe_copier d (side_pipe s l)) = Reading then take_more k buf (pipe_copier d (side_pipe s l))
     else all_written (pipe_copier d (side_pipe s l)))"
proof (cases "cp_pc (pipe_copier d (side_pipe s l)) = Reading")
  case True
  with assms(2) show ?thesis by (simp add: copy_step_takes calm_answer_def channel_answer_def)
next
  case False
  with assms(1) show ?thesis
    by (auto intro!: copy_step_writes simp add: calm_answer_def channel_answer_def)
qed

lemma gained_simps [simp]:
  "gained cp_written d p (set_copier d (all_written (pipe_copier d p)) p) = held (pipe_copier d p)"
  "gained cp_read d p (set_copier d (all_written (pipe_copier d p)) p) = []"
  "gained cp_read d p (set_copier d (take_more k buf (pipe_copier d p)) p) = take (Suc k) buf"
  by (simp_all add: gained_def all_written_def take_more_def)

lemma drop_min: "drop (min (length xs) n) xs = drop n xs"
  by (simp add: min_def)

lemma calm_flow:
  assumes "link_flows l"
  shows "flow e (calm_step ((s, d), k) l) =
      (if e = d then flow_step (s = first_side d) k (flow d l) else flow e l)
    \<and> pp_once (ln_near (calm_step ((s, d), k) l)) = 0 \<and> pp_once (ln_far (calm_step ((s, d), k) l)) = 0"
proof -
  from assms have near: "pipe_ok (ln_near l)" "pp_once (ln_near l) = 0" and far: "pipe_ok (ln_far l)" "pp_once (ln_far l) = 0"
    and fl: "flowing (pipe_copier d (side_pipe s l))" for s d
    by (simp_all add: link_flows_def link_ok_def)
  note open_near = open_pipe_step [OF near fl [of _ Near, unfolded side_pipe.simps]]
  note open_far = open_pipe_step [OF far fl [of _ Far, unfolded side_pipe.simps]]
  note calm = calm_first [OF fl [of Sent Near]] calm_first [OF fl [of Received Far]]
    calm_second [OF fl [of Sent Far]] calm_second [OF fl [of Received Near]]
  show ?thesis
    using calm near(2) far(2)
    by (cases s; cases d; cases e)
      (simp_all add: calm_step_def open_near open_far Let_def flow_step_def drop_min del: pipe_copier.simps set_copier.simps)
qed


lemma flows_flowing:
  assumes "link_flows l"
  shows "case flow d l of (c1, buf, c2) \<Rightarrow> flowing c1 \<and> flowing c2"
  using assms by (cases d) (simp_all add: link_flows_def del: pipe_copier.simps flip: side_pipe.simps)

lemma flowing_iff_flow:
  "(\<forall>s d. flowing (pipe_copier d (side_pipe s l))) \<longleftrightarrow>
     (\<forall>d. case flow d l of (c1, buf, c2) \<Rightarrow> flowing c1 \<and> flowing c2)"
proof
  assume "\<forall>s d. flowing (pipe_copier d (side_pipe s l))"
  then have "flowing (pipe_copier d (ln_near l))" "flowing (pipe_copier d (ln_far l))" for d
    by (metis side_pipe.simps)+
  then show "\<forall>d. case flow d l of (c1, buf, c2) \<Rightarrow> flowing c1 \<and> flowing c2"
    by (simp add: direction_all del: pipe_copier.simps)
next
  assume "\<forall>d. case flow d l of (c1, buf, c2) \<Rightarrow> flowing c1 \<and> flowing c2"
  then have "flowing (pipe_copier d (ln_near l)) \<and> flowing (pipe_copier d (ln_far l))" for d
    by (cases d) (simp_all add: direction_all del: pipe_copier.simps)
  then show "\<forall>s d. flowing (pipe_copier d (side_pipe s l))" by (metis side.exhaust side_pipe.simps)
qed

lemma calm_flows:
  assumes "link_flows l"
  shows "link_flows (calm_step m l)"
proof -
  obtain s d k where m: "m = ((s, d), k)" by (metis surj_pair)
  have "case flow e (calm_step m l) of (c1, buf, c2) \<Rightarrow> flowing c1 \<and> flowing c2" for e
    using calm_flow [OF assms, of e s d k] flows_flowing [OF assms, of d] flows_flowing [OF assms, of e]
    by (auto simp: m flow_step_def split: prod.splits if_splits)
  then have "\<forall>s d. flowing (pipe_copier d (side_pipe s (calm_step m l)))" by (simp add: flowing_iff_flow)
  moreover have "link_ok (calm_step m l)"
    using assms by (simp add: calm_step_def link_step_ok link_flows_def)
  ultimately show ?thesis using calm_flow [OF assms, of Sent s d k] by (simp add: link_flows_def m)
qed

definition flow_left :: "copier \<times> string \<times> copier \<Rightarrow> nat" where
  "flow_left = (\<lambda>(c1, buf, c2). 3 * length (held c1) + 2 * length buf + length (held c2))"

definition link_left :: "link \<Rightarrow> nat" where
  "link_left l = flow_left (flow Sent l) + flow_left (flow Received l)"

text \<open>Who can move the bytes of a direction on.\<close>

definition flow_helpful :: "bool \<Rightarrow> copier \<times> string \<times> copier \<Rightarrow> bool" where
  "flow_helpful is_first = (\<lambda>(c1, buf, c2).
     if is_first then held c1 \<noteq> [] else held c2 \<noteq> [] \<or> buf \<noteq> [])"

definition link_helpful :: "side \<times> direction \<Rightarrow> link \<Rightarrow> bool" where
  "link_helpful a l = flow_helpful (fst a = first_side (snd a)) (flow (snd a) l)"

lemma held_simps [simp]:
  "held (all_written c) = []" "cp_pc c = Reading \<Longrightarrow> held (take_more k buf c) = take (Suc k) buf"
  "cp_pc c = Reading \<Longrightarrow> held c = []"
  by (auto simp: held_def all_written_def take_more_def)

lemma flow_step_left:
  assumes "flowing c1" and "flowing c2"
  shows "flow_left (flow_step f k (c1, buf, c2)) \<le> flow_left (c1, buf, c2)
    \<and> (flow_helpful f (c1, buf, c2) \<longrightarrow> flow_left (flow_step f k (c1, buf, c2)) < flow_left (c1, buf, c2))
    \<and> (g \<noteq> f \<longrightarrow> flow_helpful g (c1, buf, c2) \<longrightarrow>
         flow_left (flow_step f k (c1, buf, c2)) < flow_left (c1, buf, c2) \<or> flow_helpful g (flow_step f k (c1, buf, c2)))"
proof -
  have w: "cp_pc c2 \<noteq> Reading \<Longrightarrow> held c2 \<noteq> []" using assms(2) by (auto simp: flowing_def held_def)
  show ?thesis
    using w by (cases f; cases "cp_pc c2 = Reading"; cases buf; cases g)
      (auto simp: flow_step_def flow_left_def flow_helpful_def min_def)
qed

lemma calm_left:
  assumes "link_flows l"
  shows "link_left (calm_step m l) \<le> link_left l
    \<and> (link_helpful (fst m) l \<longrightarrow> link_left (calm_step m l) < link_left l)
    \<and> (link_helpful a l \<longrightarrow> link_left (calm_step m l) < link_left l \<or> link_helpful a (calm_step m l))"
proof -
  obtain s d k where m: "m = ((s, d), k)" by (metis surj_pair)
  obtain c1 buf c2 where f: "flow d l = (c1, buf, c2)" by (metis prod_cases3)
  have fl: "flowing c1" "flowing c2" using flows_flowing [OF assms, of d] by (simp_all add: f)
  have eqs: "flow e (calm_step m l) = (if e = d then flow_step (s = first_side d) k (c1, buf, c2) else flow e l)" for e
    using calm_flow [OF assms, of e s d k] by (simp add: m f)
  note less = flow_step_left [OF fl, of "s = first_side d" k buf]
  have left: "link_left (calm_step m l) + flow_left (c1, buf, c2) =
      link_left l + flow_left (flow_step (s = first_side d) k (c1, buf, c2))"
    using f by (cases d) (simp_all add: link_left_def eqs del: flow.simps)
  then have lt: "flow_left (flow_step (s = first_side d) k (c1, buf, c2)) < flow_left (c1, buf, c2) \<Longrightarrow>
      link_left (calm_step m l) < link_left l" by linarith
  have "link_helpful a l \<longrightarrow> link_left (calm_step m l) < link_left l \<or> link_helpful a (calm_step m l)"
  proof (cases "snd a = d")
    case False
    then show ?thesis by (simp add: link_helpful_def eqs)
  next
    case True
    have a: "link_helpful a l = flow_helpful (fst a = first_side d) (c1, buf, c2)"
      "link_helpful a (calm_step m l) = flow_helpful (fst a = first_side d) (flow_step (s = first_side d) k (c1, buf, c2))"
      using True eqs [of d] by (simp_all add: link_helpful_def f)
    show ?thesis
    proof (cases "(fst a = first_side d) = (s = first_side d)")
      case True
      then have "link_helpful a l \<longrightarrow> flow_helpful (s = first_side d) (c1, buf, c2)" using a(1) by simp
      with less [of True] lt show ?thesis by blast
    next
      case False
      with less [of "fst a = first_side d"] lt a show ?thesis by blast
    qed
  qed
  moreover have "link_helpful (fst m) l = flow_helpful (s = first_side d) (c1, buf, c2)"
    by (simp add: link_helpful_def m f)
  moreover have "link_left (calm_step m l) \<le> link_left l" using less [of True] left by linarith
  ultimately show ?thesis using less [of True] lt by blast
qed

interpretation calm_link: fair_progress calm_step fst UNIV link_flows link_helpful link_left
proof unfold_locales
  fix l m
  assume l: "link_flows l"
  show "link_flows (calm_step m l)" by (rule calm_flows [OF l])
  show "link_left (calm_step m l) \<le> link_left l" using calm_left [OF l] by blast
  show "\<exists>a \<in> UNIV. link_helpful a l" if "0 < link_left l"
  proof -
    from that have "flow_left (flow Sent l) \<noteq> 0 \<or> flow_left (flow Received l) \<noteq> 0" by (simp add: link_left_def del: flow.simps)
    then obtain d where "flow_left (flow d l) \<noteq> 0" by blast
    then have "flow_helpful True (flow d l) \<or> flow_helpful False (flow d l)"
      by (cases "flow d l") (auto simp: flow_left_def flow_helpful_def)
    moreover have "\<exists>s. (s = first_side d) = b" for b
      by (cases d) (use side.distinct in \<open>(metis first_side.simps)+\<close>)
    then obtain s1 s2 where "(s1 = first_side d) = True" "(s2 = first_side d) = False" by metis
    ultimately have "link_helpful (s1, d) l \<or> link_helpful (s2, d) l" by (simp add: link_helpful_def)
    then show ?thesis by blast
  qed
  show "link_left (calm_step m l) < link_left l" if "link_helpful a l" "fst m = a" for a
    using calm_left [OF l] that by blast
  show "link_left (calm_step m l) < link_left l \<or> link_helpful a (calm_step m l)" if "link_helpful a l" for a
    using calm_left [OF l] that by blast
qed

text \<open>
  C26. What has been said arrives. From any state of a stream in which nothing has ended, if both ends keep
  silent from then on and the writes succeed, then after as many rounds, in each of which all four goroutines move, as
  three for each byte held by a first copy, two for each in the channel and one for each held by a second copy, everything that the local
  connection and the target have said has reached the other.
\<close>

theorem link_delivers:
  assumes "link_flows (run_link ms (new_link stdio))"
    and "list_all (fair_round fst UNIV) rounds"
    and "link_left (run_link ms (new_link stdio)) \<le> length rounds"
  shows "let l = run_link ms (new_link stdio); l' = fold calm_step (concat rounds) l
    in cp_written (pp_sent (ln_far l')) = cp_read (pp_sent (ln_near l'))
      \<and> cp_written (pp_received (ln_near l')) = cp_read (pp_received (ln_far l'))
      \<and> ln_up l' = [] \<and> ln_down l' = []"
proof -
  let ?l = "fold calm_step (concat rounds) (run_link ms (new_link stdio))"
  have flows: "link_flows ?l" by (rule calm_link.ok_run [OF assms(1)])
  then have fl: "flowing (pipe_copier d (side_pipe s ?l))" and ok: "link_ok ?l" for s d
    by (simp_all add: link_flows_def)
  have left: "link_left ?l = 0" by (rule calm_link.rounds_finish [OF assms])
  then have none: "held (pipe_copier d (side_pipe s ?l)) = []" for s d
    by (cases d; cases s) (simp_all add: link_left_def flow_left_def del: pipe_copier.simps)
  have bufs: "ln_up ?l = []" "ln_down ?l = []" using left by (simp_all add: link_left_def flow_left_def)
  have all: "cp_read (pipe_copier d (side_pipe s ?l)) = cp_written (pipe_copier d (side_pipe s ?l))" for s d
  proof -
    have "copying (pipe_copier d (side_pipe s ?l))" using fl [of d s] by (auto simp: flowing_def copying_def)
    moreover have "copier_ok (pipe_copier d (side_pipe s ?l))"
      using ok by (cases s) (simp_all add: link_ok_def pipe_ok_def)
    ultimately show ?thesis using read_held none by fastforce
  qed
  from ok bufs have "cp_written (pp_sent (ln_near ?l)) = cp_read (pp_sent (ln_far ?l))"
    "cp_written (pp_received (ln_far ?l)) = cp_read (pp_received (ln_near ?l))" by (simp_all add: link_ok_def)
  with all [of Sent Near] all [of Sent Far] all [of Received Near] all [of Received Far] bufs show ?thesis
    by (simp add: Let_def)
qed


theorem link_delivers_witness:
  "let round = [((Near, Sent), 5), ((Far, Sent), 5), ((Near, Received), 5), ((Far, Received), 5)];
     l' = fold calm_step (concat (replicate 4 round)) (run_link demo_link_moves (new_link False))
   in cp_written (pp_sent (ln_far l')) = cp_read (pp_sent (ln_near l')) \<and> ln_up l' = []"
proof -
  let ?l = "run_link demo_link_moves (new_link False)"
  let ?round = "[((Near, Sent), 5), ((Far, Sent), 5), ((Near, Received), 5), ((Far, Received), 5 :: nat)]"
  have "flowing (pipe_copier d (side_pipe s ?l))" for s d
    using demo_link_state by (cases d; cases s) (simp_all add: Let_def flowing_def)
  then have "link_flows ?l"
    using demo_link_state run_link_ok [OF new_link_ok, of demo_link_moves False] by (simp add: link_flows_def Let_def)
  moreover have "fair_round fst UNIV ?round"
    unfolding fair_round_def using side.exhaust direction.exhaust by (auto simp: image_iff)
  then have "list_all (fair_round fst UNIV) (replicate 4 ?round)" by (simp add: list_all_iff)
  moreover have "held (pp_sent (ln_near ?l)) = []" "held (pp_received (ln_near ?l)) = []" "held (pp_received (ln_far ?l)) = []"
    using demo_link_state by (simp_all add: Let_def held_def)
  then have "link_left ?l \<le> length (replicate 4 ?round)"
    using demo_link_state by (simp add: Let_def link_left_def flow_left_def)
  ultimately show ?thesis using link_delivers [of demo_link_moves False "replicate 4 ?round"] by (simp only: Let_def)
qed

end
