(* ===== verification/Meter.thy ===== *)
theory Meter
  imports Chisel_Prelude "HOL-Library.Word"
begin

text \<open>
  \<^verbatim>\<open>share/cnet/meter.go\<close>: the counters around a reader and a writer, and the goroutine that
  prints the throughput a second after there was some. Every read and write adds to its counter
  and starts the goroutine if none is running; the goroutine sleeps, reads the
  counters, prints the change since the last print, and records what it printed. Its steps
  interleave with the reads and writes. The speed is the change; its scaling to seconds,
  in floating point, and the formatting are not modelled.
\<close>

datatype printer = Sleeping | Printing "64 word" "64 word"

record meter =
  mt_sent :: "64 word"
  mt_recv :: "64 word"
  mt_printing :: bool
  mt_last :: time
  mt_lsent :: "64 word"
  mt_lrecv :: "64 word"
  mt_printers :: "printer list"
  mt_printed :: "(64 word \<times> 64 word) list"

definition new_meter :: meter where
  "new_meter = \<lparr>mt_sent = 0, mt_recv = 0, mt_printing = False, mt_last = 0, mt_lsent = 0, mt_lrecv = 0,
     mt_printers = [], mt_printed = []\<rparr>"

text \<open>\<^verbatim>\<open>print\<close>: the compare-and-swap lets one goroutine start.\<close>

definition meter_print :: "meter \<Rightarrow> meter" where
  "meter_print m =
     (if mt_printing m then m else m\<lparr>mt_printing := True, mt_printers := Sleeping # mt_printers m\<rparr>)"

text \<open>A read and a write of \<open>n\<close> bytes through the meter; an error of the inner one is passed on.\<close>

definition meter_read :: "nat \<times> string option \<Rightarrow> meter \<Rightarrow> (nat \<times> string option) \<times> meter" where
  "meter_read r m = (r, meter_print (m\<lparr>mt_recv := mt_recv m + of_nat (fst r)\<rparr>))"

definition meter_write :: "nat \<times> string option \<Rightarrow> meter \<Rightarrow> (nat \<times> string option) \<times> meter" where
  "meter_write r m = (r, meter_print (m\<lparr>mt_sent := mt_sent m + of_nat (fst r)\<rparr>))"

text \<open>\<^verbatim>\<open>TeeReader\<close> and \<^verbatim>\<open>TeeWriter\<close>: without debugging the inner stream is used directly.\<close>

definition tee_read :: "bool \<Rightarrow> nat \<times> string option \<Rightarrow> meter \<Rightarrow> (nat \<times> string option) \<times> meter" where
  "tee_read debug r m = (if debug then meter_read r m else (r, m))"

definition tee_write :: "bool \<Rightarrow> nat \<times> string option \<Rightarrow> meter \<Rightarrow> (nat \<times> string option) \<times> meter" where
  "tee_write debug r m = (if debug then meter_write r m else (r, m))"

text \<open>
  \<^verbatim>\<open>MeterConn\<close> and \<^verbatim>\<open>MeterRWC\<close>: a connection or stream with a meter of its own around its reads and its
  writes; \<open>inner\<close> is what the inner read or write answers.
\<close>

record metered_stream =
  ms_debug :: bool
  ms_meter :: meter

definition meter_conn :: "bool \<Rightarrow> metered_stream" where
  "meter_conn debug = \<lparr>ms_debug = debug, ms_meter = new_meter\<rparr>"

definition meter_rwc :: "bool \<Rightarrow> metered_stream" where
  "meter_rwc debug = meter_conn debug"

definition meter_conn_read ::
    "nat \<times> string option \<Rightarrow> metered_stream \<Rightarrow> (nat \<times> string option) \<times> metered_stream" where
  "meter_conn_read inner c = (case tee_read (ms_debug c) inner (ms_meter c) of (r, m) \<Rightarrow> (r, c\<lparr>ms_meter := m\<rparr>))"

definition meter_conn_write ::
    "nat \<times> string option \<Rightarrow> metered_stream \<Rightarrow> (nat \<times> string option) \<times> metered_stream" where
  "meter_conn_write inner c = (case tee_write (ms_debug c) inner (ms_meter c) of (r, m) \<Rightarrow> (r, c\<lparr>ms_meter := m\<rparr>))"

text \<open>The two halves of \<^verbatim>\<open>goprint\<close> for the goroutine at position \<open>i\<close>: the snapshot, and the rest.\<close>

definition goprint_snapshot :: "nat \<Rightarrow> meter \<Rightarrow> meter" where
  "goprint_snapshot i m = m\<lparr>mt_printers := (mt_printers m)[i := Printing (mt_sent m) (mt_recv m)]\<rparr>"

definition goprint_finish :: "nat \<Rightarrow> time \<Rightarrow> meter \<Rightarrow> meter" where
  "goprint_finish i now m =
     (case mt_printers m ! i of
        Printing s r \<Rightarrow>
          (let ds = s - mt_lsent m; dr = r - mt_lrecv m;
               m = (if mt_last m > 0 \<and> (ds \<noteq> 0 \<or> dr \<noteq> 0)
                    then m\<lparr>mt_printed := mt_printed m @ [(ds, dr)]\<rparr> else m)
           in m\<lparr>mt_lsent := s, mt_lrecv := r, mt_last := now, mt_printing := False,
                mt_printers := take i (mt_printers m) @ drop (Suc i) (mt_printers m)\<rparr>)
      | Sleeping \<Rightarrow> m)"

inductive metered :: "meter \<Rightarrow> nat list \<Rightarrow> nat list \<Rightarrow> bool" where
  start: "metered new_meter [] []"
| read: "metered m ws rs \<Longrightarrow> metered (snd (tee_read True (n, e) m)) ws (n # rs)"
| writes: "metered m ws rs \<Longrightarrow> metered (snd (tee_write True (n, e) m)) (n # ws) rs"
| snapshot: "metered m ws rs \<Longrightarrow> i < length (mt_printers m) \<Longrightarrow> mt_printers m ! i = Sleeping \<Longrightarrow>
     metered (goprint_snapshot i m) ws rs"
| finish: "metered m ws rs \<Longrightarrow> i < length (mt_printers m) \<Longrightarrow> mt_printers m ! i \<noteq> Sleeping \<Longrightarrow> 0 < now \<Longrightarrow>
     metered (goprint_finish i now m) ws rs"

lemma meter_print_simps [simp]:
  "mt_sent (meter_print m) = mt_sent m" "mt_recv (meter_print m) = mt_recv m"
  "mt_printing (meter_print m)" "mt_printed (meter_print m) = mt_printed m"
  "length (mt_printers (meter_print m)) = (if mt_printing m then length (mt_printers m) else Suc (length (mt_printers m)))"
  by (simp_all add: meter_print_def)

definition meter_ok :: "meter \<Rightarrow> nat list \<Rightarrow> nat list \<Rightarrow> bool" where
  "meter_ok m ws rs \<longleftrightarrow>
     mt_sent m = of_nat (sum_list ws) \<and> mt_recv m = of_nat (sum_list rs)
     \<and> length (mt_printers m) = (if mt_printing m then 1 else 0)"

lemma metered_ok: "metered m ws rs \<Longrightarrow> meter_ok m ws rs"
proof (induction rule: metered.induct)
  case start
  then show ?case by (simp add: meter_ok_def new_meter_def)
next
  case (read m ws rs n e)
  then show ?case by (simp add: meter_ok_def tee_read_def meter_read_def add.commute)
next
  case (writes m ws rs n e)
  then show ?case by (simp add: meter_ok_def tee_write_def meter_write_def add.commute)
next
  case (snapshot m ws rs i)
  then show ?case by (simp add: meter_ok_def goprint_snapshot_def)
next
  case (finish m ws rs i now)
  then show ?case
    by (cases "mt_printers m ! i") (simp_all add: meter_ok_def goprint_finish_def Let_def split: if_splits)
qed

text \<open>
  A meter counts every byte and has one printer. Whatever the interleaving of reads, writes and the
  steps of the printing goroutine, the counters are the totals read and written, modulo 64
  bits, and at most one goroutine prints.
\<close>

theorem meter_counts:
  assumes "metered m ws rs"
  shows "mt_sent m = of_nat (sum_list ws) \<and> mt_recv m = of_nat (sum_list rs)
    \<and> length (mt_printers m) \<le> 1"
  using metered_ok [OF assms] by (simp add: meter_ok_def)

theorem meter_counts_witness:
  "let m = snd (tee_write True (5, None) (snd (tee_read True (3, Some ''EOF'') new_meter)))
   in mt_sent m = 5 \<and> mt_recv m = 3 \<and> length (mt_printers m) \<le> 1"
  unfolding Let_def
  using meter_counts [OF metered.writes [OF metered.read [OF metered.start, of 3 "Some ''EOF''"], of 5 None]] by simp

end
