(* ===== verification/Logging.thy ===== *)
theory Logging
  imports Chisel_Prelude
begin

text \<open>
  \<^verbatim>\<open>share/cio/logger.go\<close>: loggers with a prefix and two levels. A forked logger points to the
  flags of the logger it stems from, so the loggers live in a store and a pointer is a position in
  it; setting a flag of a logger changes the store. Formatting is library code: a message is a
  parameter, and what is modelled is whether it is printed and with which prefix.
\<close>

record logger =
  lg_info :: bool
  lg_debug :: bool
  lg_prefix :: string
  lg_info_ref :: "nat option"
  lg_debug_ref :: "nat option"

type_synonym loggers = "logger list"

definition new_logger :: "string \<Rightarrow> loggers \<Rightarrow> nat \<times> loggers" where
  "new_logger pre ls =
     (length ls, ls @ [\<lparr>lg_info = False, lg_debug = False, lg_prefix = pre, lg_info_ref = None, lg_debug_ref = None\<rparr>])"

text \<open>\<^verbatim>\<open>Fork\<close> of the logger at \<open>l\<close>, with the formatted rest of the prefix.\<close>

definition fork_logger :: "nat \<Rightarrow> string \<Rightarrow> loggers \<Rightarrow> nat \<times> loggers" where
  "fork_logger l pre ls =
     (let p = ls ! l;
          (ll, ls) = new_logger (lg_prefix p @ '': '' @ pre) ls;
          new = ls ! ll;
          new = new\<lparr>lg_info := lg_info p\<rparr>;
          new = (if lg_info_ref p \<noteq> None then new\<lparr>lg_info_ref := lg_info_ref p\<rparr> else new\<lparr>lg_info_ref := Some l\<rparr>);
          new = new\<lparr>lg_debug := lg_debug p\<rparr>;
          new = (if lg_debug_ref p \<noteq> None then new\<lparr>lg_debug_ref := lg_debug_ref p\<rparr> else new\<lparr>lg_debug_ref := Some l\<rparr>)
      in (ll, ls[ll := new]))"

definition is_info :: "loggers \<Rightarrow> nat \<Rightarrow> bool" where
  "is_info ls l \<longleftrightarrow> lg_info (ls ! l) \<or> (case lg_info_ref (ls ! l) of None \<Rightarrow> False | Some r \<Rightarrow> lg_info (ls ! r))"

definition is_debug :: "loggers \<Rightarrow> nat \<Rightarrow> bool" where
  "is_debug ls l \<longleftrightarrow> lg_debug (ls ! l) \<or> (case lg_debug_ref (ls ! l) of None \<Rightarrow> False | Some r \<Rightarrow> lg_debug (ls ! r))"

definition infof :: "loggers \<Rightarrow> nat \<Rightarrow> string \<Rightarrow> string option" where
  "infof ls l msg = (if is_info ls l then Some (lg_prefix (ls ! l) @ '': '' @ msg) else None)"

definition debugf :: "loggers \<Rightarrow> nat \<Rightarrow> string \<Rightarrow> string option" where
  "debugf ls l msg = (if is_debug ls l then Some (lg_prefix (ls ! l) @ '': '' @ msg) else None)"

definition errorf :: "loggers \<Rightarrow> nat \<Rightarrow> string \<Rightarrow> string" where
  "errorf ls l msg = lg_prefix (ls ! l) @ '': '' @ msg"

subsection \<open>Forks follow their root\<close>

text \<open>
  The loggers that exist, with the root each stems from: a root is made, a logger is forked, a flag
  of a root is set.
\<close>

inductive logs :: "loggers \<Rightarrow> nat list \<Rightarrow> bool" where
  none: "logs [] []"
| root: "logs ls rs \<Longrightarrow> new_logger pre ls = (l, ls') \<Longrightarrow> logs ls' (rs @ [l])"
| fork: "logs ls rs \<Longrightarrow> l < length ls \<Longrightarrow> fork_logger l pre ls = (ll, ls') \<Longrightarrow> logs ls' (rs @ [rs ! l])"
| set: "logs ls rs \<Longrightarrow> r < length ls \<Longrightarrow> rs ! r = r \<Longrightarrow>
          logs (ls[r := (ls ! r)\<lparr>lg_info := i, lg_debug := d\<rparr>]) rs"

definition logs_ok :: "loggers \<Rightarrow> nat list \<Rightarrow> bool" where
  "logs_ok ls rs \<longleftrightarrow> length rs = length ls \<and>
     (\<forall>l < length ls. rs ! l \<le> l \<and> rs ! (rs ! l) = rs ! l \<and>
        lg_info_ref (ls ! l) = (if rs ! l = l then None else Some (rs ! l)) \<and>
        lg_debug_ref (ls ! l) = (if rs ! l = l then None else Some (rs ! l)) \<and>
        (\<exists>s. lg_prefix (ls ! l) = lg_prefix (ls ! (rs ! l)) @ s))"

lemma fork_logger_eq:
  assumes "l < length ls"
  shows "fork_logger l pre ls =
    (length ls, ls @ [\<lparr>lg_info = lg_info (ls ! l), lg_debug = lg_debug (ls ! l),
       lg_prefix = lg_prefix (ls ! l) @ '': '' @ pre,
       lg_info_ref = (case lg_info_ref (ls ! l) of None \<Rightarrow> Some l | Some r \<Rightarrow> Some r),
       lg_debug_ref = (case lg_debug_ref (ls ! l) of None \<Rightarrow> Some l | Some r \<Rightarrow> Some r)\<rparr>])"
  by (simp add: fork_logger_def new_logger_def Let_def list_update_append nth_append split: option.splits)

lemma logs_okI: "logs ls rs \<Longrightarrow> logs_ok ls rs"
proof (induction rule: logs.induct)
  case none
  then show ?case by (simp add: logs_ok_def)
next
  case (root ls rs pre l ls')
  then show ?case by (auto simp: logs_ok_def new_logger_def nth_append less_Suc_eq)
next
  case (fork ls rs l pre ll ls')
  from fork.IH fork.hyps(2) have r: "rs ! l \<le> l" "rs ! (rs ! l) = rs ! l" "length rs = length ls"
    "lg_info_ref (ls ! l) = (if rs ! l = l then None else Some (rs ! l))"
    "lg_debug_ref (ls ! l) = (if rs ! l = l then None else Some (rs ! l))"
    "\<exists>s. lg_prefix (ls ! l) = lg_prefix (ls ! (rs ! l)) @ s"
    by (simp_all add: logs_ok_def)
  from fork.hyps(3) fork_logger_eq [OF fork.hyps(2), of pre] have ls': "ls' = ls @ [\<lparr>lg_info = lg_info (ls ! l),
       lg_debug = lg_debug (ls ! l), lg_prefix = lg_prefix (ls ! l) @ '': '' @ pre,
       lg_info_ref = Some (rs ! l), lg_debug_ref = Some (rs ! l)\<rparr>]"
    using r(4,5) by (auto split: if_splits)
  have old: "rs ! k < length ls" if "k < length ls" for k
    using fork.IH that by (auto simp: logs_ok_def intro: le_less_trans)
  show ?case
    unfolding ls' using fork.IH fork.hyps(2) r old
    by (auto simp: logs_ok_def nth_append less_Suc_eq intro: less_imp_le le_less_trans)
next
  case (set ls rs r i d)
  then show ?case by (auto simp: logs_ok_def nth_list_update)
qed

text \<open>
  Forked loggers follow the logger they stem from. However deep it was forked and whenever a flag
  of its root is set, a logger prints at a level exactly if its own flag, copied when it was made, or
  the present flag of its root is set, and its messages begin with the prefix of the root.
\<close>

theorem forks_follow_root:
  assumes "logs ls rs" and "l < length ls"
  shows "is_debug ls l = (lg_debug (ls ! l) \<or> lg_debug (ls ! (rs ! l)))
    \<and> is_info ls l = (lg_info (ls ! l) \<or> lg_info (ls ! (rs ! l)))
    \<and> (\<exists>s. errorf ls l msg = lg_prefix (ls ! (rs ! l)) @ s)"
  using logs_okI [OF assms(1)] assms(2)
  by (auto simp: logs_ok_def is_debug_def is_info_def errorf_def)

text \<open>The verbose flag set after the tunnel's logger was forked from the client's fork reaches it.\<close>

theorem forks_follow_root_witness:
  "let ls1 = snd (new_logger ''client'' []); ls2 = snd (fork_logger 0 ''tun'' ls1);
       ls3 = snd (fork_logger 1 ''proxy'' ls2); ls4 = ls3[0 := (ls3 ! 0)\<lparr>lg_info := True, lg_debug := True\<rparr>]
   in \<not> is_debug ls3 2 \<and> is_debug ls4 2 \<and> debugf ls4 2 ''x'' = Some ''client: tun: proxy: x''"
proof -
  define ls1 where "ls1 = snd (new_logger ''client'' [])"
  define ls2 where "ls2 = snd (fork_logger 0 ''tun'' ls1)"
  define ls3 where "ls3 = snd (fork_logger 1 ''proxy'' ls2)"
  define ls4 where "ls4 = ls3[0 := (ls3 ! 0)\<lparr>lg_info := True, lg_debug := True\<rparr>]"
  note defs = ls1_def ls2_def ls3_def ls4_def new_logger_def fork_logger_def Let_def
  have len: "length ls1 = 1" "length ls2 = 2" "length ls3 = 3" by (simp_all add: defs)
  have "logs ls1 [0]" using logs.root [OF logs.none, of "''client''" 0 ls1] by (simp add: defs)
  then have "logs ls2 [0, 0]" using logs.fork [of ls1 "[0]" 0 "''tun''" 1 ls2] len by (simp add: defs)
  then have 3: "logs ls3 [0, 0, 0]" using logs.fork [of ls2 "[0, 0]" 1 "''proxy''" 2 ls3] len by (simp add: defs)
  then have 4: "logs ls4 [0, 0, 0]" unfolding ls4_def using len by (intro logs.set) simp_all
  have "is_debug ls4 2"
    using forks_follow_root [OF 4, of 2] len by (simp add: ls4_def)
  moreover have "\<not> is_debug ls3 2"
    using forks_follow_root [OF 3, of 2] by (simp add: defs)
  moreover have "lg_prefix (ls4 ! 2) = ''client: tun: proxy''" by (simp add: defs)
  ultimately show ?thesis
    unfolding Let_def ls1_def [symmetric] ls2_def [symmetric] ls3_def [symmetric] ls4_def [symmetric]
    by (simp add: debugf_def)
qed

end
