(* ===== verification/Flags.thy ===== *)
theory Flags
  imports Go_Strings
begin

text \<open>
  The package \<^verbatim>\<open>flag\<close> of the standard library, as \<^verbatim>\<open>main.go\<close> uses it: a flag set maps names to
  setters of a record, \<^verbatim>\<open>Parse\<close> takes one flag after the other from the front of the arguments and
  leaves the rest. What a command does about an error is in \<open>Program\<close>.
\<close>

subsection \<open>Flag sets\<close>

datatype 'c flag =
    Bool_flag "bool \<Rightarrow> 'c \<Rightarrow> 'c"
  | Value_flag "string \<Rightarrow> 'c \<Rightarrow> 'c option"

type_synonym 'c flag_set = "'c flag go_map"

datatype flag_error =
    Bad_flag_syntax string
  | Flag_not_defined string
  | Invalid_bool_value string string
  | Needs_argument string
  | Invalid_flag_value string string
  | Help_wanted

datatype 'c flag_step = Took 'c "string list" | No_more "string list" | Flag_fails flag_error

definition parse_bool :: "string \<Rightarrow> bool option" where
  "parse_bool s =
     (if s \<in> {''1'', ''t'', ''T'', ''TRUE'', ''true'', ''True''} then Some True
      else if s \<in> {''0'', ''f'', ''F'', ''FALSE'', ''false'', ''False''} then Some False
      else None)"

text \<open>The name of a flag up to an equals sign that is not its first byte, and the value after it.\<close>

definition split_flag :: "string \<Rightarrow> string \<times> string option" where
  "split_flag name =
     (case index_byte CHR ''='' (tl name) of
        None \<Rightarrow> (name, None)
      | Some i \<Rightarrow> (take (i + 1) name, Some (drop (i + 2) name)))"

definition take_value :: "(string \<Rightarrow> 'c \<Rightarrow> 'c option) \<Rightarrow> string \<Rightarrow> string \<Rightarrow> string list \<Rightarrow> 'c \<Rightarrow> 'c flag_step" where
  "take_value set_to name v args c =
     (case set_to v c of None \<Rightarrow> Flag_fails (Invalid_flag_value v name) | Some c \<Rightarrow> Took c args)"

definition set_flag ::
    "'c flag_set \<Rightarrow> string \<Rightarrow> string option \<Rightarrow> string list \<Rightarrow> 'c \<Rightarrow> 'c flag_step" where
  "set_flag fs name val args c =
     (case map_get fs name of
        None \<Rightarrow> Flag_fails (if name = ''help'' \<or> name = ''h'' then Help_wanted else Flag_not_defined name)
      | Some (Bool_flag set_to) \<Rightarrow>
          (case val of
             None \<Rightarrow> Took (set_to True c) args
           | Some v \<Rightarrow>
               (case parse_bool v of
                  None \<Rightarrow> Flag_fails (Invalid_bool_value v name)
                | Some b \<Rightarrow> Took (set_to b c) args))
      | Some (Value_flag set_to) \<Rightarrow>
          (case val of
             Some v \<Rightarrow> take_value set_to name v args c
           | None \<Rightarrow>
               (case args of
                  [] \<Rightarrow> Flag_fails (Needs_argument name)
                | v # args \<Rightarrow> take_value set_to name v args c)))"

definition parse_one :: "'c flag_set \<Rightarrow> string list \<Rightarrow> 'c \<Rightarrow> 'c flag_step" where
  "parse_one fs args c =
     (case args of
        [] \<Rightarrow> No_more args
      | s # args' \<Rightarrow>
          (if length s < 2 \<or> hd s \<noteq> CHR ''-'' then No_more args
           else if s = ''--'' then No_more args'
           else
             (let name = (if s ! 1 = CHR ''-'' then drop 2 s else drop 1 s)
              in if name = [] \<or> hd name = CHR ''-'' \<or> hd name = CHR ''='' then Flag_fails (Bad_flag_syntax s)
                 else (case split_flag name of (name, val) \<Rightarrow> set_flag fs name val args' c))))"

lemma set_flag_shorter: "set_flag fs name val args c = Took c' args' \<Longrightarrow> length args' \<le> length args"
  by (auto simp: set_flag_def take_value_def split: option.splits flag.splits list.splits)

lemma parse_one_shorter: "parse_one fs args c = Took c' args' \<Longrightarrow> length args' < length args"
  by (auto simp: parse_one_def Let_def split: list.splits if_splits prod.splits dest!: set_flag_shorter)

function parse_flags :: "'c flag_set \<Rightarrow> string list \<Rightarrow> 'c \<Rightarrow> flag_error + 'c \<times> string list" where
  "parse_flags fs args c =
     (case parse_one fs args c of
        Took c args \<Rightarrow> parse_flags fs args c
      | No_more args \<Rightarrow> Inr (c, args)
      | Flag_fails e \<Rightarrow> Inl e)"
  by auto
termination
  by (relation "measure (\<lambda>(fs, args, c). length args)") (auto dest: parse_one_shorter)

declare parse_flags.simps [simp del]

subsection \<open>Arguments that give settings\<close>

text \<open>
  The four ways to give a flag, each with one dash or two: a switch alone, a switch with a value, a value
  after an equals sign, and a value in the next argument.
\<close>

datatype flag_arg =
    Switch bool string
  | Assign bool string string
  | Apart bool string string

definition dashes :: "bool \<Rightarrow> string" where "dashes two = (if two then ''--'' else ''-'')"

fun flag_words :: "flag_arg \<Rightarrow> string list" where
  "flag_words (Switch two n) = [dashes two @ n]"
| "flag_words (Assign two n v) = [dashes two @ n @ ''='' @ v]"
| "flag_words (Apart two n v) = [dashes two @ n, v]"

fun arg_flag :: "flag_arg \<Rightarrow> string" where
  "arg_flag (Switch two n) = n"
| "arg_flag (Assign two n v) = n"
| "arg_flag (Apart two n v) = n"

definition flag_name_ok :: "string \<Rightarrow> bool" where
  "flag_name_ok n \<longleftrightarrow> n \<noteq> [] \<and> hd n \<noteq> CHR ''-'' \<and> CHR ''='' \<notin> set n"

text \<open>What a flag does to the record, if it is defined and its value is valid.\<close>

fun flag_effect :: "'c flag_set \<Rightarrow> flag_arg \<Rightarrow> 'c \<Rightarrow> 'c option" where
  "flag_effect fs (Switch two n) c =
     (case map_get fs n of Some (Bool_flag set_to) \<Rightarrow> Some (set_to True c) | _ \<Rightarrow> None)"
| "flag_effect fs (Assign two n v) c =
     (case map_get fs n of
        None \<Rightarrow> None
      | Some (Bool_flag set_to) \<Rightarrow> map_option (\<lambda>b. set_to b c) (parse_bool v)
      | Some (Value_flag set_to) \<Rightarrow> set_to v c)"
| "flag_effect fs (Apart two n v) c =
     (case map_get fs n of Some (Value_flag set_to) \<Rightarrow> set_to v c | _ \<Rightarrow> None)"

fun flag_effects :: "'c flag_set \<Rightarrow> flag_arg list \<Rightarrow> 'c \<Rightarrow> 'c option" where
  "flag_effects fs [] c = Some c"
| "flag_effects fs (x # xs) c = (case flag_effect fs x c of None \<Rightarrow> None | Some c \<Rightarrow> flag_effects fs xs c)"

text \<open>Arguments at which the flags end.\<close>

definition no_flag :: "string list \<Rightarrow> bool" where
  "no_flag args \<longleftrightarrow> args = [] \<or> length (hd args) < 2 \<or> hd (hd args) \<noteq> CHR ''-''"

lemma split_flag_plain: "CHR ''='' \<notin> set n \<Longrightarrow> split_flag n = (n, None)"
proof -
  assume "CHR ''='' \<notin> set n"
  then have "CHR ''='' \<notin> set (tl n)" by (cases n) auto
  then have "index_byte CHR ''='' (tl n) = None" by (simp add: index_byte_None_iff)
  then show ?thesis by (simp add: split_flag_def)
qed

lemma split_flag_assign: "n \<noteq> [] \<Longrightarrow> CHR ''='' \<notin> set n \<Longrightarrow> split_flag (n @ CHR ''='' # v) = (n, Some v)"
  by (cases n) (simp_all add: split_flag_def index_byte_append)

lemma parse_one_flag:
  assumes "name \<noteq> []" and "hd name \<noteq> CHR ''-''" and "hd name \<noteq> CHR ''=''"
  shows "parse_one fs ((dashes two @ name) # args) c =
    (case split_flag name of (name, val) \<Rightarrow> set_flag fs name val args c)"
  using assms by (cases name) (auto simp: parse_one_def dashes_def)

lemma parse_one_words:
  assumes "flag_name_ok (arg_flag x)" and "flag_effect fs x c = Some c'"
  shows "parse_one fs (flag_words x @ args) c = Took c' args"
proof -
  from assms(1) have n: "arg_flag x \<noteq> []" "hd (arg_flag x) \<noteq> CHR ''-''" "CHR ''='' \<notin> set (arg_flag x)"
    by (simp_all add: flag_name_ok_def)
  from n have eq: "hd (arg_flag x) \<noteq> CHR ''=''" by (metis list.set_sel(1))
  show ?thesis
  proof (cases x)
    case (Switch two m)
    with assms(2) n eq show ?thesis
      by (auto simp: parse_one_flag split_flag_plain set_flag_def split: option.splits flag.splits)
  next
    case (Assign two m v)
    have "flag_words x = [dashes two @ (m @ CHR ''='' # v)]" by (simp add: Assign)
    with Assign assms(2) n eq show ?thesis
      by (auto simp: parse_one_flag split_flag_assign set_flag_def take_value_def split: option.splits flag.splits
          simp del: flag_words.simps append_assoc)
  next
    case (Apart two m v)
    with assms(2) n eq show ?thesis
      by (auto simp: parse_one_flag split_flag_plain set_flag_def take_value_def split: option.splits flag.splits)
  qed
qed

text \<open>
  Flags are read back. Any list of flags, each with one dash or two, alone, with an equals
  sign or with its value in the next argument, all of them defined and valid, sets the record as the flags do one
  after the other, a later one over an earlier one; and the arguments that follow are left as they are,
  from the first that is not a flag, or after a double dash.
\<close>

theorem flags_read_back:
  assumes "list_all (\<lambda>x. flag_name_ok (arg_flag x)) xs" and "flag_effects fs xs c = Some c'"
  shows "parse_flags fs (concat (map flag_words xs) @ ''--'' # rest) c = Inr (c', rest)
    \<and> (no_flag rest \<longrightarrow> parse_flags fs (concat (map flag_words xs) @ rest) c = Inr (c', rest))"
  using assms
proof (induction xs arbitrary: c)
  case Nil
  then show ?case
    by (cases rest) (auto simp: parse_flags.simps [of fs] parse_one_def no_flag_def)
next
  case (Cons x xs)
  from Cons.prems(2) obtain c1 where c1: "flag_effect fs x c = Some c1" "flag_effects fs xs c1 = Some c'"
    by (auto split: option.splits)
  from Cons.prems(1) have ok: "flag_name_ok (arg_flag x)" "list_all (\<lambda>x. flag_name_ok (arg_flag x)) xs" by simp_all
  have "parse_flags fs (flag_words x @ args) c = parse_flags fs args c1" for args
    by (subst parse_flags.simps) (simp add: parse_one_words [OF ok(1) c1(1)])
  with Cons.IH [OF ok(2) c1(2)] show ?case by simp
qed


text \<open>A toy flag set: the last value, how many there were, and a switch.\<close>

definition toy_flags :: "(string \<times> nat \<times> bool) flag_set" where
  "toy_flags = [(''to'', Value_flag (\<lambda>v (_, n, b). Some (v, Suc n, b))), (''on'', Bool_flag (\<lambda>b (v, n, _). (v, n, b)))]"

theorem flags_read_back_witness:
  "parse_flags toy_flags [''-to'', ''-on'', ''--on=f'', ''-on'', ''--to=b=c'', ''-'', ''-to''] ([], 0, False)
     = Inr ((''b=c'', 2, True), [''-'', ''-to''])"
proof -
  let ?xs = "[Apart False ''to'' ''-on'', Assign True ''on'' ''f'', Switch False ''on'', Assign True ''to'' ''b=c'']"
  have "list_all (\<lambda>x. flag_name_ok (arg_flag x)) ?xs" "no_flag [''-'', ''-to'']"
    "flag_effects toy_flags ?xs ([], 0, False) = Some (''b=c'', 2, True)" by code_simp+
  with flags_read_back [of ?xs toy_flags "([], 0, False)" _ "[''-'', ''-to'']"]
  show ?thesis by (simp add: dashes_def)
qed

end
