(* ===== verification/Client.thy ===== *)
theory Client
  imports Os_Env Users Ccrypto
begin

text \<open>
  \<^verbatim>\<open>client/client.go\<close> and \<^verbatim>\<open>client/client_connect.go\<close>: the construction of a client from
  its configuration, the check of the server's key, the outbound proxy, one connection and
  the loop that connects again. URL parsing, certificates, hashes and the backoff package are
  parameters; what the network does in one connection is an input.
\<close>

subsection \<open>Construction\<close>

record tls_options =
  to_skip_verify :: bool
  to_ca :: string
  to_cert :: string
  to_key :: string
  to_server_name :: string

record client_config =
  cl_fingerprint :: string
  cl_auth :: string
  cl_keep_alive :: int
  cl_max_retry_count :: int
  cl_max_retry_interval :: int
  cl_server :: string
  cl_proxy :: string
  cl_remotes :: "string list"
  cl_tls :: tls_options

record url =
  url_scheme :: string
  url_host :: string

text \<open>What the construction asks of its surroundings.\<close>

record client_env =
  cv_parse_url :: "string \<Rightarrow> string + url"
  cv_read_file :: "string \<Rightarrow> string + string"
  cv_append_pem :: "string \<Rightarrow> bool"
  cv_load_pair :: "string \<Rightarrow> string \<Rightarrow> string option"

record tls_config =
  tc_server_name :: string
  tc_skip_verify :: bool
  tc_root_cas :: "string option"
  tc_certificate :: "(string \<times> string) option"

record client =
  ct_url :: url
  ct_max_retry_interval :: int
  ct_tls :: "tls_config option"
  ct_remotes :: "remote list"
  ct_proxy_url :: "url option"
  ct_user :: string
  ct_pass :: string
  ct_inbound :: bool
  ct_outbound :: bool
  ct_socks :: bool

datatype client_error =
    Bad_server_url string
  | Ca_unreadable string
  | Ca_not_pem string
  | Key_pair_failed string
  | Cert_and_key_needed
  | Bad_remote string remote_error
  | Second_stdio
  | Cannot_listen string
  | Bad_proxy string

definition second_ns :: int where "second_ns = 1000000000"

text \<open>\<^verbatim>\<open>strings.Replace(s, old, new, 1)\<close> for a non-empty \<^verbatim>\<open>old\<close>.\<close>

fun replace_first :: "string \<Rightarrow> string \<Rightarrow> string \<Rightarrow> string" where
  "replace_first old nw [] = (if old = [] then nw else [])"
| "replace_first old nw (c # cs) =
     (if prefix old (c # cs) then nw @ drop (length old) (c # cs) else c # replace_first old nw cs)"

text \<open>Whether the host matches \<^verbatim>\<open>:\d+$\<close>.\<close>

definition has_port :: "string \<Rightarrow> bool" where
  "has_port host =
     (let digits = takeWhile (\<lambda>c. CHR ''0'' \<le> c \<and> c \<le> CHR ''9'') (rev host);
          rest = dropWhile (\<lambda>c. CHR ''0'' \<le> c \<and> c \<le> CHR ''9'') (rev host)
      in digits \<noteq> [] \<and> rest \<noteq> [] \<and> hd rest = CHR '':'')"

definition websocket_url :: "url \<Rightarrow> url" where
  "websocket_url u =
     (let u = u\<lparr>url_scheme := replace_first ''http'' ''ws'' (url_scheme u)\<rparr>
      in if has_port (url_host u) then u
         else if url_scheme u = ''wss'' then u\<lparr>url_host := url_host u @ '':443''\<rparr>
         else u\<lparr>url_host := url_host u @ '':80''\<rparr>)"

definition client_root_cas :: "client_env \<Rightarrow> tls_options \<Rightarrow> client_error + string option" where
  "client_root_cas env tls =
     (if to_skip_verify tls then Inr None
      else if to_ca tls \<noteq> [] then
        (case cv_read_file env (to_ca tls) of
           Inl err \<Rightarrow> Inl (Ca_unreadable (to_ca tls))
         | Inr b \<Rightarrow> if \<not> cv_append_pem env b then Inl (Ca_not_pem (to_ca tls)) else Inr (Some b))
      else Inr None)"

definition client_certificate :: "client_env \<Rightarrow> tls_options \<Rightarrow> client_error + (string \<times> string) option" where
  "client_certificate env tls =
     (if to_cert tls \<noteq> [] \<and> to_key tls \<noteq> [] then
        (case cv_load_pair env (to_cert tls) (to_key tls) of
           Some err \<Rightarrow> Inl (Key_pair_failed err)
         | None \<Rightarrow> Inr (Some (to_cert tls, to_key tls)))
      else if to_cert tls \<noteq> [] \<or> to_key tls \<noteq> [] then Inl Cert_and_key_needed
      else Inr None)"

definition client_tls :: "client_env \<Rightarrow> url \<Rightarrow> tls_options \<Rightarrow> client_error + tls_config option" where
  "client_tls env u tls =
     (if url_scheme u \<noteq> ''wss'' then Inr None
      else case client_root_cas env tls of
             Inl e \<Rightarrow> Inl e
           | Inr cas \<Rightarrow>
               (case client_certificate env tls of
                  Inl e \<Rightarrow> Inl e
                | Inr cert \<Rightarrow>
                    Inr (Some \<lparr>tc_server_name = to_server_name tls, tc_skip_verify = to_skip_verify tls,
                               tc_root_cas = cas, tc_certificate = cert\<rparr>)))"

text \<open>The loop over the remotes: the flags found so far are socks, reverse and stdio.\<close>

record remote_flags =
  rf_socks :: bool
  rf_reverse :: bool
  rf_stdio :: bool

fun client_remotes ::
    "golib \<Rightarrow> os \<Rightarrow> string list \<Rightarrow> remote_flags \<Rightarrow> os_trace \<Rightarrow>
     (client_error + remote list \<times> remote_flags) \<times> os_trace" where
  "client_remotes lib os [] f tr = (Inr ([], f), tr)"
| "client_remotes lib os (s # ss) f tr =
     (case decode_remote lib s of
        Inl e \<Rightarrow> (Inl (Bad_remote s e), tr)
      | Inr r \<Rightarrow>
          (let f = (if socks r then f\<lparr>rf_socks := True\<rparr> else f);
               f = (if reversed r then f\<lparr>rf_reverse := True\<rparr> else f)
           in if stdio r \<and> rf_stdio f then (Inl Second_stdio, tr)
              else
                (let f = (if stdio r then f\<lparr>rf_stdio := True\<rparr> else f);
                     (ok, tr) = (if \<not> reversed r \<and> \<not> stdio r then can_listen os r tr else (True, tr))
                 in if \<not> ok then (Inl (Cannot_listen (remote_string r)), tr)
                    else case client_remotes lib os ss f tr of
                           (Inl e, tr) \<Rightarrow> (Inl e, tr)
                         | (Inr (rs, f), tr) \<Rightarrow> (Inr (r # rs, f), tr))))"

definition new_client ::
    "golib \<Rightarrow> os \<Rightarrow> client_env \<Rightarrow> client_config \<Rightarrow> os_trace \<Rightarrow> (client_error + client) \<times> os_trace" where
  "new_client lib os env c tr =
     (let server = (if \<not> prefix ''http'' (cl_server c) then ''http://'' @ cl_server c else cl_server c);
          interval = (if cl_max_retry_interval c < second_ns then 5 * 60 * second_ns
                      else cl_max_retry_interval c)
      in case cv_parse_url env server of
           Inl e \<Rightarrow> (Inl (Bad_server_url e), tr)
         | Inr u0 \<Rightarrow>
             (let u = websocket_url u0
              in case client_tls env u (cl_tls c) of
                   Inl e \<Rightarrow> (Inl e, tr)
                 | Inr tls \<Rightarrow>
                     (case client_remotes lib os (cl_remotes c)
                             \<lparr>rf_socks = False, rf_reverse = False, rf_stdio = False\<rparr> tr of
                        (Inl e, tr) \<Rightarrow> (Inl e, tr)
                      | (Inr (rs, f), tr) \<Rightarrow>
                          (case (if cl_proxy c = [] then Inr None
                                 else map_sum id Some (cv_parse_url env (cl_proxy c))) of
                             Inl e \<Rightarrow> (Inl (Bad_proxy e), tr)
                           | Inr proxy \<Rightarrow>
                               (let (user, pass) = parse_auth (cl_auth c)
                                in (Inr \<lparr>ct_url = u, ct_max_retry_interval = interval, ct_tls = tls,
                                         ct_remotes = rs, ct_proxy_url = proxy, ct_user = user,
                                         ct_pass = pass, ct_inbound = True, ct_outbound = rf_reverse f,
                                         ct_socks = rf_reverse f \<and> rf_socks f\<rparr>, tr))))))"

subsection \<open>The server's key\<close>

definition hex_digit :: "nat \<Rightarrow> char" where
  "hex_digit n = ''0123456789abcdef'' ! (n mod 16)"

definition hex_byte :: "char \<Rightarrow> string" where
  "hex_byte c = [hex_digit (of_char c div 16), hex_digit (of_char c)]"

text \<open>The legacy fingerprint of a digest: its bytes in hexadecimal, joined by colons.\<close>

definition legacy_fingerprint :: "string \<Rightarrow> string" where
  "legacy_fingerprint digest = join_byte CHR '':'' (map hex_byte digest)"

text \<open>
  \<^verbatim>\<open>verifyServer\<close> for a key with the given SHA-256 and MD5 digests. Every error of the base64
  decoder is a \<^verbatim>\<open>CorruptInputError\<close>, so the third branch of the source is never taken.
\<close>

definition fingerprint_of :: "string \<Rightarrow> string" where
  "fingerprint_of sha256 = b64_encode True sha256"

definition verify_server :: "string \<Rightarrow> string \<Rightarrow> string \<Rightarrow> bool" where
  "verify_server expect sha256 md5 =
     (if expect = [] then True
      else if b64_decode True expect = None then prefix expect (legacy_fingerprint md5)
      else fingerprint_of sha256 = expect)"

subsection \<open>Connecting\<close>

datatype dial_via = Via_http_proxy | Via_socks | Unsupported_socks string

definition set_proxy :: "url \<Rightarrow> dial_via" where
  "set_proxy u =
     (if \<not> prefix ''socks'' (url_scheme u) then Via_http_proxy
      else if url_scheme u \<noteq> ''socks'' \<and> url_scheme u \<noteq> ''socks5h'' then Unsupported_socks (url_scheme u)
      else Via_socks)"

text \<open>What happens in one connection; a duration is in nanoseconds.\<close>

record once_env =
  on_cancelled :: bool
  on_socks_err :: "string option"
  on_dial_err :: "string option"
  on_handshake_err :: "string option"
  on_request_err :: "string option"
  on_config_err :: string
  on_bind_err :: "string option"
  on_elapsed :: int

text \<open>\<^verbatim>\<open>connectionOnce\<close>: whether it was connected, and its error.\<close>

definition connection_once :: "client \<Rightarrow> once_env \<Rightarrow> bool \<times> string option" where
  "connection_once c e =
     (if on_cancelled e then (False, Some ''Cancelled'')
      else
        (let proxy_err = (case ct_proxy_url c of
               None \<Rightarrow> None
             | Some u \<Rightarrow>
                 (case set_proxy u of
                    Via_http_proxy \<Rightarrow> None
                  | Via_socks \<Rightarrow> on_socks_err e
                  | Unsupported_socks s \<Rightarrow>
                      Some (''unsupported socks proxy type: '' @ s
                        @ '':// (only socks5h:// or socks:// is supported)'')))
         in if proxy_err \<noteq> None then (False, proxy_err)
            else if on_dial_err e \<noteq> None then (False, on_dial_err e)
            else if on_handshake_err e \<noteq> None then (False, on_handshake_err e)
            else if on_request_err e \<noteq> None then (False, on_request_err e)
            else if length (on_config_err e) > 0 then (False, Some (on_config_err e))
            else (on_elapsed e > 5 * second_ns, on_bind_err e)))"

text \<open>
  The backoff package counts the waits it has handed out since it was made or reset.
\<close>

record 'b backoff_lib =
  bo_new :: 'b
  bo_attempt :: "'b \<Rightarrow> nat"
  bo_reset :: "'b \<Rightarrow> 'b"
  bo_duration :: "'b \<Rightarrow> time \<times> 'b"

definition backoff_laws :: "'b backoff_lib \<Rightarrow> bool" where
  "backoff_laws lib \<longleftrightarrow>
     bo_attempt lib (bo_new lib) = 0 \<and> (\<forall>b. bo_attempt lib (bo_reset lib b) = 0) \<and>
     (\<forall>b. bo_attempt lib (snd (bo_duration lib b)) = Suc (bo_attempt lib b))"

datatype loop_end = Still_running | Crashed | Gave_up | Cancelled

text \<open>
  \<^verbatim>\<open>connectionLoop\<close> over the results of its connections, each with whether the context is
  cancelled during the wait that follows; the number of connections tried. Reading the text of
  a missing error is the crash.
\<close>

fun connection_loop ::
    "'b backoff_lib \<Rightarrow> int \<Rightarrow> 'b \<Rightarrow> ((bool \<times> string option) \<times> bool) list \<Rightarrow> loop_end \<times> nat" where
  "connection_loop lib mx b [] = (Still_running, 0)"
| "connection_loop lib mx b (((connected, err), cancelled) # rs) =
     (let b = (if connected then bo_reset lib b else b);
          attempt = int (bo_attempt lib b)
      in if err = None then (Crashed, 1)
         else if mx \<ge> 0 \<and> attempt \<ge> mx then (Gave_up, 1)
         else
           (let (d, b) = bo_duration lib b
            in if cancelled then (Cancelled, 1)
               else (case connection_loop lib mx b rs of (e, n) \<Rightarrow> (e, Suc n))))"

subsection \<open>Facts on the remotes\<close>

definition flags_of :: "remote list \<Rightarrow> remote_flags \<Rightarrow> remote_flags" where
  "flags_of rs f = \<lparr>rf_socks = (rf_socks f \<or> (\<exists>r \<in> set rs. socks r)),
     rf_reverse = (rf_reverse f \<or> (\<exists>r \<in> set rs. reversed r)),
     rf_stdio = (rf_stdio f \<or> (\<exists>r \<in> set rs. stdio r))\<rparr>"

lemma remote_flagsI:
  fixes f g :: remote_flags
  shows "rf_socks f = rf_socks g \<Longrightarrow> rf_reverse f = rf_reverse g \<Longrightarrow> rf_stdio f = rf_stdio g \<Longrightarrow> f = g"
  by (cases f; cases g) simp

lemma client_remotes_ConsE:
  assumes "client_remotes lib os (s # ss) f tr = (Inr (rs, f'), tr')"
  obtains r tr1 rs1 where "decode_remote lib s = Inr r" "\<not> (stdio r \<and> rf_stdio f)"
    "open_listeners tr1 = open_listeners tr" "rs = r # rs1"
    "client_remotes lib os ss (flags_of [r] f) tr1 = (Inr (rs1, f'), tr')"
proof -
  from assms obtain r where r: "decode_remote lib s = Inr r" by (auto split: sum.splits)
  let ?f1 = "if socks r then f\<lparr>rf_socks := True\<rparr> else f"
  let ?f2 = "if reversed r then ?f1\<lparr>rf_reverse := True\<rparr> else ?f1"
  let ?f3 = "if stdio r then ?f2\<lparr>rf_stdio := True\<rparr> else ?f2"
  have f3: "?f3 = flags_of [r] f" by (rule remote_flagsI) (simp_all add: flags_of_def)
  have st: "rf_stdio ?f2 = rf_stdio f" by simp
  obtain ok tr1 where c: "(if \<not> reversed r \<and> \<not> stdio r then can_listen os r tr else (True, tr)) = (ok, tr1)"
    by fastforce
  then have q: "open_listeners tr1 = open_listeners tr" by (auto split: if_splits dest: can_listen_quiet)
  obtain res tr2 where n: "client_remotes lib os ss (flags_of [r] f) tr1 = (res, tr2)" by fastforce
  have eq: "client_remotes lib os (s # ss) f tr =
      (if stdio r \<and> rf_stdio f then (Inl Second_stdio, tr)
       else if \<not> ok then (Inl (Cannot_listen (remote_string r)), tr1)
       else case res of Inl e \<Rightarrow> (Inl e, tr2) | Inr (rs, f) \<Rightarrow> (Inr (r # rs, f), tr2))"
    unfolding client_remotes.simps r sum.case Let_def st f3 c prod.case n
    by (cases res) (auto split: prod.splits)
  from assms eq have nost: "\<not> (stdio r \<and> rf_stdio f)" and ok
    by (auto split: if_splits)
  with assms eq obtain rs1 where "res = Inr (rs1, f')" "rs = r # rs1" "tr2 = tr'"
    by (cases res) (auto split: prod.splits)
  with that [OF r nost q] n show thesis by simp
qed

lemma client_remotes_ok:
  "client_remotes lib os ss f tr = (Inr (rs, f'), tr') \<Longrightarrow>
     list_all2 (\<lambda>s r. decode_remote lib s = Inr r) ss rs \<and> f' = flags_of rs f
     \<and> length (filter stdio rs) \<le> (if rf_stdio f then 0 else 1)
     \<and> open_listeners tr' = open_listeners tr"
proof (induction ss arbitrary: f tr rs)
  case Nil
  then show ?case by (auto simp: flags_of_def)
next
  case (Cons s ss)
  from Cons.prems obtain r tr1 rs1 where r: "decode_remote lib s = Inr r" "\<not> (stdio r \<and> rf_stdio f)"
    "open_listeners tr1 = open_listeners tr" "rs = r # rs1"
    and n: "client_remotes lib os ss (flags_of [r] f) tr1 = (Inr (rs1, f'), tr')"
    by (rule client_remotes_ConsE)
  from Cons.IH [OF n] r show ?case
    by (auto simp: flags_of_def intro!: remote_flagsI split: if_splits)
qed

lemma new_clientE:
  assumes "new_client lib os env c tr = (Inr ct, tr')"
  obtains f where
    "client_remotes lib os (cl_remotes c) \<lparr>rf_socks = False, rf_reverse = False, rf_stdio = False\<rparr> tr
       = (Inr (ct_remotes ct, f), tr')"
    "ct_outbound ct = rf_reverse f" "ct_socks ct = (rf_reverse f \<and> rf_socks f)"
    "\<exists>u. ct_url ct = websocket_url u" "(ct_user ct, ct_pass ct) = parse_auth (cl_auth c)"
proof -
  from assms obtain u rs f where "client_remotes lib os (cl_remotes c)
      \<lparr>rf_socks = False, rf_reverse = False, rf_stdio = False\<rparr> tr = (Inr (rs, f), tr')"
    and "ct_remotes ct = rs" "ct_outbound ct = rf_reverse f" "ct_socks ct = (rf_reverse f \<and> rf_socks f)"
      "ct_url ct = websocket_url u" "(ct_user ct, ct_pass ct) = parse_auth (cl_auth c)"
    by (auto simp: new_client_def Let_def split: sum.splits prod.splits if_splits)
  then show thesis by (intro that [of f]) auto
qed

subsection \<open>Properties\<close>

lemma has_port_append: "has_port (h @ '':80'')" "has_port (h @ '':443'')"
  by (simp_all add: has_port_def less_eq_char_def)

lemma websocket_url_port: "has_port (url_host (websocket_url u))"
  by (simp add: websocket_url_def Let_def has_port_append)

text \<open>
  C33. What a constructed client stands for. Its remotes are the configured ones, each decoded, all of
  them and in order; at most one is stdio; its tunnel lets the server open connections
  exactly if some remote is reversed, and serves SOCKS to it only if moreover some remote, not
  necessarily the reversed one, is socks; the server's host has a port; and the checks
  left no listener open.
\<close>

theorem new_client_sound:
  assumes "new_client lib os env c tr = (Inr ct, tr')"
  shows "list_all2 (\<lambda>s r. decode_remote lib s = Inr r) (cl_remotes c) (ct_remotes ct)
    \<and> length (filter stdio (ct_remotes ct)) \<le> 1
    \<and> ct_outbound ct = (\<exists>r \<in> set (ct_remotes ct). reversed r)
    \<and> ct_socks ct = ((\<exists>r \<in> set (ct_remotes ct). reversed r) \<and> (\<exists>r \<in> set (ct_remotes ct). socks r))
    \<and> has_port (url_host (ct_url ct))
    \<and> open_listeners tr' = open_listeners tr"
proof -
  from assms obtain f u where n: "client_remotes lib os (cl_remotes c)
      \<lparr>rf_socks = False, rf_reverse = False, rf_stdio = False\<rparr> tr = (Inr (ct_remotes ct, f), tr')"
    and ct: "ct_outbound ct = rf_reverse f" "ct_socks ct = (rf_reverse f \<and> rf_socks f)"
      "ct_url ct = websocket_url u"
    by (rule new_clientE) blast
  from client_remotes_ok [OF n] show ?thesis by (simp add: ct flags_of_def websocket_url_port)
qed

definition demo_client_config :: client_config where
  "demo_client_config = \<lparr>cl_fingerprint = [], cl_auth = ''ann:p'', cl_keep_alive = 25 * second_ns, cl_max_retry_count = 2,
     cl_max_retry_interval = 0, cl_server = ''example.org'', cl_proxy = [],
     cl_remotes = [''1080:socks'', ''R:80:10.0.0.1:80''],
     cl_tls = \<lparr>to_skip_verify = False, to_ca = [], to_cert = [], to_key = [], to_server_name = []\<rparr>\<rparr>"

definition demo_client_env :: client_env where
  "demo_client_env = \<lparr>cv_parse_url = (\<lambda>s. Inr \<lparr>url_scheme = ''http'', url_host = ''example.org''\<rparr>),
     cv_read_file = (\<lambda>_. Inl []), cv_append_pem = (\<lambda>_. False), cv_load_pair = (\<lambda>_ _. None)\<rparr>"

text \<open>A forward socks remote and a reversed one: the client serves SOCKS to the server.\<close>

theorem new_client_sound_witness:
  "let lib = \<lparr>uni_lower = id, url_parse_ok = \<lambda>_. True\<rparr>
   in case new_client lib (\<lambda>_ _. Done) demo_client_env demo_client_config [] of
        (Inl e, tr') \<Rightarrow> False
      | (Inr ct, tr') \<Rightarrow> length (ct_remotes ct) = 2 \<and> ct_socks ct \<and> open_listeners tr' = []
          \<and> url_host (ct_url ct) = ''example.org:80''"
proof -
  let ?lib = "\<lparr>uni_lower = id, url_parse_ok = \<lambda>_. True\<rparr>"
  let ?x = "new_client ?lib (\<lambda>_ _. Done) demo_client_env demo_client_config []"
  have a: "\<not> isl (fst ?x)" and b: "ct_socks (projr (fst ?x))"
    and d: "url_host (ct_url (projr (fst ?x))) = ''example.org:80''"
    and l: "length (cl_remotes demo_client_config) = 2" by code_simp+
  from a obtain ct tr' where x: "?x = (Inr ct, tr')" by (metis prod.collapse sum.collapse(2))
  from new_client_sound [OF x] b d l show ?thesis
    unfolding Let_def x by (auto dest: list_all2_lengthD)
qed

text \<open>
  C36. A pinned fingerprint admits its key and no other. When the fingerprint of a key is configured,
  a server is accepted exactly if the SHA-256 digest of its key is that of the pinned one; the
  legacy MD5 comparison is never reached.
\<close>

theorem pinned_fingerprint:
  assumes "sha256 \<noteq> []"
  shows "verify_server (fingerprint_of sha256) sha256' md5 = (sha256' = sha256)"
proof -
  have ne: "fingerprint_of sha256 \<noteq> []"
  proof
    assume "fingerprint_of sha256 = []"
    then have "b64_decode True [] = Some sha256" using b64_round_trip [of True sha256] by (simp add: fingerprint_of_def)
    with assms show False by (simp add: b64_decode_def)
  qed
  have dec: "b64_decode True (fingerprint_of k) = Some k" for k
    unfolding fingerprint_of_def by (rule b64_round_trip)
  then have inj: "(fingerprint_of sha256' = fingerprint_of sha256) = (sha256' = sha256)"
    by (metis option.inject)
  show ?thesis
    unfolding verify_server_def dec if_not_P [OF ne] by (simp only: inj option.distinct if_False)
qed

theorem pinned_fingerprint_witness:
  "fingerprint_of ''ab'' = ''YWI='' \<and> verify_server ''YWI='' ''ab'' [] \<and> \<not> verify_server ''YWI='' ''ac'' []"
proof (intro conjI)
  have ne: "''ab'' \<noteq> []" by simp
  show e: "fingerprint_of ''ab'' = ''YWI=''"
    by (simp add: fingerprint_of_def b64_char_def b64_alphabet_def Let_def)
  show "verify_server ''YWI='' ''ab'' []"
    using pinned_fingerprint [OF ne, of "''ab''" "[]"] unfolding e by simp
  have "''ac'' \<noteq> ''ab''" by simp
  then show "\<not> verify_server ''YWI='' ''ac'' []"
    using pinned_fingerprint [OF ne, of "''ac''" "[]"] unfolding e by blast
qed

text \<open>The connections of a run that never gets connected and is not cancelled.\<close>

definition failing :: "((bool \<times> string option) \<times> bool) list \<Rightarrow> bool" where
  "failing rs \<longleftrightarrow> (\<forall>((connected, err), cancelled) \<in> set rs. \<not> connected \<and> err \<noteq> None \<and> \<not> cancelled)"

lemma connection_loop_failing:
  assumes "backoff_laws lib" and "failing rs"
  shows "connection_loop lib mx b rs =
    (if 0 \<le> mx \<and> nat (mx - int (bo_attempt lib b)) < length rs
     then (Gave_up, nat (mx - int (bo_attempt lib b)) + 1) else (Still_running, length rs))"
  using assms(2)
proof (induction rs arbitrary: b)
  case Nil
  then show ?case by simp
next
  case (Cons x rs)
  obtain connected err cancelled where x: "x = ((connected, err), cancelled)" by (metis prod.collapse)
  with Cons.prems have f: "\<not> connected" "err \<noteq> None" "\<not> cancelled" and fs: "failing rs"
    by (auto simp: failing_def)
  obtain d b' where d: "bo_duration lib b = (d, b')" by fastforce
  then have at: "bo_attempt lib b' = Suc (bo_attempt lib b)"
    using assms(1) by (simp add: backoff_laws_def) (metis snd_conv)
  show ?case
    using Cons.IH [OF fs, of b'] f d at
    by (auto simp: x Let_def)
qed

text \<open>
  C37. The retry limit is exact. With a limit of \<open>m\<close> a client whose connections all fail tries \<open>m + 1\<close>
  times from the start, or after any successful connection \<open>m\<close> more times, and gives up; it
  does not give up earlier. With a negative limit it never gives up.
\<close>

theorem retry_limit:
  assumes "backoff_laws lib" and "failing rs"
  shows "connection_loop lib (int m) (bo_new lib) rs =
      (if m < length rs then (Gave_up, m + 1) else (Still_running, length rs))
    \<and> (m \<noteq> 0 \<longrightarrow> connection_loop lib (int m) b (((True, Some e), False) # rs) =
        (if m - 1 < length rs then (Gave_up, m + 1) else (Still_running, Suc (length rs))))
    \<and> (mx < 0 \<longrightarrow> connection_loop lib mx b rs = (Still_running, length rs))"
proof -
  have new: "bo_attempt lib (bo_new lib) = 0" and reset: "bo_attempt lib (bo_reset lib b) = 0"
    using assms(1) by (simp_all add: backoff_laws_def)
  obtain d b' where d: "bo_duration lib (bo_reset lib b) = (d, b')" by fastforce
  then have at: "bo_attempt lib b' = 1"
    using assms(1) reset by (simp add: backoff_laws_def) (metis One_nat_def snd_conv)
  note run = connection_loop_failing [OF assms]
  have "connection_loop lib (int m) b (((True, Some e), False) # rs) =
        (if m - 1 < length rs then (Gave_up, m + 1) else (Still_running, Suc (length rs)))" if "m \<noteq> 0"
    using that run [of "int m" b'] by (simp add: Let_def reset d at nat_diff_distrib)
  with run [of "int m" "bo_new lib"] run [of mx b] new show ?thesis by simp
qed

theorem retry_limit_witness:
  "let lib = \<lparr>bo_new = 0, bo_attempt = id, bo_reset = (\<lambda>_. 0), bo_duration = (\<lambda>n. (5, Suc n))\<rparr>;
       f = ((False, Some ''refused''), False)
   in connection_loop lib 2 0 [f, f, f, f] = (Gave_up, 3)"
proof -
  let ?lib = "\<lparr>bo_new = 0, bo_attempt = id, bo_reset = (\<lambda>_. 0), bo_duration = (\<lambda>n. (5, Suc n))\<rparr>"
  let ?f = "((False, Some ''refused''), False)"
  have "backoff_laws ?lib" "failing [?f, ?f, ?f, ?f]" by (simp_all add: backoff_laws_def failing_def)
  from retry_limit [OF this, of 2] show ?thesis by (simp add: Let_def)
qed

end
