(* ===== verification/Server_Listen.thy ===== *)
theory Server_Listen
  imports Os_Env
begin

text \<open>
  \<^verbatim>\<open>server/server_listen.go\<close>: the listener of the server and its TLS configuration, with the
  environment variables of \<^verbatim>\<open>share/settings/env.go\<close> it reads. Certificates, PEM and the files are
  parameters. A TLS configuration is either that of LetsEncrypt (the domains, the e-mail
  address, the cache directory) or a key pair with the pool of client authorities; with a pool a
  client certificate is required and verified.
\<close>

record listen_tls =
  lt_key :: string
  lt_cert :: string
  lt_domains :: "string list"
  lt_ca :: string

record listen_env =
  le_getenv :: "string \<Rightarrow> string"
  le_home :: "string option"
  le_load_pair :: "string \<Rightarrow> string \<Rightarrow> string option"
  le_is_dir :: "string \<Rightarrow> string + bool"
  le_read_dir :: "string \<Rightarrow> string + string list"
  le_read_file :: "string \<Rightarrow> string + string"
  le_append_pem :: "string \<Rightarrow> bool"

datatype tls_conf =
    Lets_encrypt "string list" string "string option"
  | Key_pair string string "string list option"

datatype listen_failure =
    Key_cert_and_domains
  | Key_pair_error string
  | Ca_error string
  | Ca_not_pem string
  | Listen_error string

subsection \<open>Environment variables\<close>

definition settings_env :: "listen_env \<Rightarrow> string \<Rightarrow> string" where
  "settings_env env name = le_getenv env (''CHISEL_'' @ name)"

definition env_int :: "listen_env \<Rightarrow> string \<Rightarrow> int \<Rightarrow> int" where
  "env_int env name def = (case atoi (settings_env env name) of Some n \<Rightarrow> n | None \<Rightarrow> def)"

text \<open>\<^verbatim>\<open>EnvDuration\<close>, with the parser of \<^verbatim>\<open>time\<close>.\<close>

definition env_duration :: "(string \<Rightarrow> int option) \<Rightarrow> listen_env \<Rightarrow> string \<Rightarrow> int \<Rightarrow> int" where
  "env_duration parse env name def = (case parse (settings_env env name) of Some n \<Rightarrow> n | None \<Rightarrow> def)"

definition env_bool :: "golib \<Rightarrow> listen_env \<Rightarrow> string \<Rightarrow> bool" where
  "env_bool lib env name = (let v = settings_env env name in v = ''1'' \<or> to_lower lib v = ''true'')"

text \<open>\<^verbatim>\<open>filepath.Join\<close>.\<close>

definition path_join :: "string list \<Rightarrow> string" where
  "path_join es =
     (let es = dropWhile (\<lambda>e. e = []) es in if es = [] then [] else path_clean (join_byte CHR ''/'' es))"

subsection \<open>TLS configurations\<close>

definition tls_lets_encrypt :: "listen_env \<Rightarrow> string list \<Rightarrow> tls_conf" where
  "tls_lets_encrypt env domains =
     (let c = settings_env env ''LE_CACHE'';
          c = (if c = [] then
                 (let h = le_getenv env ''HOME'';
                      h = (if h = [] then (case le_home env of Some d \<Rightarrow> d | None \<Rightarrow> h) else h)
                  in path_join [h, ''.cache'', ''chisel''])
               else c)
      in Lets_encrypt domains (settings_env env ''LE_EMAIL'') (if c \<noteq> ''-'' then Some c else None))"

definition add_pem_file :: "listen_env \<Rightarrow> string \<Rightarrow> string list \<Rightarrow> listen_failure + string list" where
  "add_pem_file env path pool =
     (case le_read_file env path of
        Inl err \<Rightarrow> Inl (Ca_error err)
      | Inr content \<Rightarrow>
          if \<not> le_append_pem env content then Inl (Ca_not_pem path) else Inr (pool @ [content]))"

fun add_pem_files :: "listen_env \<Rightarrow> string \<Rightarrow> string list \<Rightarrow> string list \<Rightarrow> listen_failure + string list" where
  "add_pem_files env ca [] pool = Inr pool"
| "add_pem_files env ca (f # fs) pool =
     (case add_pem_file env (path_join [ca, f]) pool of
        Inl e \<Rightarrow> Inl e
      | Inr pool \<Rightarrow> add_pem_files env ca fs pool)"

definition add_ca :: "listen_env \<Rightarrow> string \<Rightarrow> listen_failure + string list" where
  "add_ca env ca =
     (case le_is_dir env ca of
        Inl err \<Rightarrow> Inl (Ca_error err)
      | Inr True \<Rightarrow>
          (case le_read_dir env ca of
             Inl err \<Rightarrow> Inl (Ca_error err)
           | Inr files \<Rightarrow> add_pem_files env ca files [])
      | Inr False \<Rightarrow> add_pem_file env ca [])"

definition tls_key_cert :: "listen_env \<Rightarrow> string \<Rightarrow> string \<Rightarrow> string \<Rightarrow> listen_failure + tls_conf" where
  "tls_key_cert env key cert ca =
     (case le_load_pair env cert key of
        Some err \<Rightarrow> Inl (Key_pair_error err)
      | None \<Rightarrow>
          if ca \<noteq> [] then map_sum id (\<lambda>pool. Key_pair key cert (Some pool)) (add_ca env ca)
          else Inr (Key_pair key cert None))"

text \<open>The listener is a handle of the operating system, with its TLS configuration, if any.\<close>

definition server_listener ::
    "listen_env \<Rightarrow> os \<Rightarrow> listen_tls \<Rightarrow> string \<Rightarrow> string \<Rightarrow> os_trace \<Rightarrow>
     (listen_failure + nat \<times> tls_conf option) \<times> os_trace" where
  "server_listener env os tls host port tr =
     (let has_domains = length (lt_domains tls) > 0;
          has_key_cert = lt_key tls \<noteq> [] \<and> lt_cert tls \<noteq> []
      in if has_domains \<and> has_key_cert then (Inl Key_cert_and_domains, tr)
         else
           (let conf = (if has_domains then Some (tls_lets_encrypt env (lt_domains tls)) else None)
            in case (if has_key_cert
                     then map_sum id Some (tls_key_cert env (lt_key tls) (lt_cert tls) (lt_ca tls))
                     else Inr conf) of
                 Inl e \<Rightarrow> (Inl e, tr)
               | Inr conf \<Rightarrow>
                   (let h = length tr; (r, tr) = sys os (Listen_on ''tcp'' (host @ '':'' @ port)) tr
                    in case error_of r of
                         Some err \<Rightarrow> (Inl (Listen_error err), tr)
                       | None \<Rightarrow> (Inr (h, conf), tr))))"

subsection \<open>Properties\<close>

text \<open>The contents of the files that a certificate authority path stands for.\<close>

definition ca_files :: "listen_env \<Rightarrow> string \<Rightarrow> string list" where
  "ca_files env ca =
     (case le_is_dir env ca of
        Inr True \<Rightarrow> map (\<lambda>f. path_join [ca, f]) (case le_read_dir env ca of Inr fs \<Rightarrow> fs | Inl e \<Rightarrow> [])
      | _ \<Rightarrow> [ca])"

definition pem_of :: "listen_env \<Rightarrow> string \<Rightarrow> string \<Rightarrow> bool" where
  "pem_of env path pem \<longleftrightarrow> le_read_file env path = Inr pem \<and> le_append_pem env pem"

lemma add_pem_file_ok: "add_pem_file env path pool = Inr pool' \<longleftrightarrow> (\<exists>pem. pem_of env path pem \<and> pool' = pool @ [pem])"
  by (auto simp: add_pem_file_def pem_of_def split: sum.splits)

lemma add_pem_files_ok:
  "add_pem_files env ca fs pool = Inr pool' \<Longrightarrow>
     \<exists>pems. pool' = pool @ pems \<and> list_all2 (pem_of env) (map (\<lambda>f. path_join [ca, f]) fs) pems"
proof (induction fs arbitrary: pool)
  case Nil
  then show ?case by simp
next
  case (Cons f fs)
  then obtain pem where "pem_of env (path_join [ca, f]) pem" "add_pem_files env ca fs (pool @ [pem]) = Inr pool'"
    by (auto simp: add_pem_file_ok split: sum.splits)
  with Cons.IH [of "pool @ [pem]"] show ?case by auto
qed

lemma add_ca_ok: "add_ca env ca = Inr pool \<Longrightarrow> list_all2 (pem_of env) (ca_files env ca) pool"
  by (auto simp: add_ca_def ca_files_def add_pem_file_ok dest: add_pem_files_ok split: sum.splits bool.splits)

lemma tls_key_certE:
  assumes "tls_key_cert env key cert ca = Inr conf"
  obtains cas where "conf = Key_pair key cert cas" "(cas = None) = (ca = [])"
    "\<forall>pool. cas = Some pool \<longrightarrow> add_ca env ca = Inr pool"
proof (cases "ca = []")
  case True
  with assms that [of None] show thesis by (auto simp: tls_key_cert_def split: option.splits)
next
  case False
  with assms obtain pool where "add_ca env ca = Inr pool" "conf = Key_pair key cert (Some pool)"
    by (cases "add_ca env ca") (auto simp: tls_key_cert_def split: option.splits)
  with False that [of "Some pool"] show thesis by simp
qed

lemma server_listenerE:
  assumes "server_listener env os tls host port tr = (res, tr')"
  obtains (refused) e where "res = Inl e" "open_listeners tr' = open_listeners tr"
  | (listens) conf where "res = Inr (length tr, conf)" "open_listeners tr' = open_listeners tr @ [length tr]"
      "\<not> (lt_domains tls \<noteq> [] \<and> lt_key tls \<noteq> [] \<and> lt_cert tls \<noteq> [])"
      "if lt_key tls \<noteq> [] \<and> lt_cert tls \<noteq> []
       then \<exists>c. conf = Some c \<and> tls_key_cert env (lt_key tls) (lt_cert tls) (lt_ca tls) = Inr c
       else conf = (if lt_domains tls \<noteq> [] then Some (tls_lets_encrypt env (lt_domains tls)) else None)"
proof -
  define pair where "pair \<longleftrightarrow> lt_key tls \<noteq> [] \<and> lt_cert tls \<noteq> []"
  define conf where "conf = (if pair then map_sum id Some (tls_key_cert env (lt_key tls) (lt_cert tls) (lt_ca tls))
    else Inr (if lt_domains tls \<noteq> [] then Some (tls_lets_encrypt env (lt_domains tls)) else None))"
  define reply where "reply = os tr (Listen_on ''tcp'' (host @ '':'' @ port))"
  have eq: "(res, tr') =
     (if lt_domains tls \<noteq> [] \<and> pair then (Inl Key_cert_and_domains, tr)
      else case conf of Inl e \<Rightarrow> (Inl e, tr)
         | Inr conf \<Rightarrow>
             (case error_of reply of
                Some err \<Rightarrow> (Inl (Listen_error err), tr @ [(Listen_on ''tcp'' (host @ '':'' @ port), reply)])
              | None \<Rightarrow> (Inr (length tr, conf), tr @ [(Listen_on ''tcp'' (host @ '':'' @ port), reply)])))"
    unfolding assms [symmetric] server_listener_def Let_def sys_def prod.case length_greater_0_conv
      pair_def conf_def reply_def ..
  show thesis
  proof (cases "\<exists>c. conf = Inr c \<and> \<not> (lt_domains tls \<noteq> [] \<and> pair) \<and> error_of reply = None")
    case False
    then have "\<exists>e. res = Inl e \<and> open_listeners tr' = open_listeners tr"
      using eq by (cases conf) (auto split: if_splits option.splits)
    with refused show thesis by blast
  next
    case True
    then obtain c where c: "conf = Inr c" "\<not> (lt_domains tls \<noteq> [] \<and> pair)" "error_of reply = None" by blast
    then have "res = Inr (length tr, c)" "open_listeners tr' = open_listeners tr @ [length tr]"
      using eq by auto
    moreover have "if pair then \<exists>x. c = Some x \<and> tls_key_cert env (lt_key tls) (lt_cert tls) (lt_ca tls) = Inr x
        else c = (if lt_domains tls \<noteq> [] then Some (tls_lets_encrypt env (lt_domains tls)) else None)"
      using c(1) unfolding conf_def
      by (cases pair; cases "tls_key_cert env (lt_key tls) (lt_cert tls) (lt_ca tls)") auto
    ultimately show thesis using c(2) listens [of c] by (simp add: pair_def)
  qed
qed

text \<open>
  C32. What a server listens with. The server gets exactly one new listener, or, on any error, none. It
  is plain HTTP exactly if no domain is configured and the key or the certificate is missing. With
  both, it uses that pair, and demands client certificates exactly if an authority path is
  configured; the authorities are then those of the path, or of every file of that directory, none
  left out. With domains it uses LetsEncrypt, and the authority path is ignored.
\<close>

theorem listener_tls:
  assumes "server_listener env os tls host port tr = (res, tr')"
  shows "case res of
      Inl e \<Rightarrow> open_listeners tr' = open_listeners tr
    | Inr (h, conf) \<Rightarrow>
        open_listeners tr' = open_listeners tr @ [h]
        \<and> (conf = None \<longleftrightarrow> lt_domains tls = [] \<and> (lt_key tls = [] \<or> lt_cert tls = []))
        \<and> (\<forall>ds email cache. conf = Some (Lets_encrypt ds email cache) \<longrightarrow> ds = lt_domains tls \<and> ds \<noteq> [])
        \<and> (\<forall>key cert cas. conf = Some (Key_pair key cert cas) \<longrightarrow>
             key = lt_key tls \<and> cert = lt_cert tls \<and> (cas = None \<longleftrightarrow> lt_ca tls = [])
             \<and> (\<forall>pool. cas = Some pool \<longrightarrow> list_all2 (pem_of env) (ca_files env (lt_ca tls)) pool))"
proof -
  let ?pair = "lt_key tls \<noteq> [] \<and> lt_cert tls \<noteq> []"
  let ?le = "tls_lets_encrypt env (lt_domains tls)"
  have le: "\<exists>email cache. ?le = Lets_encrypt (lt_domains tls) email cache" by (simp add: tls_lets_encrypt_def Let_def)
  from assms show ?thesis
  proof (cases rule: server_listenerE)
    case (refused e)
    then show ?thesis by simp
  next
    case (listens conf)
    then show ?thesis
    proof (cases ?pair)
      case True
      with listens have "lt_domains tls = []" by simp
      moreover from True listens obtain cas where "conf = Some (Key_pair (lt_key tls) (lt_cert tls) cas)"
        "(cas = None) = (lt_ca tls = [])" "\<forall>pool. cas = Some pool \<longrightarrow> add_ca env (lt_ca tls) = Inr pool"
        by (auto elim: tls_key_certE)
      ultimately show ?thesis using True listens by (auto dest: add_ca_ok)
    next
      case False
      with listens le show ?thesis by (auto split: if_splits)
    qed
  qed
qed

theorem listener_tls_witness:
  "let env = \<lparr>le_getenv = (\<lambda>_. []), le_home = None, le_load_pair = (\<lambda>_ _. None), le_is_dir = (\<lambda>_. Inr True),
         le_read_dir = (\<lambda>_. Inr [''a.pem'', ''b.pem'']), le_read_file = Inr, le_append_pem = (\<lambda>_. True)\<rparr>;
       tls = \<lparr>lt_key = ''k'', lt_cert = ''c'', lt_domains = [], lt_ca = ''/ca''\<rparr>
   in server_listener env (\<lambda>_ _. Done) tls ''0.0.0.0'' ''443'' []
        = (Inr (0, Some (Key_pair ''k'' ''c'' (Some [''/ca/a.pem'', ''/ca/b.pem'']))),
           [(Listen_on ''tcp'' ''0.0.0.0:443'', Done)])
      \<and> open_listeners [(Listen_on ''tcp'' ''0.0.0.0:443'', Done)] = [0]"
proof -
  let ?env = "\<lparr>le_getenv = (\<lambda>_. []), le_home = None, le_load_pair = (\<lambda>_ _. None), le_is_dir = (\<lambda>_. Inr True),
         le_read_dir = (\<lambda>_. Inr [''a.pem'', ''b.pem'']), le_read_file = Inr, le_append_pem = (\<lambda>_. True)\<rparr> :: listen_env"
  let ?tls = "\<lparr>lt_key = ''k'', lt_cert = ''c'', lt_domains = [], lt_ca = ''/ca''\<rparr>"
  have l: "server_listener ?env (\<lambda>_ _. Done) ?tls ''0.0.0.0'' ''443'' []
        = (Inr (0, Some (Key_pair ''k'' ''c'' (Some [''/ca/a.pem'', ''/ca/b.pem'']))),
           [(Listen_on ''tcp'' ''0.0.0.0:443'', Done)])" by code_simp
  from listener_tls [OF l] l show ?thesis by (simp add: Let_def)
qed

end
