(* ===== verification/Command_Line.thy ===== *)
theory Command_Line
  imports Client Server Server_Listen
begin

text \<open>
  \<^verbatim>\<open>main.go\<close>: what the two commands make of their flags and of the environment. A command starts
  from the record of its flags here; \<open>Program\<close> parses the arguments into it. Both \<^verbatim>\<open>--proxy\<close> and
  \<^verbatim>\<open>--backend\<close> set \<open>sf_proxy\<close>; \<open>cf_headers\<close> has the values of \<^verbatim>\<open>--header\<close> in their order.
\<close>

subsection \<open>The two commands\<close>

datatype main_action = Print_version | Print_help | Server_command "string list" | Client_command "string list"

definition main_dispatch :: "bool \<Rightarrow> bool \<Rightarrow> string list \<Rightarrow> main_action" where
  "main_dispatch version v args =
     (if version \<or> v then Print_version
      else
        (let subcmd = (case args of [] \<Rightarrow> [] | a # as \<Rightarrow> a);
             args = (case args of [] \<Rightarrow> [] | a # as \<Rightarrow> as)
         in if subcmd = ''server'' then Server_command args
            else if subcmd = ''client'' then Client_command args
            else Print_help))"

subsection \<open>Repeated flags\<close>

text \<open>\<^verbatim>\<open>multiFlag\<close> collects its values.\<close>

definition multi_flag_set :: "string \<Rightarrow> string list \<Rightarrow> string list" where
  "multi_flag_set arg values = values @ [arg]"

text \<open>The canonical form of a header name in \<^verbatim>\<open>net/http\<close>; a name with another byte stays as it is.\<close>

definition in_range :: "char \<Rightarrow> char \<Rightarrow> char \<Rightarrow> bool" where
  "in_range lo hi c \<longleftrightarrow> lo \<le> c \<and> c \<le> hi"

definition letter :: "char \<Rightarrow> bool" where
  "letter c \<longleftrightarrow> in_range (CHR ''a'') (CHR ''z'') c \<or> in_range (CHR ''A'') (CHR ''Z'') c"

definition token_byte :: "char \<Rightarrow> bool" where
  "token_byte c \<longleftrightarrow> letter c \<or> in_range (CHR ''0'') (CHR ''9'') c \<or> c \<in> set ''!#$%&*+-.^_|~'' \<or> c = CHR 0x27 \<or> c = CHR 0x60"

definition upper_byte :: "char \<Rightarrow> char" where
  "upper_byte c = (if in_range (CHR ''a'') (CHR ''z'') c then char_of (of_char c - 32 :: nat) else c)"

fun canonical_bytes :: "bool \<Rightarrow> string \<Rightarrow> string" where
  "canonical_bytes up [] = []"
| "canonical_bytes up (c # cs) =
     (if up then upper_byte c else lower_byte c) # canonical_bytes (c = CHR ''-'') cs"

definition canonical_key :: "string \<Rightarrow> string" where
  "canonical_key k = (if list_all token_byte k then canonical_bytes True k else k)"

type_synonym header = "string list go_map"

definition header_put :: "string \<Rightarrow> string \<Rightarrow> header \<Rightarrow> header" where
  "header_put k v h = map_set (canonical_key k) [v] h"

text \<open>\<^verbatim>\<open>headerFlags.Set\<close>; None is its error.\<close>

definition header_flags_set :: "string \<Rightarrow> header \<Rightarrow> header option" where
  "header_flags_set arg h =
     (case index_byte CHR '':'' arg of
        None \<Rightarrow> None
      | Some i \<Rightarrow> Some (header_put (take i arg) (trim_space (drop (i + 1) arg)) h))"

text \<open>\<^verbatim>\<open>headerFlags.String\<close>: a line for each name; a list of values is printed in brackets.\<close>

definition header_flags_string :: "header \<Rightarrow> string" where
  "header_flags_string h =
     concat (map (\<lambda>(k, vs). k @ '': ['' @ join_byte (CHR '' '') vs @ '']'' @ [CHR 0x0A]) h)"

fun parse_headers :: "string list \<Rightarrow> header \<Rightarrow> header option" where
  "parse_headers [] h = Some h"
| "parse_headers (a # as) h = (case header_flags_set a h of None \<Rightarrow> None | Some h \<Rightarrow> parse_headers as h)"

subsection \<open>\<^verbatim>\<open>chisel server\<close>\<close>

record server_flags =
  sf_key :: string
  sf_keyfile :: string
  sf_authfile :: string
  sf_auth :: string
  sf_keep_alive :: int
  sf_proxy :: string
  sf_socks5 :: bool
  sf_reverse :: bool
  sf_tls_key :: string
  sf_tls_cert :: string
  sf_tls_domains :: "string list"
  sf_tls_ca :: string
  sf_host :: string
  sf_p :: string
  sf_port :: string
  sf_keygen :: string
  sf_pid :: bool
  sf_verbose :: bool

record server_start =
  ss_config :: server_config
  ss_tls :: listen_tls
  ss_host :: string
  ss_port :: string

datatype server_action = Generate_key_file string string | Start_server server_start

definition server_command :: "(string \<Rightarrow> string) \<Rightarrow> server_flags \<Rightarrow> server_action" where
  "server_command getenv f =
     (if sf_keygen f \<noteq> [] then Generate_key_file (sf_keygen f) (sf_key f)
      else
        (let host = sf_host f;
             host = (if host = [] then getenv ''HOST'' else host);
             host = (if host = [] then ''0.0.0.0'' else host);
             port = sf_port f;
             port = (if port = [] then sf_p f else port);
             port = (if port = [] then getenv ''PORT'' else port);
             port = (if port = [] then ''8080'' else port);
             key_file = (if sf_keyfile f = [] then getenv ''CHISEL_KEY_FILE'' else sf_keyfile f);
             key_seed = (if sf_key f = [] then getenv ''CHISEL_KEY'' else sf_key f);
             auth = (if sf_auth f = [] then getenv ''AUTH'' else sf_auth f)
         in Start_server
              \<lparr>ss_config = \<lparr>sc_key_seed = key_seed, sc_key_file = key_file, sc_auth_file = sf_authfile f,
                  sc_auth = auth, sc_proxy = sf_proxy f, sc_socks5 = sf_socks5 f,
                  sc_reverse = sf_reverse f, sc_keep_alive = sf_keep_alive f,
                  sc_otel_enabled = False, sc_otel_endpoint = []\<rparr>,
               ss_tls = \<lparr>lt_key = sf_tls_key f, lt_cert = sf_tls_cert f, lt_domains = sf_tls_domains f,
                  lt_ca = sf_tls_ca f\<rparr>,
               ss_host = host, ss_port = port\<rparr>))"

subsection \<open>\<^verbatim>\<open>chisel client\<close>\<close>

record client_flags =
  cf_fingerprint :: string
  cf_auth :: string
  cf_keep_alive :: int
  cf_max_retry_count :: int
  cf_max_retry_interval :: int
  cf_proxy :: string
  cf_tls_ca :: string
  cf_tls_skip_verify :: bool
  cf_tls_cert :: string
  cf_tls_key :: string
  cf_headers :: "string list"
  cf_hostname :: string
  cf_sni :: string
  cf_pid :: bool
  cf_verbose :: bool

datatype client_action = Bad_header | Too_few_arguments | Start_client client_config header

definition client_command :: "(string \<Rightarrow> string) \<Rightarrow> client_flags \<Rightarrow> string list \<Rightarrow> client_action" where
  "client_command getenv f args =
     (case parse_headers (cf_headers f) [] of
        None \<Rightarrow> Bad_header
      | Some headers \<Rightarrow>
          if length args < 2 then Too_few_arguments
          else
            (let auth = (if cf_auth f = [] then getenv ''AUTH'' else cf_auth f);
                 headers = (if cf_hostname f \<noteq> [] then header_put ''Host'' (cf_hostname f) headers else headers);
                 name = (if cf_hostname f \<noteq> [] then cf_hostname f else []);
                 name = (if cf_sni f \<noteq> [] then cf_sni f else name)
             in Start_client
                  \<lparr>cl_fingerprint = cf_fingerprint f, cl_auth = auth, cl_keep_alive = cf_keep_alive f,
                   cl_max_retry_count = cf_max_retry_count f,
                   cl_max_retry_interval = cf_max_retry_interval f, cl_server = hd args, cl_proxy = cf_proxy f,
                   cl_remotes = tl args,
                   cl_tls = \<lparr>to_skip_verify = cf_tls_skip_verify f, to_ca = cf_tls_ca f,
                      to_cert = cf_tls_cert f, to_key = cf_tls_key f, to_server_name = name\<rparr>\<rparr>
                  headers))"

subsection \<open>Properties\<close>

definition first_set :: "string list \<Rightarrow> string" where
  "first_set ss = (case filter (\<lambda>s. s \<noteq> []) ss of [] \<Rightarrow> [] | s # _ \<Rightarrow> s)"

lemma first_set_simps [simp]:
  "first_set [] = []" "first_set (s # ss) = (if s = [] then first_set ss else s)"
  by (simp_all add: first_set_def)

text \<open>
  The settings of a server command. A key is generated exactly if that is asked for, and then
  nothing is started. Otherwise each setting is the first one that is not empty of its flag, its
  environment variable and its default, so that the host and the port are never empty; the
  flags are handed on as they are; and telemetry, which has no flag, is off.
\<close>

theorem server_command_settings:
  "case server_command getenv f of
     Generate_key_file path seed \<Rightarrow> sf_keygen f \<noteq> [] \<and> path = sf_keygen f \<and> seed = sf_key f
   | Start_server s \<Rightarrow>
       sf_keygen f = [] \<and> ss_host s \<noteq> [] \<and> ss_port s \<noteq> []
       \<and> ss_host s = first_set [sf_host f, getenv ''HOST'', ''0.0.0.0'']
       \<and> ss_port s = first_set [sf_port f, sf_p f, getenv ''PORT'', ''8080'']
       \<and> sc_key_file (ss_config s) = first_set [sf_keyfile f, getenv ''CHISEL_KEY_FILE'']
       \<and> sc_key_seed (ss_config s) = first_set [sf_key f, getenv ''CHISEL_KEY'']
       \<and> sc_auth (ss_config s) = first_set [sf_auth f, getenv ''AUTH'']
       \<and> sc_keep_alive (ss_config s) = sf_keep_alive f \<and> sc_reverse (ss_config s) = sf_reverse f \<and> sc_socks5 (ss_config s) = sf_socks5 f
       \<and> \<not> sc_otel_enabled (ss_config s)"
  by (simp add: server_command_def Let_def)

text \<open>What one header flag says: the name up to the first colon, and the trimmed rest.\<close>

definition header_name :: "string \<Rightarrow> string" where
  "header_name arg = canonical_key (takeWhile (\<lambda>c. c \<noteq> CHR '':'') arg)"

definition header_value :: "string \<Rightarrow> string" where
  "header_value arg = trim_space (tl (dropWhile (\<lambda>c. c \<noteq> CHR '':'') arg))"

lemma index_byte_take:
  "index_byte c s = Some i \<Longrightarrow> take i s = takeWhile (\<lambda>x. x \<noteq> c) s \<and> drop (i + 1) s = tl (dropWhile (\<lambda>x. x \<noteq> c) s)"
  by (induction s arbitrary: i) (auto split: if_splits)

lemma header_flags_set_iff:
  "header_flags_set arg h =
     (if CHR '':'' \<in> set arg then Some (map_set (header_name arg) [header_value arg] h) else None)"
proof (cases "index_byte CHR '':'' arg")
  case None
  then show ?thesis using index_byte_None_iff [of "CHR '':''" arg] by (simp add: header_flags_set_def)
next
  case (Some i)
  then have "CHR '':'' \<in> set arg" using index_byte_None_iff [of "CHR '':''" arg] by fastforce
  with Some index_byte_take [OF Some] show ?thesis
    by (simp add: header_flags_set_def header_put_def header_name_def header_value_def)
qed

lemma parse_headers_get:
  "parse_headers as h = Some h' \<Longrightarrow>
     list_all (\<lambda>a. CHR '':'' \<in> set a) as
     \<and> map_get h' = map_get h ++ map_of (rev (map (\<lambda>a. (header_name a, [header_value a])) as))"
proof (induction as arbitrary: h)
  case Nil
  then show ?case by simp
next
  case (Cons a as)
  then show ?case by (auto simp: header_flags_set_iff map_add_upd_left fun_eq_iff map_add_def split: if_splits option.splits)
qed

lemma parse_headers_none: "parse_headers as h = None \<longleftrightarrow> \<not> list_all (\<lambda>a. CHR '':'' \<in> set a) as"
  by (induction as arbitrary: h) (auto simp: header_flags_set_iff)

text \<open>
  What a client command starts. It fails exactly if a header flag has no colon or there are fewer
  than two arguments. Otherwise the first argument is the server and the others, in order, are
  the remotes; a header has the trimmed value of the last flag that names it, in any case,
  except that \<^verbatim>\<open>--hostname\<close> overrides \<^verbatim>\<open>Host\<close>; the limits, the proxy and the fingerprint are handed on; and the TLS server name is the first that is set of
  \<^verbatim>\<open>--sni\<close> and \<^verbatim>\<open>--hostname\<close>.
\<close>

theorem client_command_settings:
  "case client_command getenv f args of
     Bad_header \<Rightarrow> \<not> list_all (\<lambda>a. CHR '':'' \<in> set a) (cf_headers f)
   | Too_few_arguments \<Rightarrow> length args < 2
   | Start_client c headers \<Rightarrow>
       list_all (\<lambda>a. CHR '':'' \<in> set a) (cf_headers f) \<and> 2 \<le> length args
       \<and> cl_server c # cl_remotes c = args
       \<and> map_get headers =
           (map_of (rev (map (\<lambda>a. (header_name a, [header_value a])) (cf_headers f))))
             (''Host'' := if cf_hostname f \<noteq> [] then Some [cf_hostname f]
                        else map_of (rev (map (\<lambda>a. (header_name a, [header_value a])) (cf_headers f))) ''Host'')
       \<and> to_server_name (cl_tls c) = first_set [cf_sni f, cf_hostname f]
       \<and> cl_auth c = first_set [cf_auth f, getenv ''AUTH'']
       \<and> cl_keep_alive c = cf_keep_alive f \<and> cl_fingerprint c = cf_fingerprint f \<and> cl_proxy c = cf_proxy f
       \<and> cl_max_retry_count c = cf_max_retry_count f \<and> cl_max_retry_interval c = cf_max_retry_interval f"
proof (cases "parse_headers (cf_headers f) []")
  case None
  then show ?thesis using parse_headers_none [of "cf_headers f" "[]"] by (simp add: client_command_def)
next
  case (Some h)
  from parse_headers_get [OF this] have all: "list_all (\<lambda>a. CHR '':'' \<in> set a) (cf_headers f)"
    and get: "map_get h = map_of (rev (map (\<lambda>a. (header_name a, [header_value a])) (cf_headers f)))" by auto
  have host: "canonical_key ''Host'' = ''Host''" by code_simp
  show ?thesis
  proof (cases "length args < 2")
    case True
    with Some show ?thesis by (simp add: client_command_def)
  next
    case False
    then obtain s r rs where "args = s # r # rs" by (cases args; cases "tl args") auto
    with Some all get show ?thesis
      by (simp add: client_command_def Let_def header_put_def host fun_upd_idem)
  qed
qed

definition demo_client_flags :: client_flags where
  "demo_client_flags = \<lparr>cf_fingerprint = [], cf_auth = [], cf_keep_alive = 25 * second_ns, cf_max_retry_count = -1, cf_max_retry_interval = 0,
     cf_proxy = [], cf_tls_ca = [], cf_tls_skip_verify = False, cf_tls_cert = [], cf_tls_key = [],
     cf_headers = [''foo-bar: 1'', ''Foo-Bar:  2 ''], cf_hostname = ''h'', cf_sni = [],
     cf_pid = False, cf_verbose = False\<rparr>"

lemma demo_client_command:
  "case client_command (\<lambda>_. ''ann:p'') demo_client_flags [''example.org'', ''3000''] of
     Start_client c headers \<Rightarrow> headers = [(''Foo-Bar'', [''2'']), (''Host'', [''h''])] \<and> cl_auth c = ''ann:p''
   | _ \<Rightarrow> False"
  by code_simp

end
