(* ===== verification/Server_Run.thy ===== *)
theory Server_Run
  imports Server Server_Listen
begin

text \<open>
  The life of a server: \<^verbatim>\<open>share/cnet/http_server.go\<close>, the start and the end of
  \<^verbatim>\<open>server/server.go\<close>, and the set-up of the publisher in \<^verbatim>\<open>server/otel.go\<close>. The HTTP server of
  the standard library answers through parameters: the error of its \<^verbatim>\<open>Close\<close>, and whether
  \<^verbatim>\<open>Serve\<close> fails; after a close it ends with \<^verbatim>\<open>ErrServerClosed\<close>. The OpenTelemetry SDK is an
  oracle over the calls made to it.
\<close>

subsection \<open>The HTTP server\<close>

datatype serve_end = Server_closed | Serve_failed string

record http_server =
  hs_waiting :: bool
  hs_closed :: bool
  hs_served :: "serve_end option"

definition new_http_server :: http_server where
  "new_http_server = \<lparr>hs_waiting = False, hs_closed = False, hs_served = None\<rparr>"

text \<open>\<^verbatim>\<open>GoServe\<close>; the context can be nil.\<close>

definition go_serve :: "bool \<Rightarrow> http_server \<Rightarrow> string option \<times> http_server" where
  "go_serve has_ctx h =
     (if \<not> has_ctx then (Some ''ctx must be set'', h)
      else (None, h\<lparr>hs_waiting := True, hs_served := None\<rparr>))"

definition go_listen_and_serve :: "bool \<Rightarrow> os \<Rightarrow> string \<Rightarrow> http_server \<Rightarrow> os_trace \<Rightarrow>
    (string option \<times> http_server) \<times> os_trace" where
  "go_listen_and_serve has_ctx os addr h tr =
     (if \<not> has_ctx then ((Some ''ctx must be set'', h), tr)
      else
        (let (r, tr) = sys os (Listen_on ''tcp'' addr) tr
         in case error_of r of
              Some e \<Rightarrow> ((Some e, h), tr)
            | None \<Rightarrow> (go_serve has_ctx h, tr)))"

definition http_close :: "string option \<Rightarrow> http_server \<Rightarrow> string option \<times> http_server" where
  "http_close err h =
     (if \<not> hs_waiting h then (Some ''not started yet'', h) else (err, h\<lparr>hs_closed := True\<rparr>))"

text \<open>The goroutine that waits for the context, and the one that serves.\<close>

definition http_context_done :: "http_server \<Rightarrow> http_server" where
  "http_context_done h = snd (http_close None h)"

definition http_serve_returns :: "string option \<Rightarrow> http_server \<Rightarrow> http_server" where
  "http_serve_returns err h =
     (if \<not> hs_waiting h \<or> hs_served h \<noteq> None then h
      else if hs_closed h then h\<lparr>hs_served := Some Server_closed\<rparr>
      else case err of Some e \<Rightarrow> h\<lparr>hs_served := Some (Serve_failed e)\<rparr> | None \<Rightarrow> h)"

text \<open>\<^verbatim>\<open>Wait\<close>: its error, or None while it blocks.\<close>

definition http_wait :: "http_server \<Rightarrow> string option option" where
  "http_wait h =
     (if \<not> hs_waiting h then Some (Some ''not started yet'')
      else case hs_served h of
             None \<Rightarrow> None
           | Some Server_closed \<Rightarrow> Some None
           | Some (Serve_failed e) \<Rightarrow> Some (Some e))"

subsection \<open>The publisher\<close>

datatype sdk_call =
    New_exporter string
  | New_resource
  | Set_tracer_provider
  | Set_meter_provider
  | New_instrument string
  | Register_callback
  | Shutdown_meter
  | Shutdown_tracer

type_synonym sdk = "sdk_call \<Rightarrow> string option"

text \<open>The calls in order, up to the first that fails: its error, and the calls made.\<close>

fun sdk_calls :: "sdk \<Rightarrow> sdk_call list \<Rightarrow> string option \<times> sdk_call list" where
  "sdk_calls sdk [] = (None, [])"
| "sdk_calls sdk (c # cs) =
     (case sdk c of
        Some e \<Rightarrow> (Some e, [c])
      | None \<Rightarrow> (case sdk_calls sdk cs of (r, made) \<Rightarrow> (r, c # made)))"

definition init_metrics :: "sdk \<Rightarrow> string option \<times> sdk_call list" where
  "init_metrics sdk =
     sdk_calls sdk
       (map New_instrument
          [''chisel_sessions_status'', ''chisel_endpoints_status'', ''chisel_session_failures_total'',
           ''chisel_endpoint_failures_total'', ''chisel_stream_errors_total'',
           ''chisel_streams_accepted_total'', ''chisel_handshake_duration_seconds'',
           ''chisel_session_duration_seconds'', ''chisel_endpoint_setup_duration_seconds'',
           ''chisel_stream_duration_seconds''] @ [Register_callback])"

definition new_otel_publisher :: "sdk \<Rightarrow> string \<Rightarrow> (string + publisher) \<times> sdk_call list" where
  "new_otel_publisher sdk endpoint =
     (case otel_endpoint endpoint of
        None \<Rightarrow> (Inl ''otel endpoint is empty'', [])
      | Some e \<Rightarrow>
          (case sdk (New_exporter e) of
             Some err \<Rightarrow> (Inl (''create otel trace exporter: '' @ err), [New_exporter e])
           | None \<Rightarrow>
               (case sdk New_resource of
                  Some err \<Rightarrow> (Inl (''create otel resource: '' @ err), [New_exporter e, New_resource])
                | None \<Rightarrow>
                    (let (err, made) = init_metrics sdk;
                         calls = [New_exporter e, New_resource, Set_tracer_provider, Set_meter_provider] @ made
                     in case err of
                          Some err \<Rightarrow> (Inl err, calls)
                        | None \<Rightarrow> (Inr new_publisher, calls)))))"

definition otel_shutdown :: "sdk \<Rightarrow> string option \<times> sdk_call list" where
  "otel_shutdown sdk = sdk_calls sdk [Shutdown_meter, Shutdown_tracer]"

subsection \<open>Start and close\<close>

record server_run =
  sr_http :: http_server
  sr_close_once :: bool
  sr_sdk_calls :: "sdk_call list"

datatype start_failure = No_listener listen_failure | Not_served string

text \<open>\<^verbatim>\<open>StartContext\<close>: its error, and the state with the system calls made.\<close>

definition start_context ::
    "listen_env \<Rightarrow> os \<Rightarrow> listen_tls \<Rightarrow> string \<Rightarrow> string \<Rightarrow> bool \<Rightarrow> server_run \<Rightarrow> os_trace \<Rightarrow>
     start_failure option \<times> server_run \<times> os_trace" where
  "start_context env os tls host port has_ctx s tr =
     (case server_listener env os tls host port tr of
        (Inl e, tr) \<Rightarrow> (Some (No_listener e), s, tr)
      | (Inr l, tr) \<Rightarrow>
          (let (err, h) = go_serve has_ctx (sr_http s)
           in (map_option Not_served err, s\<lparr>sr_http := h\<rparr>, tr)))"

text \<open>\<^verbatim>\<open>Server.Wait\<close>\<close>

definition server_wait :: "server_run \<Rightarrow> string option option" where
  "server_wait s = http_wait (sr_http s)"

text \<open>\<^verbatim>\<open>Start\<close>, with the background context, and \<^verbatim>\<open>Run\<close>: the error of the start, or what \<^verbatim>\<open>Wait\<close> then does.\<close>

definition server_start_background ::
    "listen_env \<Rightarrow> os \<Rightarrow> listen_tls \<Rightarrow> string \<Rightarrow> string \<Rightarrow> server_run \<Rightarrow> os_trace \<Rightarrow>
     start_failure option \<times> server_run \<times> os_trace" where
  "server_start_background env os tls host port s tr = start_context env os tls host port True s tr"

datatype run_end = Start_error start_failure | Waits "string option option"

definition server_run_blocking ::
    "listen_env \<Rightarrow> os \<Rightarrow> listen_tls \<Rightarrow> string \<Rightarrow> string \<Rightarrow> server_run \<Rightarrow> os_trace \<Rightarrow>
     run_end \<times> server_run \<times> os_trace" where
  "server_run_blocking env os tls host port s tr =
     (case server_start_background env os tls host port s tr of
        (Some e, s, tr) \<Rightarrow> (Start_error e, s, tr)
      | (None, s, tr) \<Rightarrow> (Waits (server_wait s), s, tr))"

text \<open>\<^verbatim>\<open>Server.Close\<close>; \<open>has_otel\<close> is whether there is a publisher to shut down.\<close>

definition server_close ::
    "bool \<Rightarrow> sdk \<Rightarrow> string option \<Rightarrow> server_run \<Rightarrow> string option \<times> server_run" where
  "server_close has_otel sdk err s =
     (if sr_close_once s then (None, s)
      else
        (let (close_err, h) = http_close err (sr_http s);
             s = s\<lparr>sr_http := h, sr_close_once := True\<rparr>
         in if has_otel then
              (let (otel_err, calls) = otel_shutdown sdk
               in (if otel_err \<noteq> None \<and> close_err = None then otel_err else close_err,
                   s\<lparr>sr_sdk_calls := sr_sdk_calls s @ calls\<rparr>))
            else (close_err, s)))"

subsection \<open>Runs of a server\<close>

text \<open>
  What happens to a server with a fixed configuration, in any order: a start, a close, the end of
  its context, and a return of the library's \<^verbatim>\<open>Serve\<close>, with its error if it failed.
\<close>

record run_env =
  re_env :: listen_env
  re_os :: os
  re_tls :: listen_tls
  re_host :: string
  re_port :: string
  re_has_otel :: bool
  re_sdk :: sdk

datatype run_event = Start_event | Close_event "string option" | Context_event | Serve_event "string option"

definition new_server_run :: server_run where
  "new_server_run = \<lparr>sr_http = new_http_server, sr_close_once = False, sr_sdk_calls = []\<rparr>"

fun server_event :: "run_env \<Rightarrow> run_event \<Rightarrow> server_run \<times> os_trace \<Rightarrow> server_run \<times> os_trace" where
  "server_event re Start_event (s, tr) =
     snd (start_context (re_env re) (re_os re) (re_tls re) (re_host re) (re_port re) True s tr)"
| "server_event re (Close_event err) (s, tr) = (snd (server_close (re_has_otel re) (re_sdk re) err s), tr)"
| "server_event re Context_event (s, tr) = (s\<lparr>sr_http := http_context_done (sr_http s)\<rparr>, tr)"
| "server_event re (Serve_event err) (s, tr) = (s\<lparr>sr_http := http_serve_returns err (sr_http s)\<rparr>, tr)"

definition run_server :: "run_env \<Rightarrow> run_event list \<Rightarrow> server_run" where
  "run_server re evs = fst (fold (server_event re) evs (new_server_run, []))"

fun is_close :: "run_event \<Rightarrow> bool" where
  "is_close (Close_event err) = True"
| "is_close ev = False"

lemma server_event_once:
  "sr_close_once (fst (server_event re ev s)) = (sr_close_once (fst s) \<or> is_close ev)"
  by (cases ev; cases s) (auto simp: start_context_def server_close_def Let_def split: prod.splits sum.splits)

lemma fold_once: "sr_close_once (fst (fold (server_event re) evs s)) = (sr_close_once (fst s) \<or> list_ex is_close evs)"
  by (induction evs arbitrary: s) (auto simp: server_event_once)

lemma server_event_closed_kept: "hs_closed (sr_http (fst s)) \<Longrightarrow> hs_closed (sr_http (fst (server_event re ev s)))"
  by (cases ev; cases s) (auto simp: start_context_def server_close_def http_close_def go_serve_def
      http_context_done_def http_serve_returns_def Let_def split: prod.splits sum.splits option.splits)

lemma server_event_not_closed:
  assumes "\<not> hs_closed (sr_http (fst s))" and "is_close ev \<Longrightarrow> sr_close_once (fst s) \<or> \<not> hs_waiting (sr_http (fst s))"
    and "ev \<noteq> Context_event \<or> \<not> hs_waiting (sr_http (fst s))"
  shows "\<not> hs_closed (sr_http (fst (server_event re ev s)))"
  using assms by (cases ev; cases s) (auto simp: start_context_def server_close_def http_close_def go_serve_def
      http_context_done_def http_serve_returns_def Let_def split: prod.splits sum.splits option.splits if_splits)

definition shutdowns :: "server_run \<Rightarrow> nat" where
  "shutdowns s = count_list (sr_sdk_calls s) Shutdown_meter"

lemma server_event_shutdowns:
  "shutdowns (fst (server_event re ev s)) =
     shutdowns (fst s) + (if is_close ev \<and> \<not> sr_close_once (fst s) \<and> re_has_otel re then 1 else 0)"
  by (cases ev; cases s) (auto simp: start_context_def server_close_def shutdowns_def otel_shutdown_def
      count_list_append Let_def split: prod.splits sum.splits option.splits)

lemma fold_shutdowns:
  "shutdowns (fst (fold (server_event re) evs s)) =
     shutdowns (fst s) + (if list_ex is_close evs \<and> \<not> sr_close_once (fst s) \<and> re_has_otel re then 1 else 0)"
  by (induction evs arbitrary: s) (auto simp: server_event_shutdowns server_event_once)

definition unstarted :: "server_run \<Rightarrow> bool" where
  "unstarted s \<longleftrightarrow>
     \<not> hs_waiting (sr_http s) \<and> \<not> hs_closed (sr_http s) \<and> hs_served (sr_http s) \<noteq> Some Server_closed"

lemma server_event_unstarted:
  "unstarted (fst s) \<Longrightarrow> ev \<noteq> Start_event \<Longrightarrow> unstarted (fst (server_event re ev s))"
  by (cases ev; cases s) (auto simp: unstarted_def server_close_def http_close_def http_context_done_def
      http_serve_returns_def Let_def split: prod.splits)

lemma before_start:
  "Start_event \<notin> set evs \<Longrightarrow> unstarted (fst s) \<Longrightarrow> unstarted (fst (fold (server_event re) evs s))"
proof (induction evs arbitrary: s)
  case Nil
  then show ?case by simp
next
  case (Cons ev evs)
  from Cons.prems(1) have "ev \<noteq> Start_event" by auto
  with Cons.prems(2) have "unstarted (fst (server_event re ev s))" by (rule server_event_unstarted)
  with Cons.IH [of "server_event re ev s"] Cons.prems(1) show ?case by simp
qed

lemma closed_in_vain:
  "Context_event \<notin> set evs \<Longrightarrow> sr_close_once (fst s) \<Longrightarrow> \<not> hs_closed (sr_http (fst s)) \<Longrightarrow>
     hs_served (sr_http (fst s)) \<noteq> Some Server_closed \<Longrightarrow>
     \<not> hs_closed (sr_http (fst (fold (server_event re) evs s)))
     \<and> hs_served (sr_http (fst (fold (server_event re) evs s))) \<noteq> Some Server_closed"
proof (induction evs arbitrary: s)
  case Nil
  then show ?case by simp
next
  case (Cons ev evs)
  have "hs_served (sr_http (fst (server_event re ev s))) \<noteq> Some Server_closed"
    using Cons.prems by (cases ev; cases s) (auto simp: start_context_def server_close_def go_serve_def
      http_serve_returns_def Let_def split: prod.splits sum.splits option.splits if_splits)
  then show ?case
    using Cons.prems server_event_not_closed [of s ev re] server_event_once [of re ev s]
      Cons.IH [of "server_event re ev s"] by auto
qed

text \<open>
  A server is closed once, and not before it is started. The publisher is shut down at most once,
  exactly if there is one and \<^verbatim>\<open>Close\<close> was called. But the one effective call is the first: if it comes
  before the server is started it fails and uses itself up, and whatever happens later, other
  than the end of the context, the server is not closed and \<^verbatim>\<open>Wait\<close> does not return success.
\<close>

theorem close_before_start:
  assumes "Start_event \<notin> set as" and "Context_event \<notin> set bs" and "is_close c"
  shows "\<not> hs_closed (sr_http (run_server re (as @ c # bs)))
    \<and> http_wait (sr_http (run_server re (as @ c # bs))) \<noteq> Some None
    \<and> shutdowns (run_server re (as @ c # bs)) = (if re_has_otel re then 1 else 0)"
proof -
  let ?s = "fold (server_event re) (as @ [c]) (new_server_run, [])"
  have "Start_event \<notin> set (as @ [c])" using assms by auto
  then have "unstarted (fst ?s)"
    by (rule before_start) (simp add: unstarted_def new_server_run_def new_http_server_def)
  moreover have "sr_close_once (fst ?s)" using assms(3) by (simp add: fold_once del: fold_append)
  ultimately have "\<not> hs_closed (sr_http (fst (fold (server_event re) bs ?s)))
      \<and> hs_served (sr_http (fst (fold (server_event re) bs ?s))) \<noteq> Some Server_closed"
    using assms(2) unfolding unstarted_def by (intro closed_in_vain) simp_all
  moreover have "shutdowns (run_server re (as @ c # bs)) = (if re_has_otel re then 1 else 0)"
    using assms(3) unfolding run_server_def fold_shutdowns by (simp add: new_server_run_def shutdowns_def)
  ultimately show ?thesis by (auto simp: run_server_def http_wait_def split: option.splits serve_end.splits)
qed

definition demo_run_env :: run_env where
  "demo_run_env = \<lparr>re_env = \<lparr>le_getenv = (\<lambda>_. []), le_home = None, le_load_pair = (\<lambda>_ _. None),
       le_is_dir = (\<lambda>_. Inr True), le_read_dir = (\<lambda>_. Inr []), le_read_file = Inr, le_append_pem = (\<lambda>_. True)\<rparr>,
     re_os = (\<lambda>_ _. Done), re_tls = \<lparr>lt_key = [], lt_cert = [], lt_domains = [], lt_ca = []\<rparr>,
     re_host = ''0.0.0.0'', re_port = ''8080'', re_has_otel = True, re_sdk = (\<lambda>_. None)\<rparr>"

text \<open>A server closed too early serves on after a second close; closed in time it ends with success.\<close>

theorem close_before_start_witness:
  "hs_waiting (sr_http (run_server demo_run_env [Close_event None, Start_event, Close_event None, Serve_event None]))
   \<and> \<not> hs_closed (sr_http (run_server demo_run_env [Close_event None, Start_event, Close_event None, Serve_event None]))
   \<and> http_wait (sr_http (run_server demo_run_env [Start_event, Close_event None, Serve_event None])) = Some None"
proof -
  let ?evs = "[] @ Close_event None # [Start_event, Close_event None, Serve_event None]"
  have "Start_event \<notin> set []" "Context_event \<notin> set [Start_event, Close_event None, Serve_event None]"
    "is_close (Close_event None)" by simp_all
  from close_before_start [OF this, of demo_run_env]
  have "\<not> hs_closed (sr_http (run_server demo_run_env ?evs))" by simp
  moreover have "hs_waiting (sr_http (run_server demo_run_env ?evs))"
    "http_wait (sr_http (run_server demo_run_env [Start_event, Close_event None, Serve_event None])) = Some None"
    by code_simp+
  ultimately show ?thesis by simp
qed

end
