(* ===== verification/Program.thy ===== *)
theory Program
  imports Flags Help_Text Command_Line Server_Run
begin

text \<open>
  \<^verbatim>\<open>main.go\<close> from the arguments to the start of a server or a client: the flag sets of the program and
  of its two commands, the help texts, the pid file. The numbers and durations of flags are read by
  \<^verbatim>\<open>strconv\<close> and \<^verbatim>\<open>time\<close>, which are parameters. A run that starts ends here; what follows is in
  \<open>Server_Run\<close> and \<open>Client_Run\<close>.
\<close>

subsection \<open>The flags\<close>

record number_lib =
  parse_int :: "string \<Rightarrow> int option"
  parse_duration :: "string \<Rightarrow> int option"

definition string_flag :: "(string \<Rightarrow> 'c \<Rightarrow> 'c) \<Rightarrow> 'c flag" where
  "string_flag f = Value_flag (\<lambda>v c. Some (f v c))"

definition number_flag :: "(string \<Rightarrow> int option) \<Rightarrow> (int \<Rightarrow> 'c \<Rightarrow> 'c) \<Rightarrow> 'c flag" where
  "number_flag parse f = Value_flag (\<lambda>v c. map_option (\<lambda>n. f n c) (parse v))"

record main_flags =
  mf_version :: bool
  mf_v :: bool

definition main_flag_set :: "main_flags flag_set" where
  "main_flag_set =
     [(''version'', Bool_flag (\<lambda>b c. c\<lparr>mf_version := b\<rparr>)), (''v'', Bool_flag (\<lambda>b c. c\<lparr>mf_v := b\<rparr>)),
      (''help'', Bool_flag (\<lambda>b c. c)), (''h'', Bool_flag (\<lambda>b c. c))]"

definition server_flag_set :: "number_lib \<Rightarrow> server_flags flag_set" where
  "server_flag_set nl =
     [(''key'', string_flag (\<lambda>v c. c\<lparr>sf_key := v\<rparr>)),
      (''keyfile'', string_flag (\<lambda>v c. c\<lparr>sf_keyfile := v\<rparr>)),
      (''authfile'', string_flag (\<lambda>v c. c\<lparr>sf_authfile := v\<rparr>)),
      (''auth'', string_flag (\<lambda>v c. c\<lparr>sf_auth := v\<rparr>)),
      (''keepalive'', number_flag (parse_duration nl) (\<lambda>d c. c\<lparr>sf_keep_alive := d\<rparr>)),
      (''proxy'', string_flag (\<lambda>v c. c\<lparr>sf_proxy := v\<rparr>)),
      (''backend'', string_flag (\<lambda>v c. c\<lparr>sf_proxy := v\<rparr>)),
      (''socks5'', Bool_flag (\<lambda>b c. c\<lparr>sf_socks5 := b\<rparr>)),
      (''reverse'', Bool_flag (\<lambda>b c. c\<lparr>sf_reverse := b\<rparr>)),
      (''tls-key'', string_flag (\<lambda>v c. c\<lparr>sf_tls_key := v\<rparr>)),
      (''tls-cert'', string_flag (\<lambda>v c. c\<lparr>sf_tls_cert := v\<rparr>)),
      (''tls-domain'', string_flag (\<lambda>v c. c\<lparr>sf_tls_domains := multi_flag_set v (sf_tls_domains c)\<rparr>)),
      (''tls-ca'', string_flag (\<lambda>v c. c\<lparr>sf_tls_ca := v\<rparr>)),
      (''host'', string_flag (\<lambda>v c. c\<lparr>sf_host := v\<rparr>)),
      (''p'', string_flag (\<lambda>v c. c\<lparr>sf_p := v\<rparr>)),
      (''port'', string_flag (\<lambda>v c. c\<lparr>sf_port := v\<rparr>)),
      (''pid'', Bool_flag (\<lambda>b c. c\<lparr>sf_pid := b\<rparr>)),
      (''v'', Bool_flag (\<lambda>b c. c\<lparr>sf_verbose := b\<rparr>)),
      (''keygen'', string_flag (\<lambda>v c. c\<lparr>sf_keygen := v\<rparr>))]"

definition default_server_flags :: server_flags where
  "default_server_flags =
     \<lparr>sf_key = [], sf_keyfile = [], sf_authfile = [], sf_auth = [], sf_keep_alive = 25 * second_ns,
      sf_proxy = [], sf_socks5 = False, sf_reverse = False, sf_tls_key = [], sf_tls_cert = [],
      sf_tls_domains = [], sf_tls_ca = [], sf_host = [], sf_p = [], sf_port = [], sf_keygen = [],
      sf_pid = False, sf_verbose = False\<rparr>"

text \<open>A header is checked when its flag is set; \<open>client_command\<close> puts all of them in the header.\<close>

definition client_flag_set :: "number_lib \<Rightarrow> client_flags flag_set" where
  "client_flag_set nl =
     [(''fingerprint'', string_flag (\<lambda>v c. c\<lparr>cf_fingerprint := v\<rparr>)),
      (''auth'', string_flag (\<lambda>v c. c\<lparr>cf_auth := v\<rparr>)),
      (''keepalive'', number_flag (parse_duration nl) (\<lambda>d c. c\<lparr>cf_keep_alive := d\<rparr>)),
      (''max-retry-count'', number_flag (parse_int nl) (\<lambda>n c. c\<lparr>cf_max_retry_count := n\<rparr>)),
      (''max-retry-interval'', number_flag (parse_duration nl) (\<lambda>d c. c\<lparr>cf_max_retry_interval := d\<rparr>)),
      (''proxy'', string_flag (\<lambda>v c. c\<lparr>cf_proxy := v\<rparr>)),
      (''tls-ca'', string_flag (\<lambda>v c. c\<lparr>cf_tls_ca := v\<rparr>)),
      (''tls-skip-verify'', Bool_flag (\<lambda>b c. c\<lparr>cf_tls_skip_verify := b\<rparr>)),
      (''tls-cert'', string_flag (\<lambda>v c. c\<lparr>cf_tls_cert := v\<rparr>)),
      (''tls-key'', string_flag (\<lambda>v c. c\<lparr>cf_tls_key := v\<rparr>)),
      (''header'', Value_flag (\<lambda>v c. case header_flags_set v [] of
          None \<Rightarrow> None | Some h \<Rightarrow> Some (c\<lparr>cf_headers := cf_headers c @ [v]\<rparr>))),
      (''hostname'', string_flag (\<lambda>v c. c\<lparr>cf_hostname := v\<rparr>)),
      (''sni'', string_flag (\<lambda>v c. c\<lparr>cf_sni := v\<rparr>)),
      (''pid'', Bool_flag (\<lambda>b c. c\<lparr>cf_pid := b\<rparr>)),
      (''v'', Bool_flag (\<lambda>b c. c\<lparr>cf_verbose := b\<rparr>))]"

definition default_client_flags :: client_flags where
  "default_client_flags =
     \<lparr>cf_fingerprint = [], cf_auth = [], cf_keep_alive = 25 * second_ns, cf_max_retry_count = -1,
      cf_max_retry_interval = 0, cf_proxy = [], cf_tls_ca = [], cf_tls_skip_verify = False, cf_tls_cert = [],
      cf_tls_key = [], cf_headers = [], cf_hostname = [], cf_sni = [], cf_pid = False, cf_verbose = False\<rparr>"

subsection \<open>The program\<close>

text \<open>What the program asks of its surroundings, and how a run of it goes on or ends.\<close>

record 're program_env =
  pe_numbers :: number_lib
  pe_getenv :: "string \<Rightarrow> string"
  pe_go_version :: string
  pe_pid :: int
  pe_write_err :: "string \<Rightarrow> string \<Rightarrow> string option"
  pe_regex :: "'re regex_lib"
  pe_crypto :: crypto_lib
  pe_server :: server_env
  pe_listen :: listen_env
  pe_os :: os
  pe_client :: client_env
  pe_lib :: golib

datatype fatal_error =
    No_key
  | Not_written string
  | Server_refused start_error
  | Server_not_started start_failure
  | Arguments_missing
  | Client_refused client_error

text \<open>
  A run that prints a text and exits has a line on the standard error too if a flag was wrong;
  \<^verbatim>\<open>--help\<close> and \<^verbatim>\<open>-h\<close> have none.
\<close>

datatype 're program_run =
    Prints_and_exits "flag_error option" string
  | Usage_error flag_error
  | Fatal_exit fatal_error
  | Key_printed string
  | Key_written string string
  | Server_waits "'re server" server_run os_trace
  | Client_starts client header os_trace

definition exit_status :: "'re program_run \<Rightarrow> nat option" where
  "exit_status r =
     (case r of Prints_and_exits e t \<Rightarrow> Some 0 | Usage_error e \<Rightarrow> Some 2 | Fatal_exit e \<Rightarrow> Some 1
      | Key_printed k \<Rightarrow> Some 0 | Key_written p k \<Rightarrow> Some 0 | _ \<Rightarrow> None)"

text \<open>\<^verbatim>\<open>generatePidFile\<close>: its error.\<close>

definition generate_pid_file :: "'re program_env \<Rightarrow> string option" where
  "generate_pid_file pe = pe_write_err pe ''chisel.pid'' (itoa (pe_pid pe))"

text \<open>The server command after its flags.\<close>

definition make_key_file :: "'re program_env \<Rightarrow> string \<Rightarrow> string \<Rightarrow> 're program_run" where
  "make_key_file pe path seed =
     (case generate_key_file (pe_crypto pe) path seed of
        None \<Rightarrow> Fatal_exit No_key
      | Some (Print_key key) \<Rightarrow> Key_printed key
      | Some (Write_key path key) \<Rightarrow>
          (case pe_write_err pe path key of
             Some e \<Rightarrow> Fatal_exit (Not_written e) | None \<Rightarrow> Key_written path key))"

definition server_with :: "'re program_env \<Rightarrow> server_flags \<Rightarrow> os_trace \<Rightarrow> 're program_run" where
  "server_with pe f tr =
     (case server_command (pe_getenv pe) f of
        Generate_key_file path seed \<Rightarrow> make_key_file pe path seed
      | Start_server st \<Rightarrow>
          (case new_server (pe_regex pe) (pe_crypto pe) (pe_server pe) (ss_config st) of
             Inl e \<Rightarrow> Fatal_exit (Server_refused e)
           | Inr s \<Rightarrow>
               (case (if sf_pid f then generate_pid_file pe else None) of
                  Some e \<Rightarrow> Fatal_exit (Not_written e)
                | None \<Rightarrow>
                    (case start_context (pe_listen pe) (pe_os pe) (ss_tls st) (ss_host st) (ss_port st)
                            True new_server_run tr of
                       (Some e, _, _) \<Rightarrow> Fatal_exit (Server_not_started e)
                     | (None, r, tr) \<Rightarrow> Server_waits s r tr))))"

text \<open>\<^verbatim>\<open>Parse\<close> reports an error, if it is not the wish for help, and calls \<^verbatim>\<open>Usage\<close>, which ends the program.\<close>

definition usage :: "flag_error \<Rightarrow> string \<Rightarrow> 're program_run" where
  "usage e t = Prints_and_exits (if e = Help_wanted then None else Some e) t"

definition server_main :: "'re program_env \<Rightarrow> string list \<Rightarrow> os_trace \<Rightarrow> 're program_run" where
  "server_main pe args tr =
     (case parse_flags (server_flag_set (pe_numbers pe)) args default_server_flags of
        Inl e \<Rightarrow> usage e (help_text (server_help (pe_go_version pe)))
      | Inr (f, _) \<Rightarrow> server_with pe f tr)"

text \<open>The client command after its flags; \<^verbatim>\<open>Set\<close> has refused a bad header before.\<close>

definition client_with :: "'re program_env \<Rightarrow> client_flags \<Rightarrow> string list \<Rightarrow> os_trace \<Rightarrow> 're program_run" where
  "client_with pe f args tr =
     (case client_command (pe_getenv pe) f args of
        Bad_header \<Rightarrow> Prints_and_exits None (help_text (client_help (pe_go_version pe)))
      | Too_few_arguments \<Rightarrow> Fatal_exit Arguments_missing
      | Start_client c headers \<Rightarrow>
          (case new_client (pe_lib pe) (pe_os pe) (pe_client pe) c tr of
             (Inl e, _) \<Rightarrow> Fatal_exit (Client_refused e)
           | (Inr ct, tr) \<Rightarrow>
               (case (if cf_pid f then generate_pid_file pe else None) of
                  Some e \<Rightarrow> Fatal_exit (Not_written e)
                | None \<Rightarrow> Client_starts ct headers tr)))"

definition client_main :: "'re program_env \<Rightarrow> string list \<Rightarrow> os_trace \<Rightarrow> 're program_run" where
  "client_main pe args tr =
     (case parse_flags (client_flag_set (pe_numbers pe)) args default_client_flags of
        Inl e \<Rightarrow> usage e (help_text (client_help (pe_go_version pe)))
      | Inr (f, args) \<Rightarrow> client_with pe f args tr)"

definition chisel_main :: "'re program_env \<Rightarrow> string list \<Rightarrow> os_trace \<Rightarrow> 're program_run" where
  "chisel_main pe args tr =
     (case parse_flags main_flag_set args \<lparr>mf_version = False, mf_v = False\<rparr> of
        Inl e \<Rightarrow> Usage_error e
      | Inr (f, args) \<Rightarrow>
          (case main_dispatch (mf_version f) (mf_v f) args of
             Print_version \<Rightarrow> Prints_and_exits None (build_version @ [CHR 0x0A])
           | Print_help \<Rightarrow> Prints_and_exits None (help_text (main_help (pe_go_version pe)))
           | Server_command args \<Rightarrow> server_main pe args tr
           | Client_command args \<Rightarrow> client_main pe args tr))"

subsection \<open>What the arguments do\<close>

lemma names_of_flags:
  "map fst main_flag_set = [''version'', ''v'', ''help'', ''h'']"
  "map fst (server_flag_set nl) =
     [''key'', ''keyfile'', ''authfile'', ''auth'', ''keepalive'', ''proxy'', ''backend'', ''socks5'', ''reverse'',
      ''tls-key'', ''tls-cert'', ''tls-domain'', ''tls-ca'', ''host'', ''p'', ''port'', ''pid'', ''v'', ''keygen'']"
  "map fst (client_flag_set nl) =
     [''fingerprint'', ''auth'', ''keepalive'', ''max-retry-count'', ''max-retry-interval'', ''proxy'', ''tls-ca'',
      ''tls-skip-verify'', ''tls-cert'', ''tls-key'', ''header'', ''hostname'', ''sni'', ''pid'', ''v'']"
  by (simp_all add: main_flag_set_def server_flag_set_def client_flag_set_def)

text \<open>A command name is no flag: the program's own flags end there.\<close>

lemma chisel_main_command:
  "chisel_main pe (''server'' # args) tr = server_main pe args tr"
  "chisel_main pe (''client'' # args) tr = client_main pe args tr"
  by (simp_all add: chisel_main_def parse_flags.simps [of main_flag_set] parse_one_def main_dispatch_def)

lemma parse_words:
  "list_all (\<lambda>x. flag_name_ok (arg_flag x)) xs \<Longrightarrow> flag_effects fs xs c = Some c' \<Longrightarrow>
     parse_flags fs (concat (map flag_words xs) @ args) c = parse_flags fs args c'"
  by (induction xs arbitrary: c)
    (auto simp: parse_one_words parse_flags.simps [of fs "flag_words _ @ _"] split: option.splits)

lemma parse_no_flag: "no_flag args \<Longrightarrow> parse_flags fs args c = Inr (c, args)"
  by (cases args) (auto simp: parse_flags.simps [of fs] parse_one_def no_flag_def)

lemma parse_undefined:
  assumes "flag_name_ok n" and "n \<notin> set (map fst fs)" and "w \<in> {dashes two @ n, dashes two @ n @ ''='' @ v}"
  shows "parse_flags fs (w # args) c =
    Inl (if n = ''help'' \<or> n = ''h'' then Help_wanted else Flag_not_defined n)"
proof -
  from assms(1) have n: "n \<noteq> []" "hd n \<noteq> CHR ''-''" "CHR ''='' \<notin> set n" by (simp_all add: flag_name_ok_def)
  then have eq: "hd n \<noteq> CHR ''=''" by (metis list.set_sel(1))
  have none: "map_get fs n = None" using assms(2) by (simp add: map_get_none_iff)
  have step: "parse_one fs ((dashes two @ m) # args) c =
      Flag_fails (if n = ''help'' \<or> n = ''h'' then Help_wanted else Flag_not_defined n)"
    if "m = n \<or> m = n @ CHR ''='' # v" for m
    using that
  proof
    assume "m = n"
    with n eq none show ?thesis by (simp add: parse_one_flag split_flag_plain set_flag_def)
  next
    assume "m = n @ CHR ''='' # v"
    with n eq none show ?thesis
      by (simp add: parse_one_flag split_flag_assign set_flag_def)
  qed
  from assms(3) obtain m where "w = dashes two @ m" "m = n \<or> m = n @ CHR ''='' # v" by auto
  with step show ?thesis by (simp add: parse_flags.simps [of fs])
qed

text \<open>
  A record property that every setter keeps holds of the parsed record; so a client that has parsed
  its flags has no header without a colon.
\<close>

definition flag_keeps :: "('c \<Rightarrow> bool) \<Rightarrow> 'c flag \<Rightarrow> bool" where
  "flag_keeps P x =
     (case x of
        Bool_flag f \<Rightarrow> \<forall>b c. P c \<longrightarrow> P (f b c)
      | Value_flag f \<Rightarrow> \<forall>v c c'. P c \<longrightarrow> f v c = Some c' \<longrightarrow> P c')"

lemma parse_one_keeps:
  assumes "\<forall>x \<in> snd ` set fs. flag_keeps P x" and "P c" and "parse_one fs args c = Took c' args'"
  shows "P c'"
proof -
  have set_keeps: "P c'" if "set_flag fs n val as c = Took c' args'" for n val as
  proof (cases "map_get fs n")
    case None
    with that show ?thesis by (simp add: set_flag_def)
  next
    case (Some x)
    then have "x \<in> snd ` set fs" by (auto dest: map_of_SomeD intro: rev_image_eqI)
    with assms(1) have "flag_keeps P x" by blast
    with Some that assms(2) show ?thesis
      by (auto simp: set_flag_def take_value_def flag_keeps_def split: option.splits flag.splits list.splits)
  qed
  from assms(3) show ?thesis
    by (auto simp: parse_one_def Let_def split: list.splits if_splits prod.splits dest!: set_keeps)
qed

lemma parse_flags_keeps:
  "\<forall>x \<in> snd ` set fs. flag_keeps P x \<Longrightarrow> P c \<Longrightarrow> parse_flags fs args c = Inr (c', rest) \<Longrightarrow> P c'"
proof (induction fs args c rule: parse_flags.induct)
  case (1 fs args c)
  show ?case
  proof (cases "parse_one fs args c")
    case (Took c1 args1)
    with "1.prems" parse_one_keeps [OF "1.prems"(1,2) Took] "1.IH" [OF Took] show ?thesis
      by (simp add: parse_flags.simps [of fs args])
  qed (use "1.prems" in \<open>simp_all add: parse_flags.simps [of fs args]\<close>)
qed

lemma client_headers_checked:
  assumes "parse_flags (client_flag_set nl) args default_client_flags = Inr (f, rest)"
  shows "client_command getenv f rest' \<noteq> Bad_header"
proof -
  let ?P = "\<lambda>c. list_all (\<lambda>a. CHR '':'' \<in> set a) (cf_headers c)"
  have "\<forall>x \<in> snd ` set (client_flag_set nl). flag_keeps ?P x"
    by (auto simp: client_flag_set_def flag_keeps_def string_flag_def number_flag_def header_flags_set_iff
        split: if_splits)
  moreover have "?P default_client_flags" by (simp add: default_client_flags_def)
  ultimately have "?P f" using assms by (rule parse_flags_keeps)
  with parse_headers_none [of "cf_headers f" "[]"] show ?thesis
    by (auto simp: client_command_def Let_def split: option.split)
qed

text \<open>
  The help texts document the flags. The options that the help of a command lists are exactly the
  flags it defines and \<^verbatim>\<open>--help\<close>, except that the server's \<^verbatim>\<open>--proxy\<close>, which does what
  \<^verbatim>\<open>--backend\<close> does, is not listed.
\<close>

lemma documented_common: "documented (common_help gover) = [''pid'', ''v'', ''help'']"
  by code_simp

theorem help_documents_flags:
  "set (documented (server_help gover)) = set (map fst (server_flag_set nl)) - {''proxy''} \<union> {''help''}"
  "set (documented (client_help gover)) = set (map fst (client_flag_set nl)) \<union> {''help''}"
  unfolding server_help_def client_help_def documented_append documented_options documented_common names_of_flags
  by code_simp+


subsection \<open>Concrete runs\<close>

definition demo_program_env :: "string program_env" where
  "demo_program_env = \<lparr>pe_numbers = \<lparr>parse_int = (\<lambda>s. if s = ''3'' then Some 3 else None), parse_duration = (\<lambda>_. None)\<rparr>,
     pe_getenv = (\<lambda>_. []), pe_go_version = ''go1.21'', pe_pid = 7, pe_write_err = (\<lambda>_ _. None), pe_regex = toy_regex,
     pe_crypto = toy_crypto,
     pe_server = \<lparr>env_read_file = (\<lambda>_. Inl []), env_unmarshal = (\<lambda>_. Inl []), env_watch_err = None,
       env_exporter_err = (\<lambda>_. None), env_parse_key = Some, env_parse_url = Inr\<rparr>,
     pe_listen = re_env demo_run_env, pe_os = (\<lambda>_ _. Done), pe_client = demo_client_env,
     pe_lib = \<lparr>uni_lower = id, url_parse_ok = \<lambda>_. True\<rparr>\<rparr>"

lemma demo_server_runs:
  "case chisel_main demo_program_env [''server'', ''--port=2'', ''--reverse''] [] of
     Server_waits s r tr \<Rightarrow> sc_reverse (sv_config s) \<and> hs_waiting (sr_http r) \<and> length tr = 1
   | _ \<Rightarrow> False"
  by code_simp

end
