(* ===== verification/Program_Flags.thy ===== *)
theory Program_Flags
  imports Program
begin

text \<open>
  What the flags of a command line mean, said without the tables of \<open>Program\<close> that parse them: which
  flags a command has, which arguments are valid, and the settings that \<^verbatim>\<open>NewServer\<close>, \<^verbatim>\<open>NewClient\<close> and
  \<^verbatim>\<open>StartContext\<close> get for them. The program is then shown to do just that.
\<close>

subsection \<open>Which flags there are\<close>

definition server_texts :: "string list" where
  "server_texts =
     [''key'', ''keyfile'', ''authfile'', ''auth'', ''proxy'', ''backend'', ''tls-key'', ''tls-cert'',
      ''tls-domain'', ''tls-ca'', ''host'', ''p'', ''port'', ''keygen'']"

definition server_switches :: "string list" where
  "server_switches = [''socks5'', ''reverse'', ''pid'', ''v'']"

definition client_texts :: "string list" where
  "client_texts =
     [''fingerprint'', ''auth'', ''proxy'', ''tls-ca'', ''tls-cert'', ''tls-key'', ''hostname'', ''sni'']"

definition client_switches :: "string list" where
  "client_switches = [''tls-skip-verify'', ''pid'', ''v'']"

definition server_names :: "string list" where
  "server_names = ''keepalive'' # server_texts @ server_switches"

definition client_names :: "string list" where
  "client_names =
     [''keepalive'', ''max-retry-count'', ''max-retry-interval'', ''header''] @ client_texts @ client_switches"

text \<open>
  The valid arguments: a switch stands alone or has a boolean after an equals sign; any other flag has
  a value, after an equals sign or in the next argument, that reads as a number, or as a header, where
  the flag wants one.
\<close>

fun arg_value :: "flag_arg \<Rightarrow> string option" where
  "arg_value (Switch two n) = None"
| "arg_value (Assign two n v) = Some v"
| "arg_value (Apart two n v) = Some v"

definition switch_ok :: "flag_arg \<Rightarrow> bool" where
  "switch_ok x \<longleftrightarrow>
     (case x of Switch two n \<Rightarrow> True | Assign two n v \<Rightarrow> parse_bool v \<noteq> None | Apart two n v \<Rightarrow> False)"

definition value_ok :: "(string \<Rightarrow> bool) \<Rightarrow> flag_arg \<Rightarrow> bool" where
  "value_ok P x \<longleftrightarrow> (case arg_value x of None \<Rightarrow> False | Some v \<Rightarrow> P v)"

definition server_arg_ok :: "number_lib \<Rightarrow> flag_arg \<Rightarrow> bool" where
  "server_arg_ok nl x \<longleftrightarrow>
     arg_flag x \<in> set server_switches \<and> switch_ok x
   \<or> arg_flag x \<in> set server_texts \<and> value_ok (\<lambda>v. True) x
   \<or> arg_flag x = ''keepalive'' \<and> value_ok (\<lambda>v. parse_duration nl v \<noteq> None) x"

definition client_arg_ok :: "number_lib \<Rightarrow> flag_arg \<Rightarrow> bool" where
  "client_arg_ok nl x \<longleftrightarrow>
     arg_flag x \<in> set client_switches \<and> switch_ok x
   \<or> arg_flag x \<in> set client_texts \<and> value_ok (\<lambda>v. True) x
   \<or> arg_flag x \<in> {''keepalive'', ''max-retry-interval''} \<and> value_ok (\<lambda>v. parse_duration nl v \<noteq> None) x
   \<or> arg_flag x = ''max-retry-count'' \<and> value_ok (\<lambda>v. parse_int nl v \<noteq> None) x
   \<or> arg_flag x = ''header'' \<and> value_ok (\<lambda>v. CHR '':'' \<in> set v) x"

subsection \<open>What they say\<close>

text \<open>The values given for any of some flags, in order, and the last of them.\<close>

definition values_of :: "string list \<Rightarrow> flag_arg list \<Rightarrow> string list" where
  "values_of ns xs = map (\<lambda>x. case arg_value x of None \<Rightarrow> [] | Some v \<Rightarrow> v) (filter (\<lambda>x. arg_flag x \<in> set ns) xs)"

definition given :: "string list \<Rightarrow> flag_arg list \<Rightarrow> string" where
  "given ns xs = (if values_of ns xs = [] then [] else last (values_of ns xs))"

definition given_number :: "(string \<Rightarrow> int option) \<Rightarrow> int \<Rightarrow> string \<Rightarrow> flag_arg list \<Rightarrow> int" where
  "given_number parse d n xs = (if values_of [n] xs = [] then d else the (parse (last (values_of [n] xs))))"

definition switched :: "string \<Rightarrow> flag_arg list \<Rightarrow> bool" where
  "switched n xs =
     (let ys = filter (\<lambda>x. arg_flag x = n) xs
      in ys \<noteq> [] \<and> (case arg_value (last ys) of None \<Rightarrow> True | Some v \<Rightarrow> parse_bool v = Some True))"

lemma said_snoc:
  "values_of ns [] = []" "given ns [] = []" "given_number parse d n [] = d" "\<not> switched n []"
  "values_of ns (xs @ [x]) =
     values_of ns xs @ (if arg_flag x \<in> set ns then [case arg_value x of None \<Rightarrow> [] | Some v \<Rightarrow> v] else [])"
  "given ns (xs @ [x]) =
     (if arg_flag x \<in> set ns then (case arg_value x of None \<Rightarrow> [] | Some v \<Rightarrow> v) else given ns xs)"
  "given_number parse d n (xs @ [x]) =
     (if arg_flag x = n then the (parse (case arg_value x of None \<Rightarrow> [] | Some v \<Rightarrow> v))
      else given_number parse d n xs)"
  "switched n (xs @ [x]) =
     (if arg_flag x = n then (case arg_value x of None \<Rightarrow> True | Some v \<Rightarrow> parse_bool v = Some True)
      else switched n xs)"
  by (simp_all add: values_of_def given_def given_number_def switched_def Let_def)

text \<open>The settings that a server gets: the last value of a flag, an environment variable, a default.\<close>

definition server_asked :: "(string \<Rightarrow> string) \<Rightarrow> number_lib \<Rightarrow> flag_arg list \<Rightarrow> server_config" where
  "server_asked getenv nl xs =
     \<lparr>sc_key_seed = first_set [given [''key''] xs, getenv ''CHISEL_KEY''],
      sc_key_file = first_set [given [''keyfile''] xs, getenv ''CHISEL_KEY_FILE''],
      sc_auth_file = given [''authfile''] xs,
      sc_auth = first_set [given [''auth''] xs, getenv ''AUTH''],
      sc_proxy = given [''proxy'', ''backend''] xs,
      sc_socks5 = switched ''socks5'' xs,
      sc_reverse = switched ''reverse'' xs,
      sc_keep_alive = given_number (parse_duration nl) 25000000000 ''keepalive'' xs,
      sc_otel_enabled = False, sc_otel_endpoint = []\<rparr>"

definition tls_asked :: "flag_arg list \<Rightarrow> listen_tls" where
  "tls_asked xs =
     \<lparr>lt_key = given [''tls-key''] xs, lt_cert = given [''tls-cert''] xs,
      lt_domains = values_of [''tls-domain''] xs, lt_ca = given [''tls-ca''] xs\<rparr>"

definition host_asked :: "(string \<Rightarrow> string) \<Rightarrow> flag_arg list \<Rightarrow> string" where
  "host_asked getenv xs = first_set [given [''host''] xs, getenv ''HOST'', ''0.0.0.0'']"

definition port_asked :: "(string \<Rightarrow> string) \<Rightarrow> flag_arg list \<Rightarrow> string" where
  "port_asked getenv xs = first_set [given [''port''] xs, given [''p''] xs, getenv ''PORT'', ''8080'']"

text \<open>Those that a client gets, with its headers: the last value of each name, and the host of \<^verbatim>\<open>--hostname\<close>.\<close>

definition client_asked :: "(string \<Rightarrow> string) \<Rightarrow> number_lib \<Rightarrow> flag_arg list \<Rightarrow> string \<Rightarrow> string list \<Rightarrow> client_config" where
  "client_asked getenv nl xs server remotes =
     \<lparr>cl_fingerprint = given [''fingerprint''] xs,
      cl_auth = first_set [given [''auth''] xs, getenv ''AUTH''],
      cl_keep_alive = given_number (parse_duration nl) 25000000000 ''keepalive'' xs,
      cl_max_retry_count = given_number (parse_int nl) (- 1) ''max-retry-count'' xs,
      cl_max_retry_interval = given_number (parse_duration nl) 0 ''max-retry-interval'' xs,
      cl_server = server, cl_proxy = given [''proxy''] xs, cl_remotes = remotes,
      cl_tls = \<lparr>to_skip_verify = switched ''tls-skip-verify'' xs, to_ca = given [''tls-ca''] xs,
        to_cert = given [''tls-cert''] xs, to_key = given [''tls-key''] xs,
        to_server_name = first_set [given [''sni''] xs, given [''hostname''] xs]\<rparr>\<rparr>"

definition headers_asked :: "flag_arg list \<Rightarrow> string \<Rightarrow> string list option" where
  "headers_asked xs =
     (let said = map_of (rev (map (\<lambda>a. (header_name a, [header_value a])) (values_of [''header''] xs)))
      in if given [''hostname''] xs = [] then said else said(''Host'' \<mapsto> [given [''hostname''] xs]))"

subsection \<open>The tables agree\<close>

definition server_flags_of :: "number_lib \<Rightarrow> flag_arg list \<Rightarrow> server_flags" where
  "server_flags_of nl xs =
     \<lparr>sf_key = given [''key''] xs, sf_keyfile = given [''keyfile''] xs, sf_authfile = given [''authfile''] xs,
      sf_auth = given [''auth''] xs,
      sf_keep_alive = given_number (parse_duration nl) 25000000000 ''keepalive'' xs,
      sf_proxy = given [''proxy'', ''backend''] xs, sf_socks5 = switched ''socks5'' xs,
      sf_reverse = switched ''reverse'' xs, sf_tls_key = given [''tls-key''] xs, sf_tls_cert = given [''tls-cert''] xs,
      sf_tls_domains = values_of [''tls-domain''] xs, sf_tls_ca = given [''tls-ca''] xs, sf_host = given [''host''] xs,
      sf_p = given [''p''] xs, sf_port = given [''port''] xs, sf_keygen = given [''keygen''] xs,
      sf_pid = switched ''pid'' xs, sf_verbose = switched ''v'' xs\<rparr>"

definition client_flags_of :: "number_lib \<Rightarrow> flag_arg list \<Rightarrow> client_flags" where
  "client_flags_of nl xs =
     \<lparr>cf_fingerprint = given [''fingerprint''] xs, cf_auth = given [''auth''] xs,
      cf_keep_alive = given_number (parse_duration nl) 25000000000 ''keepalive'' xs,
      cf_max_retry_count = given_number (parse_int nl) (- 1) ''max-retry-count'' xs,
      cf_max_retry_interval = given_number (parse_duration nl) 0 ''max-retry-interval'' xs,
      cf_proxy = given [''proxy''] xs, cf_tls_ca = given [''tls-ca''] xs,
      cf_tls_skip_verify = switched ''tls-skip-verify'' xs, cf_tls_cert = given [''tls-cert''] xs,
      cf_tls_key = given [''tls-key''] xs, cf_headers = values_of [''header''] xs,
      cf_hostname = given [''hostname''] xs, cf_sni = given [''sni''] xs, cf_pid = switched ''pid'' xs,
      cf_verbose = switched ''v'' xs\<rparr>"

lemma flag_effects_snoc:
  "flag_effects fs (xs @ [x]) c = (case flag_effects fs xs c of None \<Rightarrow> None | Some c \<Rightarrow> flag_effect fs x c)"
  by (induction xs arbitrary: c) (simp_all split: option.split)

text \<open>One argument, by the kind of its flag.\<close>

lemma switch_effect:
  assumes "switch_ok x" and "case map_get fs (arg_flag x) of Some (Bool_flag f) \<Rightarrow> True | _ \<Rightarrow> False"
  shows "flag_effect fs x c =
    (case the (map_get fs (arg_flag x)) of
       Bool_flag f \<Rightarrow> Some (f (case arg_value x of None \<Rightarrow> True | Some v \<Rightarrow> parse_bool v = Some True) c)
     | Value_flag f \<Rightarrow> None)"
  using assms by (cases x) (auto simp: switch_ok_def split: option.splits flag.splits)

lemma value_effect:
  assumes "arg_value x = Some v" and "case map_get fs (arg_flag x) of Some (Value_flag f) \<Rightarrow> True | _ \<Rightarrow> False"
  shows "flag_effect fs x c =
    (case the (map_get fs (arg_flag x)) of Value_flag f \<Rightarrow> f v c | Bool_flag f \<Rightarrow> None)"
  using assms by (cases x) (auto split: option.splits flag.splits)

lemma value_okE:
  assumes "value_ok P x"
  obtains v where "arg_value x = Some v" "P v"
  using assms by (auto simp: value_ok_def split: option.splits)

lemma server_flag_step:
  assumes "server_arg_ok nl x"
  shows "flag_effect (server_flag_set nl) x (server_flags_of nl xs) = Some (server_flags_of nl (xs @ [x]))"
proof -
  from assms consider (switch) "arg_flag x \<in> set server_switches" "switch_ok x"
    | (given) "arg_flag x \<in> set server_texts" "value_ok (\<lambda>v. True) x"
    | (number) "arg_flag x = ''keepalive''" "value_ok (\<lambda>v. parse_duration nl v \<noteq> None) x"
    unfolding server_arg_ok_def by blast
  then show ?thesis
  proof cases
    case switch
    from switch(1) consider "arg_flag x = ''socks5''" | "arg_flag x = ''reverse''" | "arg_flag x = ''pid''" | "arg_flag x = ''v''"
      by (auto simp: server_switches_def)
    then show ?thesis
      by cases (simp_all add: switch_effect [OF switch(2)] server_flag_set_def server_flags_of_def said_snoc)
  next
    case given
    from given(2) obtain v where v: "arg_value x = Some v" by (rule value_okE)
    from given(1) consider "arg_flag x = ''key''" | "arg_flag x = ''keyfile''" | "arg_flag x = ''authfile''"
      | "arg_flag x = ''auth''" | "arg_flag x = ''proxy''" | "arg_flag x = ''backend''" | "arg_flag x = ''tls-key''"
      | "arg_flag x = ''tls-cert''" | "arg_flag x = ''tls-domain''" | "arg_flag x = ''tls-ca''"
      | "arg_flag x = ''host''" | "arg_flag x = ''p''" | "arg_flag x = ''port''" | "arg_flag x = ''keygen''"
      by (auto simp: server_texts_def)
    then show ?thesis
      by cases (simp_all add: value_effect [OF v] v server_flag_set_def string_flag_def server_flags_of_def said_snoc
          multi_flag_set_def)
  next
    case number
    from number(2) obtain v d where v: "arg_value x = Some v" "parse_duration nl v = Some d" by (auto elim: value_okE)
    from number(1) show ?thesis
      by (simp add: value_effect [OF v(1)] v server_flag_set_def number_flag_def server_flags_of_def said_snoc)
  qed
qed

lemma client_flag_step:
  assumes "client_arg_ok nl x"
  shows "flag_effect (client_flag_set nl) x (client_flags_of nl xs) = Some (client_flags_of nl (xs @ [x]))"
proof -
  from assms consider (switch) "arg_flag x \<in> set client_switches" "switch_ok x"
    | (given) "arg_flag x \<in> set client_texts" "value_ok (\<lambda>v. True) x"
    | (time) "arg_flag x \<in> {''keepalive'', ''max-retry-interval''}" "value_ok (\<lambda>v. parse_duration nl v \<noteq> None) x"
    | (number) "arg_flag x = ''max-retry-count''" "value_ok (\<lambda>v. parse_int nl v \<noteq> None) x"
    | (header) "arg_flag x = ''header''" "value_ok (\<lambda>v. CHR '':'' \<in> set v) x"
    unfolding client_arg_ok_def by blast
  then show ?thesis
  proof cases
    case switch
    from switch(1) consider "arg_flag x = ''tls-skip-verify''" | "arg_flag x = ''pid''" | "arg_flag x = ''v''"
      by (auto simp: client_switches_def)
    then show ?thesis
      by cases (simp_all add: switch_effect [OF switch(2)] client_flag_set_def client_flags_of_def said_snoc)
  next
    case given
    from given(2) obtain v where v: "arg_value x = Some v" by (rule value_okE)
    from given(1) consider "arg_flag x = ''fingerprint''" | "arg_flag x = ''auth''" | "arg_flag x = ''proxy''"
      | "arg_flag x = ''tls-ca''" | "arg_flag x = ''tls-cert''" | "arg_flag x = ''tls-key''"
      | "arg_flag x = ''hostname''" | "arg_flag x = ''sni''"
      by (auto simp: client_texts_def)
    then show ?thesis
      by cases (simp_all add: value_effect [OF v] v client_flag_set_def string_flag_def client_flags_of_def said_snoc)
  next
    case time
    from time(2) obtain v d where v: "arg_value x = Some v" "parse_duration nl v = Some d" by (auto elim: value_okE)
    from time(1) consider "arg_flag x = ''keepalive''" | "arg_flag x = ''max-retry-interval''" by blast
    then show ?thesis
      by cases (simp_all add: value_effect [OF v(1)] v client_flag_set_def number_flag_def client_flags_of_def said_snoc)
  next
    case number
    from number(2) obtain v d where v: "arg_value x = Some v" "parse_int nl v = Some d" by (auto elim: value_okE)
    from number(1) show ?thesis
      by (simp add: value_effect [OF v(1)] v client_flag_set_def number_flag_def client_flags_of_def said_snoc)
  next
    case header
    from header(2) obtain v where v: "arg_value x = Some v" "CHR '':'' \<in> set v" by (auto elim: value_okE)
    from header(1) show ?thesis
      by (simp add: value_effect [OF v(1)] v client_flag_set_def header_flags_set_iff client_flags_of_def said_snoc)
  qed
qed

lemma server_flags_effects:
  "list_all (server_arg_ok nl) xs \<Longrightarrow>
     flag_effects (server_flag_set nl) xs default_server_flags = Some (server_flags_of nl xs)"
proof (induction xs rule: rev_induct)
  case Nil
  then show ?case by (simp add: default_server_flags_def server_flags_of_def said_snoc second_ns_def)
next
  case (snoc x xs)
  then show ?case by (simp add: flag_effects_snoc server_flag_step)
qed

lemma client_flags_effects:
  "list_all (client_arg_ok nl) xs \<Longrightarrow>
     flag_effects (client_flag_set nl) xs default_client_flags = Some (client_flags_of nl xs)"
proof (induction xs rule: rev_induct)
  case Nil
  then show ?case by (simp add: default_client_flags_def client_flags_of_def said_snoc second_ns_def)
next
  case (snoc x xs)
  then show ?case by (simp add: flag_effects_snoc client_flag_step)
qed

subsection \<open>What the program does\<close>

lemma server_names_ok: "n \<in> set server_names \<Longrightarrow> flag_name_ok n"
  by (auto simp: server_names_def server_texts_def server_switches_def flag_name_ok_def)

lemma client_names_ok: "n \<in> set client_names \<Longrightarrow> flag_name_ok n"
  by (auto simp: client_names_def client_texts_def client_switches_def flag_name_ok_def)

lemma server_args_named: "list_all (server_arg_ok nl) xs \<Longrightarrow> list_all (\<lambda>x. flag_name_ok (arg_flag x)) xs"
  by (induction xs) (auto simp: server_arg_ok_def server_names_def intro: server_names_ok)

lemma client_args_named: "list_all (client_arg_ok nl) xs \<Longrightarrow> list_all (\<lambda>x. flag_name_ok (arg_flag x)) xs"
  by (induction xs) (auto simp: client_arg_ok_def client_names_def intro: client_names_ok)

definition ends_flags :: "string list \<Rightarrow> string list \<Rightarrow> bool" where
  "ends_flags rest args \<longleftrightarrow> rest = args \<and> no_flag args \<or> rest = ''--'' # args"

lemma server_main_flags:
  assumes "list_all (server_arg_ok (pe_numbers pe)) xs" and "ends_flags rest args"
  shows "chisel_main pe (''server'' # concat (map flag_words xs) @ rest) tr =
    server_with pe (server_flags_of (pe_numbers pe) xs) tr"
  using assms flags_read_back [OF server_args_named [OF assms(1)] server_flags_effects [OF assms(1)], of args]
  by (auto simp: chisel_main_command server_main_def ends_flags_def)

lemma client_main_flags:
  assumes "list_all (client_arg_ok (pe_numbers pe)) xs" and "ends_flags rest args"
  shows "chisel_main pe (''client'' # concat (map flag_words xs) @ rest) tr =
    client_with pe (client_flags_of (pe_numbers pe) xs) args tr"
  using assms flags_read_back [OF client_args_named [OF assms(1)] client_flags_effects [OF assms(1)], of args]
  by (auto simp: chisel_main_command client_main_def ends_flags_def)

lemma server_command_asked:
  "server_command getenv (server_flags_of nl xs) =
     (if given [''keygen''] xs \<noteq> [] then Generate_key_file (given [''keygen''] xs) (given [''key''] xs)
      else Start_server \<lparr>ss_config = server_asked getenv nl xs, ss_tls = tls_asked xs,
             ss_host = host_asked getenv xs, ss_port = port_asked getenv xs\<rparr>)"
  by (simp add: server_command_def server_flags_of_def server_asked_def tls_asked_def host_asked_def port_asked_def Let_def)

lemma client_headers_named:
  assumes "list_all (client_arg_ok nl) xs"
  shows "\<exists>h. parse_headers (cf_headers (client_flags_of nl xs)) [] = Some h"
proof -
  have "list_all (\<lambda>a. CHR '':'' \<in> set a) (values_of [''header''] xs)"
    using assms
    by (induction xs)
      (auto simp: values_of_def client_arg_ok_def value_ok_def client_switches_def client_texts_def split: option.splits)
  then show ?thesis
    using parse_headers_none [of "values_of [''header''] xs" "[]"] by (auto simp: client_flags_of_def)
qed

lemma client_command_asked:
  assumes "list_all (client_arg_ok nl) xs" and "2 \<le> length args"
  shows "\<exists>h. client_command getenv (client_flags_of nl xs) args =
       Start_client (client_asked getenv nl xs (hd args) (tl args)) h \<and> map_get h = headers_asked xs"
proof -
  obtain h where h: "parse_headers (values_of [''header''] xs) [] = Some h"
    using client_headers_named [OF assms(1)] by (auto simp: client_flags_of_def)
  have get: "map_get h = map_of (rev (map (\<lambda>a. (header_name a, [header_value a])) (values_of [''header''] xs)))"
    using parse_headers_get [OF h] by simp
  have host: "canonical_key ''Host'' = ''Host''" by code_simp
  show ?thesis
    using assms(2)
    by (simp add: client_command_def client_flags_of_def h client_asked_def Let_def headers_asked_def get)
      (simp add: header_put_def host get)
qed

lemma server_with_asked:
  "if given [''keygen''] xs \<noteq> []
   then server_with pe (server_flags_of (pe_numbers pe) xs) tr = make_key_file pe (given [''keygen''] xs) (given [''key''] xs)
   else case server_with pe (server_flags_of (pe_numbers pe) xs) tr of
      Server_waits s r tr' \<Rightarrow>
        new_server (pe_regex pe) (pe_crypto pe) (pe_server pe) (server_asked (pe_getenv pe) (pe_numbers pe) xs) = Inr s
        \<and> start_context (pe_listen pe) (pe_os pe) (tls_asked xs) (host_asked (pe_getenv pe) xs)
             (port_asked (pe_getenv pe) xs) True new_server_run tr = (None, r, tr')
        \<and> (switched ''pid'' xs \<longrightarrow> generate_pid_file pe = None)
    | Fatal_exit (Server_refused e) \<Rightarrow>
        new_server (pe_regex pe) (pe_crypto pe) (pe_server pe) (server_asked (pe_getenv pe) (pe_numbers pe) xs) = Inl e
    | Fatal_exit (Not_written e) \<Rightarrow> switched ''pid'' xs \<and> generate_pid_file pe = Some e
    | Fatal_exit (Server_not_started e) \<Rightarrow>
        fst (start_context (pe_listen pe) (pe_os pe) (tls_asked xs) (host_asked (pe_getenv pe) xs)
             (port_asked (pe_getenv pe) xs) True new_server_run tr) = Some e
    | _ \<Rightarrow> False"
proof -
  have "sf_pid (server_flags_of (pe_numbers pe) xs) = switched ''pid'' xs" by (simp add: server_flags_of_def)
  then show ?thesis
    by (simp add: server_with_def server_command_asked split: sum.split option.split prod.split)
qed

lemma client_with_asked:
  assumes "list_all (client_arg_ok (pe_numbers pe)) xs"
  shows "if length args < 2
    then client_with pe (client_flags_of (pe_numbers pe) xs) args tr = Fatal_exit Arguments_missing
    else case client_with pe (client_flags_of (pe_numbers pe) xs) args tr of
      Client_starts ct h tr' \<Rightarrow>
        new_client (pe_lib pe) (pe_os pe) (pe_client pe)
          (client_asked (pe_getenv pe) (pe_numbers pe) xs (hd args) (tl args)) tr = (Inr ct, tr')
        \<and> map_get h = headers_asked xs \<and> (switched ''pid'' xs \<longrightarrow> generate_pid_file pe = None)
    | Fatal_exit (Client_refused e) \<Rightarrow>
        fst (new_client (pe_lib pe) (pe_os pe) (pe_client pe)
          (client_asked (pe_getenv pe) (pe_numbers pe) xs (hd args) (tl args)) tr) = Inl e
    | Fatal_exit (Not_written e) \<Rightarrow> switched ''pid'' xs \<and> generate_pid_file pe = Some e
    | _ \<Rightarrow> False"
proof (cases "length args < 2")
  case True
  with client_headers_named [OF assms]
  have "client_command (pe_getenv pe) (client_flags_of (pe_numbers pe) xs) args = Too_few_arguments"
    by (auto simp: client_command_def)
  with True show ?thesis by (simp add: client_with_def)
next
  case False
  with client_command_asked [OF assms, of args "pe_getenv pe"] obtain h
    where h: "client_command (pe_getenv pe) (client_flags_of (pe_numbers pe) xs) args =
        Start_client (client_asked (pe_getenv pe) (pe_numbers pe) xs (hd args) (tl args)) h"
      "map_get h = headers_asked xs" by auto
  have "cf_pid (client_flags_of (pe_numbers pe) xs) = switched ''pid'' xs" by (simp add: client_flags_of_def)
  with False h show ?thesis
    by (simp add: client_with_def split: sum.split option.split prod.split)
qed

text \<open>
  C34. A run is what its flags say. After \<^verbatim>\<open>chisel server\<close> or \<^verbatim>\<open>chisel client\<close> come any valid flags
  of that command, each in any of its forms, and the other arguments. A server with \<^verbatim>\<open>--keygen\<close>
  only makes that key, from the seed of \<^verbatim>\<open>--key\<close>. Otherwise \<^verbatim>\<open>NewServer\<close> gets, setting by setting, the
  last value of the flag, else the environment variable, else the default, and the server listens
  on the host and port and with the TLS settings that were asked for; the run fails only where one
  of these steps fails, with its error. A client needs two arguments, its server and a remote; \<^verbatim>\<open>NewClient\<close> gets
  the settings asked for and all the remotes, and it starts with the headers asked for.
\<close>

theorem program_takes_flags:
  assumes "ends_flags rest args"
  shows "(list_all (server_arg_ok (pe_numbers pe)) xs \<longrightarrow>
      (let run = chisel_main pe (''server'' # concat (map flag_words xs) @ rest) tr;
           made = new_server (pe_regex pe) (pe_crypto pe) (pe_server pe) (server_asked (pe_getenv pe) (pe_numbers pe) xs);
           started = start_context (pe_listen pe) (pe_os pe) (tls_asked xs) (host_asked (pe_getenv pe) xs)
             (port_asked (pe_getenv pe) xs) True new_server_run tr
       in if given [''keygen''] xs \<noteq> [] then run = make_key_file pe (given [''keygen''] xs) (given [''key''] xs)
          else case run of
            Server_waits s r tr' \<Rightarrow> made = Inr s \<and> started = (None, r, tr')
              \<and> (switched ''pid'' xs \<longrightarrow> generate_pid_file pe = None)
          | Fatal_exit (Server_refused e) \<Rightarrow> made = Inl e
          | Fatal_exit (Not_written e) \<Rightarrow> switched ''pid'' xs \<and> generate_pid_file pe = Some e
          | Fatal_exit (Server_not_started e) \<Rightarrow> fst started = Some e
          | _ \<Rightarrow> False))
    \<and> (list_all (client_arg_ok (pe_numbers pe)) xs \<longrightarrow>
      (let run = chisel_main pe (''client'' # concat (map flag_words xs) @ rest) tr;
           made = new_client (pe_lib pe) (pe_os pe) (pe_client pe)
             (client_asked (pe_getenv pe) (pe_numbers pe) xs (hd args) (tl args)) tr
       in if length args < 2 then run = Fatal_exit Arguments_missing
          else case run of
            Client_starts ct h tr' \<Rightarrow> made = (Inr ct, tr') \<and> map_get h = headers_asked xs
              \<and> (switched ''pid'' xs \<longrightarrow> generate_pid_file pe = None)
          | Fatal_exit (Client_refused e) \<Rightarrow> fst made = Inl e
          | Fatal_exit (Not_written e) \<Rightarrow> switched ''pid'' xs \<and> generate_pid_file pe = Some e
          | _ \<Rightarrow> False))"
proof (intro conjI impI)
  assume "list_all (server_arg_ok (pe_numbers pe)) xs"
  note run = server_main_flags [OF this assms, of tr]
  show "let run = chisel_main pe (''server'' # concat (map flag_words xs) @ rest) tr;
           made = new_server (pe_regex pe) (pe_crypto pe) (pe_server pe) (server_asked (pe_getenv pe) (pe_numbers pe) xs);
           started = start_context (pe_listen pe) (pe_os pe) (tls_asked xs) (host_asked (pe_getenv pe) xs)
             (port_asked (pe_getenv pe) xs) True new_server_run tr
       in if given [''keygen''] xs \<noteq> [] then run = make_key_file pe (given [''keygen''] xs) (given [''key''] xs)
          else case run of
            Server_waits s r tr' \<Rightarrow> made = Inr s \<and> started = (None, r, tr')
              \<and> (switched ''pid'' xs \<longrightarrow> generate_pid_file pe = None)
          | Fatal_exit (Server_refused e) \<Rightarrow> made = Inl e
          | Fatal_exit (Not_written e) \<Rightarrow> switched ''pid'' xs \<and> generate_pid_file pe = Some e
          | Fatal_exit (Server_not_started e) \<Rightarrow> fst started = Some e
          | _ \<Rightarrow> False"
    unfolding run Let_def by (rule server_with_asked)
next
  assume ok: "list_all (client_arg_ok (pe_numbers pe)) xs"
  note run = client_main_flags [OF this assms, of tr]
  show "let run = chisel_main pe (''client'' # concat (map flag_words xs) @ rest) tr;
           made = new_client (pe_lib pe) (pe_os pe) (pe_client pe)
             (client_asked (pe_getenv pe) (pe_numbers pe) xs (hd args) (tl args)) tr
       in if length args < 2 then run = Fatal_exit Arguments_missing
          else case run of
            Client_starts ct h tr' \<Rightarrow> made = (Inr ct, tr') \<and> map_get h = headers_asked xs
              \<and> (switched ''pid'' xs \<longrightarrow> generate_pid_file pe = None)
          | Fatal_exit (Client_refused e) \<Rightarrow> fst made = Inl e
          | Fatal_exit (Not_written e) \<Rightarrow> switched ''pid'' xs \<and> generate_pid_file pe = Some e
          | _ \<Rightarrow> False"
    unfolding run Let_def by (rule client_with_asked [OF ok])
qed
text \<open>
  C35. An unknown flag of a command ends with success. After any valid flags of a command, a flag
  that this command does not define, alone or with a value after an equals sign, makes it print its
  help and exit with status 0, as \<^verbatim>\<open>--help\<close> does, but for the error line; nothing
  is started. That goes for a flag of the other command too. An unknown flag before the command exits with status 2.
\<close>

theorem unknown_flag_status:
  assumes "flag_name_ok n" and "w \<in> {dashes two @ n, dashes two @ n @ ''='' @ v}"
  shows "(list_all (server_arg_ok (pe_numbers pe)) xs \<and> n \<notin> set server_names \<longrightarrow>
      (let run = chisel_main pe (''server'' # concat (map flag_words xs) @ w # args) tr
       in run = Prints_and_exits (if n \<in> {''help'', ''h''} then None else Some (Flag_not_defined n))
            (help_text (server_help (pe_go_version pe)))
        \<and> exit_status run = Some 0))
    \<and> (list_all (client_arg_ok (pe_numbers pe)) xs \<and> n \<notin> set client_names \<longrightarrow>
      (let run = chisel_main pe (''client'' # concat (map flag_words xs) @ w # args) tr
       in run = Prints_and_exits (if n \<in> {''help'', ''h''} then None else Some (Flag_not_defined n))
            (help_text (client_help (pe_go_version pe)))
        \<and> exit_status run = Some 0))
    \<and> (n \<notin> {''version'', ''v'', ''help'', ''h''} \<longrightarrow>
      (let run = chisel_main pe (w # args) tr
       in run = Usage_error (Flag_not_defined n) \<and> exit_status run = Some 2))"
proof (intro conjI impI)
  assume s: "list_all (server_arg_ok (pe_numbers pe)) xs \<and> n \<notin> set server_names"
  then have "n \<notin> set (map fst (server_flag_set (pe_numbers pe)))"
    by (simp add: names_of_flags server_names_def server_texts_def server_switches_def del: set_map)
  with parse_words [OF server_args_named server_flags_effects, of "pe_numbers pe" xs "pe_numbers pe" "w # args"] s
    parse_undefined [OF assms(1) _ assms(2), of "server_flag_set (pe_numbers pe)" args]
  show "let run = chisel_main pe (''server'' # concat (map flag_words xs) @ w # args) tr
       in run = Prints_and_exits (if n \<in> {''help'', ''h''} then None else Some (Flag_not_defined n))
            (help_text (server_help (pe_go_version pe)))
        \<and> exit_status run = Some 0"
    by (auto simp: chisel_main_command server_main_def usage_def exit_status_def)
next
  assume c: "list_all (client_arg_ok (pe_numbers pe)) xs \<and> n \<notin> set client_names"
  then have "n \<notin> set (map fst (client_flag_set (pe_numbers pe)))"
    by (simp add: names_of_flags client_names_def client_texts_def client_switches_def del: set_map)
  with parse_words [OF client_args_named client_flags_effects, of "pe_numbers pe" xs "pe_numbers pe" "w # args"] c
    parse_undefined [OF assms(1) _ assms(2), of "client_flag_set (pe_numbers pe)" args]
  show "let run = chisel_main pe (''client'' # concat (map flag_words xs) @ w # args) tr
       in run = Prints_and_exits (if n \<in> {''help'', ''h''} then None else Some (Flag_not_defined n))
            (help_text (client_help (pe_go_version pe)))
        \<and> exit_status run = Some 0"
    by (auto simp: chisel_main_command client_main_def usage_def exit_status_def)
next
  assume n: "n \<notin> {''version'', ''v'', ''help'', ''h''}"
  then have "n \<notin> set (map fst main_flag_set)" by (simp add: names_of_flags del: set_map)
  with parse_undefined [OF assms(1) _ assms(2), of main_flag_set args] n
  show "let run = chisel_main pe (w # args) tr
       in run = Usage_error (Flag_not_defined n) \<and> exit_status run = Some 2"
    by (simp add: chisel_main_def exit_status_def)
qed

subsection \<open>Concrete runs\<close>

definition demo_server_args :: "flag_arg list" where
  "demo_server_args = [Apart False ''p'' ''1'', Assign True ''port'' ''2'', Switch True ''reverse'', Switch False ''v'']"

definition demo_client_args :: "flag_arg list" where
  "demo_client_args = [Apart True ''header'' ''A: b'', Assign True ''max-retry-count'' ''3'']"

lemma demo_args_ok:
  "list_all (server_arg_ok (pe_numbers demo_program_env)) demo_server_args"
  "list_all (client_arg_ok (pe_numbers demo_program_env)) demo_client_args"
  by code_simp+

lemma demo_asked:
  "sc_reverse (server_asked (pe_getenv demo_program_env) (pe_numbers demo_program_env) demo_server_args)"
  "port_asked (pe_getenv demo_program_env) demo_server_args = ''2''"
  "given [''keygen''] demo_server_args = []"
  by code_simp+

theorem program_takes_flags_witness:
  "\<exists>s r tr. chisel_main demo_program_env [''server'', ''-p'', ''1'', ''--port=2'', ''--reverse'', ''-v'', ''x''] [] =
       Server_waits s r tr
     \<and> new_server toy_regex toy_crypto (pe_server demo_program_env)
         (server_asked (pe_getenv demo_program_env) (pe_numbers demo_program_env) demo_server_args) = Inr s"
proof -
  let ?run = "chisel_main demo_program_env [''server'', ''-p'', ''1'', ''--port=2'', ''--reverse'', ''-v'', ''x''] []"
  have "case ?run of Server_waits s r tr \<Rightarrow> True | _ \<Rightarrow> False" by code_simp
  then obtain s r tr where run: "?run = Server_waits s r tr" by (cases ?run) auto
  have words: "''server'' # concat (map flag_words demo_server_args) @ [''x''] =
      [''server'', ''-p'', ''1'', ''--port=2'', ''--reverse'', ''-v'', ''x'']"
    by (simp add: demo_server_args_def dashes_def)
  have env: "pe_regex demo_program_env = toy_regex" "pe_crypto demo_program_env = toy_crypto"
    by (simp_all add: demo_program_env_def)
  have "ends_flags [''x''] [''x'']" by (simp add: ends_flags_def no_flag_def)
  from program_takes_flags [OF this, of demo_program_env demo_server_args "[]", THEN conjunct1, THEN mp, OF demo_args_ok(1)]
  show ?thesis unfolding words run Let_def by (simp add: demo_asked(3) run env)
qed

theorem unknown_flag_status_witness:
  "exit_status (chisel_main demo_program_env
     [''server'', ''-p'', ''1'', ''--port=2'', ''--reverse'', ''-v'', ''--fingerprint=x''] []) = Some 0
   \<and> exit_status (chisel_main demo_program_env
     [''client'', ''--header'', ''A: b'', ''--max-retry-count=3'', ''--reverse''] []) = Some 0
   \<and> exit_status (chisel_main demo_program_env [''--reverse''] []) = Some 2"
proof -
  have n: "flag_name_ok ''fingerprint''" "flag_name_ok ''reverse''"
    "''fingerprint'' \<notin> set server_names" "''reverse'' \<notin> set client_names" by code_simp+
  have "''--fingerprint=x'' \<in> {dashes True @ ''fingerprint'', dashes True @ ''fingerprint'' @ ''='' @ ''x''}"
    "''--reverse'' \<in> {dashes True @ ''reverse'', dashes True @ ''reverse'' @ ''='' @ []}" by (simp_all add: dashes_def)
  note unknown_flag_status [OF n(1) this(1), of demo_program_env demo_server_args "[]" "[]"]
    unknown_flag_status [OF n(2) this(2), of demo_program_env demo_client_args "[]" "[]"]
  with n demo_args_ok show ?thesis
    by (simp add: demo_server_args_def demo_client_args_def dashes_def Let_def exit_status_def)
qed

end
