(* ===== verification/Client_Run.thy ===== *)
theory Client_Run
  imports Client Fair_Rounds
begin

text \<open>
  The life of a client in \<^verbatim>\<open>client/client.go\<close>: \<^verbatim>\<open>Start\<close> runs the connection loop and the binding
  of the forward remotes as two goroutines of a group; \<^verbatim>\<open>Close\<close> and the first error of the group
  cancel them; \<^verbatim>\<open>Wait\<close> returns when both have ended. A goroutine that is cancelled ends at its
  next move; how the connections of the loop go, and whether a proxy fails, comes with the moves.
\<close>

record client_run =
  cr_cancelled :: bool
  cr_loop :: "loop_end option"
  cr_bind :: bool
  cr_err :: "string option"

definition start_client :: client_run where
  "start_client = \<lparr>cr_cancelled = False, cr_loop = None, cr_bind = False, cr_err = None\<rparr>"

definition client_inbound :: "client \<Rightarrow> remote list" where
  "client_inbound c = remotes_reversed False (ct_remotes c)"

text \<open>The function \<^verbatim>\<open>stop\<close> cancels the run; \<^verbatim>\<open>Close\<close> calls it, if the client was started.\<close>

definition client_stop :: "client_run \<Rightarrow> client_run" where
  "client_stop r = r\<lparr>cr_cancelled := True\<rparr>"

definition client_close :: "client_run option \<Rightarrow> client_run option" where
  "client_close started = map_option client_stop started"

datatype client_move =
    Loop_goes_on
  | Loop_gives_up
  | Binds_on
  | Bind_fails string
  | Close_called

datatype client_goroutine = Loop | Bind | Outside

fun mover :: "client_move \<Rightarrow> client_goroutine" where
  "mover Loop_goes_on = Loop"
| "mover Loop_gives_up = Loop"
| "mover Binds_on = Bind"
| "mover (Bind_fails e) = Bind"
| "mover Close_called = Outside"

text \<open>
  A move of the loop goroutine: it notices the cancellation, gives up and closes the client, or
  connects again. A move of the binding goroutine: with no forward remote it has nothing to do; it
  ends when cancelled, or with the error of a proxy.
\<close>

definition client_step :: "client \<Rightarrow> client_move \<Rightarrow> client_run \<Rightarrow> client_run" where
  "client_step c m r =
     (case mover m of
        Loop \<Rightarrow>
          if cr_loop r \<noteq> None then r
          else if m = Loop_gives_up then client_stop (r\<lparr>cr_loop := Some Gave_up\<rparr>)
          else if cr_cancelled r then r\<lparr>cr_loop := Some Cancelled\<rparr>
          else r
      | Bind \<Rightarrow>
          if cr_bind r then r
          else if client_inbound c = [] then r\<lparr>cr_bind := True\<rparr>
          else (case m of
                  Bind_fails e \<Rightarrow>
                    r\<lparr>cr_bind := True, cr_err := (case cr_err r of None \<Rightarrow> Some e | Some e' \<Rightarrow> Some e'),
                      cr_cancelled := True\<rparr>
                | _ \<Rightarrow> if cr_cancelled r then r\<lparr>cr_bind := True\<rparr> else r)
      | Outside \<Rightarrow> client_stop r)"

definition run_client :: "client \<Rightarrow> client_move list \<Rightarrow> client_run \<Rightarrow> client_run" where
  "run_client c ms r = fold (client_step c) ms r"

text \<open>\<^verbatim>\<open>Wait\<close>: its error, or None while it blocks.\<close>

definition client_wait :: "client_run \<Rightarrow> string option option" where
  "client_wait r = (if cr_loop r \<noteq> None \<and> cr_bind r then Some (cr_err r) else None)"

text \<open>\<^verbatim>\<open>Run\<close> starts the client, which cannot fail, and waits; the moves are those of the run so far.\<close>

definition client_run_blocking :: "client \<Rightarrow> client_move list \<Rightarrow> string option option" where
  "client_run_blocking c ms = client_wait (run_client c ms start_client)"

subsection \<open>A cancelled client ends\<close>

definition client_left :: "client_run \<Rightarrow> nat" where
  "client_left r = (if cr_loop r = None then 1 else 0) + (if cr_bind r then 0 else 1)"

fun client_helpful :: "client_goroutine \<Rightarrow> client_run \<Rightarrow> bool" where
  "client_helpful Loop r = (cr_loop r = None)"
| "client_helpful Bind r = (\<not> cr_bind r)"
| "client_helpful Outside r = False"

lemma client_step_parts:
  fixes r :: client_run
  shows
  "cr_cancelled r \<Longrightarrow> cr_cancelled (client_step c m r)"
  "cr_loop r \<noteq> None \<Longrightarrow> cr_loop (client_step c m r) = cr_loop r"
  "cr_bind r \<Longrightarrow> cr_bind (client_step c m r)"
  "cr_cancelled r \<Longrightarrow> mover m = Loop \<Longrightarrow> cr_loop (client_step c m r) \<noteq> None"
  "cr_cancelled r \<Longrightarrow> mover m = Bind \<Longrightarrow> cr_bind (client_step c m r)"
  by (cases m; simp add: client_step_def client_stop_def)+

interpretation client: fair_progress "client_step c" mover "{Loop, Bind}" cr_cancelled client_helpful client_left
  for c
proof unfold_locales
  fix r :: client_run and m d
  assume canc: "cr_cancelled r"
  note parts = client_step_parts [where c = c and m = m and r = r]
  show "cr_cancelled (client_step c m r)" using canc by (rule parts(1))
  show "client_left (client_step c m r) \<le> client_left r"
    using parts(2,3) by (auto simp: client_left_def)
  show "\<exists>d \<in> {Loop, Bind}. client_helpful d r" if "0 < client_left r"
    using that by (auto simp: client_left_def split: if_splits)
  show "client_left (client_step c m r) < client_left r" if "client_helpful d r" "mover m = d"
    using that parts(2-5) canc by (cases d) (auto simp: client_left_def)
  show "client_left (client_step c m r) < client_left r \<or> client_helpful d (client_step c m r)"
    if "client_helpful d r"
    using that parts(2,3) by (cases d) (auto simp: client_left_def)
qed

lemma client_err:
  assumes "cr_err (run_client c ms start_client) \<noteq> None"
  shows "\<exists>e. Bind_fails e \<in> set ms"
proof (rule ccontr)
  assume "\<not> ?thesis"
  then have "cr_err (fold (client_step c) ms r) = cr_err r" for r
  proof (induction ms arbitrary: r)
    case (Cons m ms)
    then have "cr_err (client_step c m r) = cr_err r"
      by (cases m) (auto simp: client_step_def client_stop_def)
    with Cons show ?case by auto
  qed simp
  with assms show False by (simp add: run_client_def start_client_def)
qed

text \<open>
  A client ends when it gives up or is closed. From the moment its connection loop gives up, a
  proxy fails or \<^verbatim>\<open>Close\<close> is called, two rounds in which both goroutines move suffice for \<^verbatim>\<open>Wait\<close>
  to return; its error is that of a proxy that failed. So a client that has given up, and none of
  whose proxies failed, ends without an error.
\<close>

theorem client_ends:
  assumes "cr_cancelled (run_client c ms start_client)"
    and "2 \<le> length rounds" and "list_all (fair_round mover {Loop, Bind}) rounds"
  shows "case client_run_blocking c (ms @ concat rounds) of
      None \<Rightarrow> False
    | Some err \<Rightarrow> err \<noteq> None \<longrightarrow> (\<exists>e. Bind_fails e \<in> set (ms @ concat rounds))"
proof -
  let ?r = "run_client c ms start_client"
  have "client_left ?r \<le> length rounds" using assms(2) by (simp add: client_left_def)
  with client.rounds_finish [OF assms(1,3)] have "client_left (fold (client_step c) (concat rounds) ?r) = 0" .
  then have "client_left (run_client c (ms @ concat rounds) start_client) = 0" by (simp add: run_client_def)
  then have "client_wait (run_client c (ms @ concat rounds) start_client) =
      Some (cr_err (run_client c (ms @ concat rounds) start_client))"
    by (auto simp: client_left_def client_wait_def split: if_splits)
  with client_err [of c "ms @ concat rounds"] show ?thesis by (auto simp: client_run_blocking_def)
qed

definition demo_client :: client where
  "demo_client = \<lparr>ct_url = \<lparr>url_scheme = ''ws'', url_host = ''example.org:80''\<rparr>, ct_max_retry_interval = 0,
     ct_tls = None, ct_remotes = [zero_remote], ct_proxy_url = None, ct_user = ''ann'', ct_pass = ''p'',
     ct_inbound = True, ct_outbound = False, ct_socks = False\<rparr>"

lemma client_ends_example:
  "case client_run_blocking demo_client
       ([Loop_goes_on, Loop_gives_up] @ concat [[Binds_on, Loop_goes_on], [Binds_on, Loop_goes_on]]) of
     None \<Rightarrow> False | Some err \<Rightarrow> err = None"
proof -
  have "cr_cancelled (run_client demo_client [Loop_goes_on, Loop_gives_up] start_client)" by code_simp
  moreover have "fair_round mover {Loop, Bind} [Binds_on, Loop_goes_on]" by (simp add: fair_round_def)
  ultimately show ?thesis
    using client_ends [of demo_client "[Loop_goes_on, Loop_gives_up]"
        "[[Binds_on, Loop_goes_on], [Binds_on, Loop_goes_on]]"]
    by (auto split: option.splits)
qed

end
