(* ===== verification/Signals.thy ===== *)
theory Signals
  imports Client
begin

text \<open>
  \<^verbatim>\<open>share/cos/\<close>: the waits that a signal cuts short, and the context that an interrupt cancels; and
  with them the times at which a client connects (\<^verbatim>\<open>client/client_connect.go\<close>). The signals that the
  process gets come with their times, in order.
\<close>

datatype os_signal = Sighup | Interrupt_signal | Sigusr2

type_synonym signals = "(time \<times> os_signal) list"

definition next_signal :: "os_signal \<Rightarrow> time \<Rightarrow> signals \<Rightarrow> time option" where
  "next_signal s now sigs = map_option fst (find (\<lambda>(t, s'). s' = s \<and> now \<le> t) sigs)"

text \<open>\<^verbatim>\<open>AfterSignal\<close>: when its channel is closed. \<^verbatim>\<open>SleepSignal\<close> waits for that.\<close>

definition after_signal :: "signals \<Rightarrow> time \<Rightarrow> time \<Rightarrow> time" where
  "after_signal sigs now d =
     (case next_signal Sighup now sigs of None \<Rightarrow> now + d | Some t \<Rightarrow> min t (now + d))"

text \<open>On Windows there is no SIGHUP.\<close>

definition after_signal_windows :: "time \<Rightarrow> time \<Rightarrow> time" where
  "after_signal_windows now d = now + d"

definition sleep_signal :: "signals \<Rightarrow> time \<Rightarrow> time \<Rightarrow> time" where
  "sleep_signal sigs now d = after_signal sigs now d"

text \<open>\<^verbatim>\<open>InterruptContext\<close>: when the context is cancelled, if ever.\<close>

definition interrupt_context :: "signals \<Rightarrow> time \<Rightarrow> time option" where
  "interrupt_context sigs now = next_signal Interrupt_signal now sigs"

text \<open>
  \<^verbatim>\<open>GoStats\<close>: what it prints, one second after it was started at the earliest, for the signals that its
  channel delivers, given by their time and number with the counts of the runtime at that moment.
  Sizes are formatted by a library. The number it waits for is \<^verbatim>\<open>0x1f\<close>.
\<close>

definition stats_signal :: nat where "stats_signal = 31"

definition go_stats :: "(int \<Rightarrow> string) \<Rightarrow> time \<Rightarrow> (time \<times> nat \<times> int \<times> int) list \<Rightarrow> string list" where
  "go_stats fmt started sigs =
     [''recieved SIGUSR2, go-routines: '' @ itoa routines @ '', go-memory-usage: '' @ fmt alloc.
        (t, no, routines, alloc) \<leftarrow> sigs, started + 1000000000 \<le> t \<and> no = stats_signal]"

text \<open>
  The number is that of SIGUSR2 on macOS. On Linux SIGUSR2 has the number 12, and asks for the
  statistics in vain.
\<close>

lemma linux_sigusr2_prints_nothing:
  assumes "list_all (\<lambda>(t, no, routines, alloc). no = 12) sigs"
  shows "go_stats fmt started sigs = []"
  using assms by (induction sigs) (auto simp: go_stats_def stats_signal_def)

text \<open>
  The connection loop in time, from the moment of a connection: how long the connection takes, and
  whether it came about. The times of the connections, and the moments at which they ended.
\<close>

fun connect_times ::
    "'b backoff_lib \<Rightarrow> signals \<Rightarrow> 'b \<Rightarrow> time \<Rightarrow> (time \<times> bool) list \<Rightarrow> (time \<times> time) list" where
  "connect_times lib sigs b now [] = []"
| "connect_times lib sigs b now ((took, connected) # rs) =
     (let b = (if connected then bo_reset lib b else b);
          over = now + took;
          (d, b) = bo_duration lib b
      in (now, over) # connect_times lib sigs b (after_signal sigs over d) rs)"

lemma next_signalD:
  "next_signal s now sigs = Some t \<Longrightarrow> (t, s) \<in> set sigs \<and> now \<le> t"
  by (auto simp: next_signal_def find_Some_iff dest!: nth_mem)

lemma next_signal_least:
  assumes "sorted (map fst sigs)" and "(u, s) \<in> set sigs" and "now \<le> u"
  shows "\<exists>t. next_signal s now sigs = Some t \<and> t \<le> u"
  using assms
proof (induction sigs)
  case Nil
  then show ?case by simp
next
  case (Cons x sigs)
  show ?case
  proof (cases "snd x = s \<and> now \<le> fst x")
    case True
    with Cons.prems(1,2) show ?thesis by (cases x) (auto simp: next_signal_def)
  next
    case False
    with Cons.prems(2,3) have "(u, s) \<in> set sigs" by (cases x) auto
    with Cons False show ?thesis by (cases x) (auto simp: next_signal_def)
  qed
qed

lemma after_signal_le: "after_signal sigs now d \<le> now + d"
  by (simp add: after_signal_def split: option.split)

lemma after_signal_ge: "now \<le> after_signal sigs now d"
  by (auto simp: after_signal_def split: option.split dest: next_signalD)

lemma after_signal_hup:
  assumes "sorted (map fst sigs)" and "(u, Sighup) \<in> set sigs" and "now \<le> u"
  shows "after_signal sigs now d \<le> u"
  using next_signal_least [OF assms] by (auto simp: after_signal_def)

text \<open>
  A client that has lost its connection tries again after at most the largest wait of its
  backoff, and no later than the first SIGHUP after the loss; it never tries before the loss.
\<close>

theorem retry_comes_soon:
  assumes "\<And>b. fst (bo_duration lib b) \<le> mx" and "sorted (map fst sigs)"
    and "Suc i < length (connect_times lib sigs b now rs)"
  shows "let over = snd (connect_times lib sigs b now rs ! i);
      again = fst (connect_times lib sigs b now rs ! Suc i)
    in over \<le> again \<and> again \<le> over + mx
      \<and> (\<forall>u. (u, Sighup) \<in> set sigs \<and> over \<le> u \<longrightarrow> again \<le> u)"
  using assms(3)
proof (induction rs arbitrary: i b now)
  case Nil
  then show ?case by simp
next
  case (Cons r rs)
  obtain took connected where r: "r = (took, connected)" by fastforce
  let ?b = "if connected then bo_reset lib b else b"
  obtain d b' where d: "bo_duration lib ?b = (d, b')" by fastforce
  have eq: "connect_times lib sigs b now (r # rs) =
      (now, now + took) # connect_times lib sigs b' (after_signal sigs (now + took) d) rs"
    by (simp add: r d Let_def)
  show ?case
  proof (cases i)
    case 0
    with Cons.prems obtain r2 rs2 where rs: "rs = r2 # rs2" by (cases rs) (auto simp: r Let_def split: prod.splits)
    have "d \<le> mx" using assms(1) [of ?b] by (simp add: d)
    with after_signal_le [of sigs "now + took" d] have "after_signal sigs (now + took) d \<le> now + took + mx" by simp
    moreover have "fst (connect_times lib sigs b now (r # rs) ! Suc i) = after_signal sigs (now + took) d"
      unfolding eq 0 by (cases r2) (simp add: rs Let_def split: prod.split)
    moreover have "snd (connect_times lib sigs b now (r # rs) ! i) = now + took" by (simp add: eq 0)
    ultimately show ?thesis
      using after_signal_ge [of "now + took" sigs d] after_signal_hup [OF assms(2), of _ "now + took" d]
      by (simp add: Let_def)
  next
    case (Suc j)
    with Cons.prems have "Suc j < length (connect_times lib sigs b' (after_signal sigs (now + took) d) rs)"
      by (simp add: eq)
    from Cons.IH [OF this] show ?thesis by (simp add: eq Suc)
  qed
qed

theorem retry_comes_soon_witness:
  "let lib = \<lparr>bo_new = 0 :: nat, bo_attempt = id, bo_reset = (\<lambda>_. 0), bo_duration = (\<lambda>n. (min 50 (10 * 2 ^ n), Suc n))\<rparr>;
     ts = connect_times lib [(7, Sigusr2), (9, Sighup)] 0 0 [(3, False), (1, True), (4, False)]
   in ts = [(0, 3), (9, 10), (20, 24)] \<and> fst (ts ! 1) \<le> snd (ts ! 0) + 50"
proof -
  let ?lib = "\<lparr>bo_new = 0 :: nat, bo_attempt = id, bo_reset = (\<lambda>_. 0), bo_duration = (\<lambda>n. (min 50 (10 * 2 ^ n), Suc n))\<rparr>"
  let ?ts = "connect_times ?lib [(7, Sigusr2), (9, Sighup)] 0 0 [(3, False), (1, True), (4, False)]"
  have ts: "?ts = [(0, 3), (9, 10), (20, 24)]"
    by (simp add: after_signal_def next_signal_def)
  have "fst (bo_duration ?lib b) \<le> 50" "sorted (map fst [(7 :: nat, Sigusr2), (9, Sighup)])"
    "Suc 0 < length ?ts" for b
    using ts by simp_all
  from retry_comes_soon [OF this] have "fst (?ts ! Suc 0) \<le> snd (?ts ! 0) + 50" unfolding Let_def by (elim conjE)
  with ts show ?thesis unfolding Let_def One_nat_def by blast
qed

end
