(* ===== verification/Spec2Isabelle.thy ===== *)
theory Spec2Isabelle
  imports Remote_Roundtrip Streams Sessions_Auth Sessions_Endpoints Publication Outbound Uds_Wait Udp_Links Links Meter Logging Program
    Program_Flags Client_Run Signals
begin

text \<open>
  A verification of chisel with Unix socket remotes: a TCP and UDP tunnel in Go, carried by HTTP
  websockets and secured by SSH, with reverse tunnels, Unix domain sockets, a monitor of sessions
  and OpenTelemetry.

  \<^bold>\<open>The program.\<close> A server (\<^verbatim>\<open>server/\<close>) accepts websocket connections over HTTP, speaks SSH over
  each, checks the password of its user, receives the client's configuration, which is a list of
  remotes (\<^verbatim>\<open>share/settings/remote.go\<close>), checks each of them, and serves the tunnel
  (\<^verbatim>\<open>share/tunnel/\<close>). A client (\<^verbatim>\<open>client/\<close>) connects, sends its remotes and reconnects. Both
  ends are tunnels: for each inbound remote a proxy listens, and every connection it accepts opens
  an SSH channel whose extra data is the address that the other end is to dial. The server
  keeps a table of sessions and endpoints (\<^verbatim>\<open>server/monitor_state.go\<close>) and publishes what happens
  to spans and metrics (\<^verbatim>\<open>server/otel.go\<close>).

  \<^bold>\<open>Conventions.\<close> Go strings are HOL strings, which are lists of bytes too; maps are association lists
  with distinct keys, because loops over maps visit them in some order; errors are left
  components of a sum; \<^verbatim>\<open>int32\<close> counters and ids are 32-bit words and \<^verbatim>\<open>int64\<close> counters 64-bit
  words, which wrap around. Panics are results of their own. Code that runs under one lock, or in
  one goroutine without blocking, is one step; goroutines interleave by steps, either as inductive
  step relations or as folds over an arbitrary list of moves. What is not under \<^verbatim>\<open>src/\<close> is a
  parameter: the operating system (a function from the trace of calls to a reply), the
  regular expressions of the access lists, JSON, elliptic curves, digests and PEM, the
  websocket and SSH libraries, \<^verbatim>\<open>net/http\<close>, the OpenTelemetry SDK, the gob encoding.

  \<^bold>\<open>Foundations.\<close>
  \<^item> \<^verbatim>\<open>Chisel_Prelude\<close>: names of types, the map operations, lemmas on them and the collections that
    the proofs simplify with.
  \<^item> \<^verbatim>\<open>Go_Strings\<close>: the functions of \<^verbatim>\<open>strings\<close>, \<^verbatim>\<open>strconv\<close>, \<^verbatim>\<open>unicode\<close> and base64 that the code calls.
  \<^item> \<^verbatim>\<open>Os_Env\<close>: the operating system and the traces of its calls, with the listeners that are open
    after a trace; \<^verbatim>\<open>CanListen\<close> and the checks of socket paths.
  \<^item> \<^verbatim>\<open>Fair_Rounds\<close>: a locale for the progress of goroutines under a fair schedule, which the
    copying machines and the client instantiate; a property that something ends within n
    rounds says that it ends after n parts of a schedule in each of which every goroutine moves.

  \<^bold>\<open>Settings.\<close>
  \<^item> \<^verbatim>\<open>Remotes\<close>, \<^verbatim>\<open>Remote_Roundtrip\<close> (\<^verbatim>\<open>share/settings/remote.go\<close>): \<^verbatim>\<open>DecodeRemote\<close> with its tokenizer,
    the printers, the address checked against access lists. Shown: what a decoded remote
    satisfies, decoding of printed TCP, UDP, SOCKS, stdio and Unix remotes, and the one kind of Unix
    remote that does not come back.
  \<^item> \<^verbatim>\<open>Users\<close> (\<^verbatim>\<open>user.go\<close>, \<^verbatim>\<open>users.go\<close>): the table of users behind a locale of string stores, the
    auth file and its reloading. Shown: what an entry grants, that a reload is all or nothing, that
    the order of the file's map does not matter.

  \<^bold>\<open>Server.\<close>
  \<^item> \<^verbatim>\<open>Monitor\<close>, \<^verbatim>\<open>Monitor_Facts\<close> (\<^verbatim>\<open>server/monitor_state.go\<close>): the two maps and each operation; an
    invariant of every reachable state, the abstract table of statuses that the operations refine,
    the snapshot and its counters, independent of map order.
  \<^item> \<^verbatim>\<open>Otel\<close>, \<^verbatim>\<open>Telemetry\<close> (\<^verbatim>\<open>server/otel.go\<close>, the server's wrappers in \<^verbatim>\<open>monitor_state.go\<close>): the
    publisher's tables and what it hands to the SDK; the gauges agree with the monitor. The locale of
    endpoint sinks is what a proxy relies on when it reports.
  \<^item> \<^verbatim>\<open>Server\<close>, \<^verbatim>\<open>Server_Handler\<close>, \<^verbatim>\<open>Server_Facts\<close> (\<^verbatim>\<open>server.go\<close>, \<^verbatim>\<open>server_handler.go\<close>):
    construction, the password check, one websocket connection from the upgrade to its end,
    with the session table and the monitor. Shown: who is served and with what, what the monitor
    ends with, exactly when the handler panics, and in which two situations an entry stays in the session table.
  \<^item> \<^verbatim>\<open>Sessions\<close>, \<^verbatim>\<open>Sessions_Track\<close>, \<^verbatim>\<open>Sessions_Auth\<close>, \<^verbatim>\<open>Sessions_Endpoints\<close>
    (\<^verbatim>\<open>server_handler.go\<close>): any number of handlers at once, each a machine whose steps are
    its calls on what they share, with users that change in between. Alone, a handler is the function
    of \<^verbatim>\<open>Server_Handler\<close>, ends within nine steps and one per attempt, remote and tunnel report, and serves exactly
    what its user may have; together, the
    monitor tracks them all (while the 32-bit counter of sessions does not repeat), nobody is
    served without a password, and an endpoint is open only while its session's handler serves.
  \<^item> \<^verbatim>\<open>Publication\<close> (\<^verbatim>\<open>monitor_state.go\<close>, \<^verbatim>\<open>otel.go\<close>): the server's reports split at the locks they take;
    overlapping reports leave the gauges at a snapshot of some moment, not always the latest.
  \<^item> \<^verbatim>\<open>Server_Listen\<close> (\<^verbatim>\<open>server_listen.go\<close>, \<^verbatim>\<open>env.go\<close>): the listener and its TLS configuration.
  \<^item> \<^verbatim>\<open>Server_Run\<close> (\<^verbatim>\<open>share/cnet/http_server.go\<close>, \<^verbatim>\<open>server.go\<close>, \<^verbatim>\<open>otel.go\<close>): start, close and wait.

  \<^bold>\<open>Tunnel.\<close>
  \<^item> \<^verbatim>\<open>Proxies\<close> (\<^verbatim>\<open>tunnel_in_proxy.go\<close>, \<^verbatim>\<open>Tunnel.BindRemotes\<close>): listening, reporting, stopping. Shown:
    listeners are closed again, except in the two cases the findings name; the monitor follows.
  \<^item> \<^verbatim>\<open>Streams\<close> (\<^verbatim>\<open>tunnel_in_proxy.go\<close>): the connections of a proxy as a step relation; each stream is
    reported once at each stage.
  \<^item> \<^verbatim>\<open>Wait_Group\<close>, \<^verbatim>\<open>Tunnel\<close> (\<^verbatim>\<open>wg.go\<close>, \<^verbatim>\<open>tunnel.go\<close>, \<^verbatim>\<open>tunnel_out_ssh.go\<close>): the counter, binding and
    cancelling, the keep-alive loop, the decision about channels. Shown: the only way to a panic
    and a schedule that takes it, that a bind returns (its measure starts at eight, one per atomic step of the two
    goroutines), that a channel reaches the target its remote names, and that any other name is dialled too,
    which the test \<^verbatim>\<open>acl_channel_test.go\<close> expects to be refused.
  \<^item> \<^verbatim>\<open>Outbound\<close> (\<^verbatim>\<open>tunnel_out_ssh.go\<close>, \<^verbatim>\<open>connstats.go\<close>): the life of the channels that the peer
    opens, and the counters that their goroutines share.
  \<^item> \<^verbatim>\<open>Uds_Pair\<close>, \<^verbatim>\<open>Uds_Wait\<close> (\<^verbatim>\<open>tunnel_in_proxy_uds_pair.go\<close>): the registry of waiting proxies and the
    goroutines that wait in it; pairing is a matching, first come first served, and no waiter is lost.
  \<^item> \<^verbatim>\<open>Udp_Out\<close>, \<^verbatim>\<open>Udp_In\<close> (\<^verbatim>\<open>tunnel_out_ssh_udp.go\<close>, \<^verbatim>\<open>tunnel_in_proxy_udp.go\<close>, \<^verbatim>\<open>udp.go\<close>): the two
    halves of a UDP remote. Shown: at most 100 readers (the code's own constant), packets are not
    duplicated, reordered or altered, what a channel that died alone does, and how readers run out.
  \<^item> \<^verbatim>\<open>Udp_Links\<close> (the same files): a UDP remote from end to end, the listener with the handlers and
    readers at the other ends of its channels. Shown: the datagrams of different sources do not mix.
  \<^item> \<^verbatim>\<open>Copying\<close> (\<^verbatim>\<open>share/cio/pipe.go\<close>, \<^verbatim>\<open>stdio.go\<close>, the relay of \<^verbatim>\<open>tunnel_in_proxy_uds_pair.go\<close>):
    \<^verbatim>\<open>io.Copy\<close> written out and two copying machines. A pipe returns within seven rounds of the end
    of one direction, a relay within five: the number of steps the two goroutines have left.
  \<^item> \<^verbatim>\<open>Links\<close> (\<^verbatim>\<open>pipeRemote\<close>, \<^verbatim>\<open>handleTCP\<close>): a stream from end to end, two pipes with an SSH channel between
    them. Shown: what arrives is a prefix of what was said, nothing is missing while the copies go on,
    and everything arrives within as many rounds as the bytes on the way weigh.
  \<^item> \<^verbatim>\<open>Cnet\<close>, \<^verbatim>\<open>Meter\<close> (\<^verbatim>\<open>share/cnet/\<close>): the byte stream over websocket messages, refined to a list of
    bytes by a locale of byte sources; the counters.
  \<^item> \<^verbatim>\<open>Ccrypto\<close> (\<^verbatim>\<open>share/ccrypto/\<close>): the deterministic reader, keys of seeds, chisel keys.
  \<^item> \<^verbatim>\<open>Logging\<close> (\<^verbatim>\<open>share/cio/logger.go\<close>): loggers that share the flags of their root.

  \<^bold>\<open>Client and program.\<close>
  \<^item> \<^verbatim>\<open>Client\<close> (\<^verbatim>\<open>client.go\<close>, \<^verbatim>\<open>client_connect.go\<close>): construction, the check of the server's key, one
    connection, the loop that reconnects. \<^verbatim>\<open>Client_Run\<close>: its two goroutines from \<^verbatim>\<open>Start\<close> to \<^verbatim>\<open>Wait\<close>.
  \<^item> \<^verbatim>\<open>Signals\<close> (\<^verbatim>\<open>share/cos/\<close>, \<^verbatim>\<open>client_connect.go\<close>): the waits that a SIGHUP cuts short, and with them
    the times at which a client connects.
  \<^item> \<^verbatim>\<open>Flags\<close>, \<^verbatim>\<open>Command_Line\<close>, \<^verbatim>\<open>Help_Text\<close>, \<^verbatim>\<open>Program\<close> (\<^verbatim>\<open>main.go\<close>): the flag package of the standard
    library, what flags and environment become, the help texts, and a run of the program from its
    arguments to the start of a server or a client. Shown: flags are read back in all their forms,
    and the help lists the flags. \<^verbatim>\<open>Program_Flags\<close> says without the flag tables which flags and values are
    valid and what settings they mean, and shows that the program does just that, and what an unknown flag does.
  \<^item> This theory: client and server composed (a client is served with exactly the remotes its user
    may have), and the identity of a server across \<^verbatim>\<open>--keygen\<close>.

  \<^bold>\<open>Not modelled.\<close> The profiler (\<^verbatim>\<open>share/cos/\<close>); the aliases of
  \<^verbatim>\<open>share/compat.go\<close>; tests and the benchmark; the disabled \<^verbatim>\<open>pipeVis\<close>; the texts that are only
  logged; the SOCKS server, which is a library; the parsers of durations and of the numbers in flags, likewise; the rates and
  sizes that are formatted with floating-point numbers; certificates and \<^verbatim>\<open>autocert\<close>. Time appears
  as stamps that the caller supplies, except in \<open>Signals\<close>, where the waits of a client pass.
\<close>

subsection \<open>Client and server together\<close>

text \<open>
  C1. A client gets exactly what its user may have. Take a client built from its command line, and a
  server with a user of the client's name and password, to which it connects without a
  network error and sends its configuration. Its tunnel is served, with all its remotes in
  order, if and only if every remote argument decodes to a remote whose address matches
  the user's access list and which is not reversed, or is reversed and the server allows that.
  Otherwise the configuration is refused with a message, and the client's connection ends
  with that message as its error. (The server can listen for the reversed remotes, and the users
  are not changed during the handshake.)
\<close>

theorem client_served_exactly:
  assumes client: "new_client lib os_c env c tr_c = (Inr ct, tr_c')"
    and net: "ce_upgrade_err ce = None" "ce_handshake_err ce = None" "ce_attempts ce = [(ct_user ct, ct_pass ct)]"
      "ce_request ce = Request ''config'' payload"
      "ce_decode ce payload = Some \<lparr>cfg_version = v, cfg_remotes = map Some (ct_remotes ct)\<rparr>"
    and user: "parse_auth (cl_auth c) = (name, user_pass u)"
      "users_get name (ui_users (sv_users s)) = Some u" "ce_meanwhile ce = id"
    and os: "\<And>r tr. r \<in> set (ct_remotes ct) \<Longrightarrow> reversed r \<Longrightarrow> fst (can_listen os r tr)"
  shows "if \<forall>arg \<in> set (cl_remotes c). \<exists>r. decode_remote lib arg = Inr r
              \<and> has_access rx u (user_addr r) \<and> (reversed r \<longrightarrow> sc_reverse (sv_config s))
         then fst (handle_websocket rx os ce s tr) = Served (ct_remotes ct)
         else \<exists>msg. fst (handle_websocket rx os ce s tr) = Config_failed msg"
proof -
  from client obtain f where f: "client_remotes lib os_c (cl_remotes c)
      \<lparr>rf_socks = False, rf_reverse = False, rf_stdio = False\<rparr> tr_c = (Inr (ct_remotes ct, f), tr_c')"
    and auth: "(ct_user ct, ct_pass ct) = parse_auth (cl_auth c)"
    by (rule new_clientE)
  from client_remotes_ok [OF f]
  have decoded: "list_all2 (\<lambda>s r. decode_remote lib s = Inr r) (cl_remotes c) (ct_remotes ct)" by simp
  have same: "(\<forall>r \<in> set (ct_remotes ct). remote_allowed rx (sc_reverse (sv_config s)) (Some u) r) =
      (\<forall>arg \<in> set (cl_remotes c). \<exists>r. decode_remote lib arg = Inr r
          \<and> has_access rx u (user_addr r) \<and> (reversed r \<longrightarrow> sc_reverse (sv_config s)))"
    using decoded by (induction rule: list_all2_induct) (auto simp: remote_allowed_def)
  have attempts: "ce_attempts ce = [(name, user_pass u)]" using net(3) auth user(1) by simp
  from known_user_handled [OF net(1,2) attempts user(2,3) net(4,5)]
    validate_decides [OF os, of "ct_remotes ct" rx "sc_reverse (sv_config s)" "Some u" tr]
  show ?thesis unfolding same by (auto split: if_splits)
qed

text \<open>
  The demonstration client's remotes, and the connection it makes; the server has the user
  \<open>ann\<close> with the given access list.
\<close>

definition demo_remotes :: "remote list" where
  "demo_remotes = [zero_remote\<lparr>local_host := ''127.0.0.1'', local_port := ''1080'', local_proto := ''tcp'',
       remote_proto := ''tcp'', socks := True\<rparr>, tcp_remote ''80'']"

definition demo_link :: "client \<Rightarrow> string conn_env" where
  "demo_link ct = (demo_conn (Request ''config'' []) (map Some (ct_remotes ct)))
     \<lparr>ce_attempts := [(ct_user ct, ct_pass ct)]\<rparr>"

definition ann :: "string list \<Rightarrow> string user" where
  "ann as = \<lparr>user_name = ''ann'', user_pass = ''p'', user_addrs = as\<rparr>"

lemma demo_listen: "r \<in> set demo_remotes \<Longrightarrow> fst (can_listen calm_os r tr)"
  by (auto simp: demo_remotes_def can_listen_def tcp_remote_def zero_remote_def calm_os_def sys_def is_uds_def
    uds_mode_listen_def uds_mode_pair_def Let_def)

lemma demo_client_remotes:
  "map_sum (\<lambda>e. ()) ct_remotes (fst (new_client \<lparr>uni_lower = id, url_parse_ok = \<lambda>_. True\<rparr> (\<lambda>_ _. Done)
     demo_client_env demo_client_config [])) = Inr demo_remotes"
  by code_simp

theorem client_served_exactly_witness:
  "case fst (new_client \<lparr>uni_lower = id, url_parse_ok = \<lambda>_. True\<rparr> (\<lambda>_ _. Done)
       demo_client_env demo_client_config []) of
     Inl e \<Rightarrow> False
   | Inr ct \<Rightarrow>
       fst (handle_websocket toy_regex calm_os (demo_link ct)
         (demo_server [(''ann'', ann ['':'', ''R:0.0.0.0:80''])]) []) = Served demo_remotes
       \<and> (\<exists>msg. fst (handle_websocket toy_regex calm_os (demo_link ct)
             (demo_server [(''ann'', ann [''R:0.0.0.0:80''])]) []) = Config_failed msg)"
proof -
  let ?lib = "\<lparr>uni_lower = id, url_parse_ok = \<lambda>_. True\<rparr>"
  obtain ct tr' where n: "new_client ?lib (\<lambda>_ _. Done) demo_client_env demo_client_config [] = (Inr ct, tr')"
    and ct: "ct_remotes ct = demo_remotes"
    using demo_client_remotes
    by (cases "new_client ?lib (\<lambda>_ _. Done) demo_client_env demo_client_config []"; cases "fst (new_client ?lib (\<lambda>_ _. Done) demo_client_env demo_client_config [])") auto
  have auth: "parse_auth (cl_auth demo_client_config) = (''ann'', user_pass (ann as))" for as
    by code_simp
  have args: "cl_remotes demo_client_config = [''1080:socks'', ''R:80:10.0.0.1:80'']"
    by (simp add: demo_client_config_def)
  have dec: "decode_remote ?lib ''1080:socks'' = Inr (demo_remotes ! 0)"
    "decode_remote ?lib ''R:80:10.0.0.1:80'' = Inr (demo_remotes ! 1)"
    and addr: "user_addr (demo_remotes ! 0) = '':''" "user_addr (demo_remotes ! 1) = ''R:0.0.0.0:80''"
    "\<not> reversed (demo_remotes ! 0)"
    by code_simp+
  have access: "has_access toy_regex (ann as) a = (a \<in> set as)" if "[] \<notin> set as" for as a
    using that by (auto simp: has_access_def any_match_iff ann_def toy_regex_def)
  have rev: "sc_reverse (sv_config (demo_server us))" for us by (simp add: demo_server_def demo_config_def)
  have run: "if ''R:0.0.0.0:80'' \<in> set as \<and> '':'' \<in> set as
      then fst (handle_websocket toy_regex calm_os (demo_link ct) (demo_server [(''ann'', ann as)]) []) = Served demo_remotes
      else \<exists>msg. fst (handle_websocket toy_regex calm_os (demo_link ct) (demo_server [(''ann'', ann as)]) []) = Config_failed msg"
    if "[] \<notin> set as" for as
  proof -
    have listen: "\<And>r tr. r \<in> set (ct_remotes ct) \<Longrightarrow> reversed r \<Longrightarrow> fst (can_listen calm_os r tr)"
      unfolding ct by (rule demo_listen)
    have known: "users_get ''ann'' (ui_users (sv_users (demo_server [(''ann'', ann as)]))) = Some (ann as)"
      by (simp add: demo_server_def users_get_def)
    have link: "ce_upgrade_err (demo_link ct) = None" "ce_handshake_err (demo_link ct) = None"
      "ce_attempts (demo_link ct) = [(ct_user ct, ct_pass ct)]" "ce_request (demo_link ct) = Request ''config'' []"
      "ce_decode (demo_link ct) [] = Some \<lparr>cfg_version = [], cfg_remotes = map Some (ct_remotes ct)\<rparr>"
      "ce_meanwhile (demo_link ct) = id"
      by (simp_all add: demo_link_def demo_conn_def)
    have cond: "(\<forall>arg \<in> set (cl_remotes demo_client_config). \<exists>r. decode_remote ?lib arg = Inr r
          \<and> has_access toy_regex (ann as) (user_addr r)
          \<and> (reversed r \<longrightarrow> sc_reverse (sv_config (demo_server [(''ann'', ann as)]))))
        = (''R:0.0.0.0:80'' \<in> set as \<and> '':'' \<in> set as)"
      unfolding args by (auto simp: dec addr [unfolded One_nat_def] access [OF that] rev)
    show ?thesis
      using client_served_exactly [OF n link(1-5) auth known link(6) listen, where rx = toy_regex and tr = "[]"]
      unfolding cond ct by blast
  qed
  from n run [of "['':'', ''R:0.0.0.0:80'']"] run [of "[''R:0.0.0.0:80'']"] show ?thesis by simp
qed

subsection \<open>Generated keys\<close>

text \<open>
  C40. A generated key file keeps the server's identity. If \<^verbatim>\<open>chisel server --keygen\<close> with a key
  seed has written a file, then a server started with that file as its \<^verbatim>\<open>--keyfile\<close> has the very
  key of a server started with the seed as its \<^verbatim>\<open>--key\<close>, so that the clients' fingerprints
  stay valid. (The encoding of private keys is read back by its parser, and the path of the
  file does not look like an inline key.)
\<close>

theorem keygen_keeps_identity:
  assumes law: "\<And>k b. marshal_ec cl k = Some b \<Longrightarrow> parse_ec cl b = Some k"
    and gen: "server_command getenv f = Generate_key_file path seed" "seed \<noteq> []"
      "generate_key_file cl path seed = Some (Write_key path key)"
    and fl: "server_command getenv g = Start_server s" "sf_keyfile g = path" "\<not> is_chisel_key path"
      "env_read_file env path = Inr key"
    and plain: "server_command getenv h = Start_server t" "sf_keyfile h = []" "sf_key h = seed"
      "getenv ''CHISEL_KEY_FILE'' = []"
  shows "server_key_pem cl env (ss_config s) = server_key_pem cl env (ss_config t)
    \<and> (\<exists>pem. server_key_pem cl env (ss_config s) = Inr pem)"
proof -
  have key: "seed_to_chisel_key cl seed = Some key"
    using gen(3) by (auto simp: generate_key_file_def split: option.splits if_splits)
  from chisel_key_round_trip [OF law gen(2) key]
  have ck: "is_chisel_key key" "chisel_key_to_pem cl key = seed_to_pem cl seed" by simp_all
  from key have "seed_to_pem cl seed \<noteq> None"
    by (auto simp: seed_to_chisel_key_def seed_to_pem_def private_key_to_chisel_key_def private_key_to_pem_def
        split: option.splits)
  then obtain pem where pem: "seed_to_pem cl seed = Some pem" by blast
  have "path \<noteq> []" using gen(1) by (auto simp: server_command_def Let_def split: if_splits)
  then have "sc_key_file (ss_config s) = path" using fl(1,2) by (auto simp: server_command_def Let_def split: if_splits)
  then have "server_key_pem cl env (ss_config s) = Inr pem"
    using \<open>path \<noteq> []\<close> fl(3,4) ck pem by (simp add: server_key_pem_def)
  moreover have "sc_key_file (ss_config t) = []" "sc_key_seed (ss_config t) = seed"
    using plain gen(2) by (auto simp: server_command_def Let_def split: if_splits)
  then have "server_key_pem cl env (ss_config t) = Inr pem" using pem by (simp add: server_key_pem_def)
  ultimately show ?thesis by simp
qed

definition server_flags_of :: "string \<Rightarrow> string \<Rightarrow> string \<Rightarrow> server_flags" where
  "server_flags_of keygen key keyfile = \<lparr>sf_key = key, sf_keyfile = keyfile, sf_authfile = [], sf_auth = [], sf_keep_alive = 0,
     sf_proxy = [], sf_socks5 = False, sf_reverse = False, sf_tls_key = [], sf_tls_cert = [],
     sf_tls_domains = [], sf_tls_ca = [], sf_host = [], sf_p = [], sf_port = [], sf_keygen = keygen,
     sf_pid = False, sf_verbose = False\<rparr>"

theorem keygen_keeps_identity_witness:
  "\<exists>key env s t. generate_key_file toy_crypto ''k'' ''seed'' = Some (Write_key ''k'' key)
     \<and> server_command (\<lambda>_. []) (server_flags_of [] [] ''k'') = Start_server s
     \<and> server_command (\<lambda>_. []) (server_flags_of [] ''seed'' []) = Start_server t
     \<and> server_key_pem toy_crypto env (ss_config s) = server_key_pem toy_crypto env (ss_config t)"
proof -
  have law: "parse_ec toy_crypto b = Some k" if "marshal_ec toy_crypto k = Some b" for k b
    using that by (auto simp: toy_crypto_def split: if_splits)
  obtain key where "seed_to_chisel_key toy_crypto ''seed'' = Some key"
    using chisel_key_round_trip_witness by blast
  then have g: "generate_key_file toy_crypto ''k'' ''seed'' = Some (Write_key ''k'' key)"
    by (simp add: generate_key_file_def)
  have c: "server_command (\<lambda>_. []) (server_flags_of ''k'' ''seed'' []) = Generate_key_file ''k'' ''seed''"
    by (simp add: server_command_def server_flags_of_def)
  obtain s t where s: "server_command (\<lambda>_. []) (server_flags_of [] [] ''k'') = Start_server s"
    and t: "server_command (\<lambda>_. []) (server_flags_of [] ''seed'' []) = Start_server t"
    by (simp add: server_command_def server_flags_of_def Let_def)
  define env where "env = \<lparr>env_read_file = (\<lambda>_. Inr key), env_unmarshal = (\<lambda>_. Inl []), env_watch_err = None,
     env_exporter_err = (\<lambda>_. None), env_parse_key = Some, env_parse_url = Inr\<rparr>"
  have "server_key_pem toy_crypto env (ss_config s) = server_key_pem toy_crypto env (ss_config t)"
    using keygen_keeps_identity [OF law c _ g s _ _ _ t, of env]
    by (simp add: env_def server_flags_of_def is_chisel_key_def chisel_key_prefix_def)
  with g s t show ?thesis by blast
qed

end
